(* ===== verification/Prelude.thy ===== *)
theory Prelude
  imports Main "HOL-Library.Word" "HOL-Library.Multiset" "HOL-Library.Monad_Syntax"
begin

text \<open>
  Shared vocabulary of the development: the machine types of the Rust code, its
  \<^verbatim>\<open>Result\<close> type with panics as a third outcome, bounds-checked slices, in-place
  writes to a byte buffer, native-endian integer encodings and \<^verbatim>\<open>chunks_exact\<close>.
  The generic lemmas about them are collected in \<open>byte_simps\<close> and in the locale
  \<open>fixed_codec\<close>, the interface of a fixed-width byte encoding.
\<close>

named_theorems byte_simps \<open>lemmas on reads and writes of byte buffers\<close>
named_theorems outcome_simps \<open>lemmas on results, panics and checked arithmetic\<close>

section \<open>Machine types\<close>

type_synonym byte = "8 word"
type_synonym i32 = "32 word"
type_synonym u32 = "32 word"
type_synonym u64 = "64 word"
type_synonym raw_fd = i32
type_synonym usize = nat

lemma unat_u32: "x < 2 ^ 32 \<Longrightarrow> unat (word_of_nat x :: u32) = x"
  by (simp add: unat_of_nat)

section \<open>Results and panics\<close>

text \<open>\<^verbatim>\<open>Result<T, E>\<close>, with a panic of the code as the third outcome.\<close>

datatype ('e, 'a) result = Ok 'a | Err 'e | Panic

fun and_then :: "('e, 'a) result \<Rightarrow> ('a \<Rightarrow> ('e, 'b) result) \<Rightarrow> ('e, 'b) result" where
  "and_then (Ok x) f = f x"
| "and_then (Err e) f = Err e"
| "and_then Panic f = Panic"

fun ok_or :: "'e \<Rightarrow> 'a option \<Rightarrow> ('e, 'a) result" where
  "ok_or e (Some x) = Ok x"
| "ok_or e None = Err e"

fun expect :: "'a option \<Rightarrow> ('e, 'a) result" where
  "expect (Some x) = Ok x"
| "expect None = Panic"

lemma and_then_Ok [outcome_simps]:
  "and_then r f = Ok y \<longleftrightarrow> (\<exists>x. r = Ok x \<and> f x = Ok y)"
  by (cases r) auto

lemma and_then_Err [outcome_simps]:
  "and_then r f = Err e \<longleftrightarrow> r = Err e \<or> (\<exists>x. r = Ok x \<and> f x = Err e)"
  by (cases r) auto

lemma and_then_Panic [outcome_simps]:
  "and_then r f = Panic \<longleftrightarrow> r = Panic \<or> (\<exists>x. r = Ok x \<and> f x = Panic)"
  by (cases r) auto

lemma ok_or_Ok [outcome_simps]: "ok_or e x = Ok y \<longleftrightarrow> x = Some y"
  by (cases x) auto

lemma ok_or_Err [outcome_simps]: "ok_or e x = Err e' \<longleftrightarrow> x = None \<and> e' = e"
  by (cases x) auto

lemma expect_Ok [outcome_simps]: "expect x = Ok y \<longleftrightarrow> x = Some y"
  by (cases x) auto

lemma expect_not_Err [simp]: "expect x \<noteq> Err e"
  by (cases x) auto

lemma ok_or_not_Panic [simp]: "ok_or e x \<noteq> Panic"
  by (cases x) auto

section \<open>Checked arithmetic on usize\<close>

text \<open>A \<open>usize\<close> of \<open>bits\<close> bits is a natural number below \<open>2 ^ bits\<close>.\<close>

definition checked_add :: "nat \<Rightarrow> usize \<Rightarrow> usize \<Rightarrow> usize option" where
  "checked_add bits a b = (if a + b < 2 ^ bits then Some (a + b) else None)"

definition checked_mul :: "nat \<Rightarrow> usize \<Rightarrow> usize \<Rightarrow> usize option" where
  "checked_mul bits a b = (if a * b < 2 ^ bits then Some (a * b) else None)"

lemma checked_add_Some [outcome_simps]:
  "checked_add bits a b = Some c \<longleftrightarrow> c = a + b \<and> a + b < 2 ^ bits"
  by (auto simp: checked_add_def)

lemma checked_mul_Some [outcome_simps]:
  "checked_mul bits a b = Some c \<longleftrightarrow> c = a * b \<and> a * b < 2 ^ bits"
  by (auto simp: checked_mul_def)

section \<open>Slices and in-place writes\<close>

text \<open>\<^verbatim>\<open>&xs[i..j]\<close>, which panics out of range.\<close>

definition slice :: "'a list \<Rightarrow> nat \<Rightarrow> nat \<Rightarrow> ('e, 'a list) result" where
  "slice xs i j = (if i \<le> j \<and> j \<le> length xs then Ok (take (j - i) (drop i xs)) else Panic)"

lemma slice_Ok [outcome_simps]:
  "slice xs i j = Ok ys \<longleftrightarrow> i \<le> j \<and> j \<le> length xs \<and> ys = take (j - i) (drop i xs)"
  by (auto simp: slice_def)

lemma slice_Panic [outcome_simps]:
  "slice xs i j = Panic \<longleftrightarrow> \<not> (i \<le> j \<and> j \<le> length xs)"
  by (auto simp: slice_def)

lemma slice_not_Err [simp]: "slice xs i j \<noteq> Err e"
  by (simp add: slice_def)

text \<open>
  An unaligned read of the first \<open>n\<close> bytes of a slice through a raw pointer. Beyond the end of the slice it
  is undefined behaviour, which is the outcome \<open>Panic\<close> here: what is proved free of panics makes no such read.
\<close>

definition read_raw :: "'a list \<Rightarrow> nat \<Rightarrow> ('e, 'a list) result" where
  "read_raw xs n = (if n \<le> length xs then Ok (take n xs) else Panic)"

text \<open>Writing \<open>ys\<close> over the bytes at offset \<open>i\<close>; reading \<open>n\<close> bytes at offset \<open>i\<close>.\<close>

definition patch :: "'a list \<Rightarrow> nat \<Rightarrow> 'a list \<Rightarrow> 'a list" where
  "patch xs i ys = take i xs @ ys @ drop (i + length ys) xs"

definition sub :: "'a list \<Rightarrow> nat \<Rightarrow> nat \<Rightarrow> 'a list" where
  "sub xs i n = take n (drop i xs)"

lemma length_patch [byte_simps]:
  "i + length ys \<le> length xs \<Longrightarrow> length (patch xs i ys) = length xs"
  by (simp add: patch_def)

lemma length_sub [byte_simps]: "i + n \<le> length xs \<Longrightarrow> length (sub xs i n) = n"
  by (simp add: sub_def)

lemma sub_patch_same [byte_simps]:
  "i \<le> length xs \<Longrightarrow> length ys = n \<Longrightarrow> sub (patch xs i ys) i n = ys"
  by (simp add: sub_def patch_def)

lemma sub_patch_after [byte_simps]:
  "i + length ys \<le> j \<Longrightarrow> i + length ys \<le> length xs \<Longrightarrow> sub (patch xs i ys) j n = sub xs j n"
  by (simp add: sub_def patch_def)

lemma sub_append [byte_simps]: "i + n \<le> length xs \<Longrightarrow> sub (xs @ ys) i n = sub xs i n"
  by (simp add: sub_def)

lemma sub_take [byte_simps]: "i + n \<le> k \<Longrightarrow> sub (take k xs) i n = sub xs i n"
  by (simp add: sub_def drop_take min_def)

lemma sub_patch_before [byte_simps]:
  "j + n \<le> i \<Longrightarrow> i \<le> length xs \<Longrightarrow> sub (patch xs i ys) j n = sub xs j n"
  by (simp add: patch_def sub_append sub_take)

lemma sub_sub [byte_simps]: "j + m \<le> n \<Longrightarrow> sub (sub xs i n) j m = sub xs (i + j) m"
  by (simp add: sub_def drop_take min_def add.commute)

lemma take_patch [byte_simps]:
  "k \<le> i \<Longrightarrow> i \<le> length xs \<Longrightarrow> take k (patch xs i ys) = take k xs"
  by (simp add: patch_def min_def)

lemma drop_patch [byte_simps]:
  "i + length ys \<le> k \<Longrightarrow> i \<le> length xs \<Longrightarrow> drop k (patch xs i ys) = drop k xs"
  by (simp add: patch_def)

lemma patch_patch [byte_simps]:
  assumes "i \<le> length xs" "length ys = length zs"
  shows "patch (patch xs i ys) i zs = patch xs i zs"
  using assms by (simp add: patch_def)

lemma patch_adjacent:
  assumes "i + length ys \<le> length xs"
  shows "patch (patch xs i ys) (i + length ys) zs = patch xs i (ys @ zs)"
  using assms by (simp add: patch_def ac_simps)

lemma patch_inside:
  assumes "p + length b \<le> length xs" "q + length d \<le> length b"
  shows "patch (patch xs p b) (p + q) d = patch xs p (patch b q d)"
proof -
  let ?A = "take p xs" and ?R = "drop (p + length b) xs"
  have A: "length ?A = p" using assms by simp
  have "take (p + q) (?A @ b @ ?R) = ?A @ take q b"
    using A assms by simp
  moreover have "drop (p + q + length d) (?A @ b @ ?R) = drop (q + length d) (b @ ?R)"
    using A by simp
  moreover have "drop (q + length d) (b @ ?R) = drop (q + length d) b @ ?R"
    using assms by simp
  moreover have "length (patch b q d) = length b" using assms by (simp add: length_patch)
  ultimately show ?thesis by (simp add: patch_def)
qed

section \<open>Native-endian integers\<close>

fun le_bytes :: "nat \<Rightarrow> nat \<Rightarrow> byte list" where
  "le_bytes 0 v = []"
| "le_bytes (Suc n) v = word_of_nat v # le_bytes n (v div 256)"

fun le_nat :: "byte list \<Rightarrow> nat" where
  "le_nat [] = 0"
| "le_nat (b # bs) = unat b + 256 * le_nat bs"

text \<open>The flag says whether the target is big-endian.\<close>

definition ne_bytes :: "bool \<Rightarrow> nat \<Rightarrow> nat \<Rightarrow> byte list" where
  "ne_bytes be n v = (if be then rev (le_bytes n v) else le_bytes n v)"

definition ne_nat :: "bool \<Rightarrow> byte list \<Rightarrow> nat" where
  "ne_nat be bs = (if be then le_nat (rev bs) else le_nat bs)"

lemma length_le_bytes [simp]: "length (le_bytes n v) = n"
  by (induction n arbitrary: v) auto

lemma length_ne_bytes [simp]: "length (ne_bytes be n v) = n"
  by (simp add: ne_bytes_def)

lemma le_nat_le_bytes: "le_nat (le_bytes n v) = v mod 256 ^ n"
proof (induction n arbitrary: v)
  case 0
  then show ?case by simp
next
  case (Suc n)
  have "unat (word_of_nat v :: byte) = v mod 256"
    by (simp add: unat_of_nat)
  with Suc show ?case
    by (simp add: mod_mult2_eq)
qed

lemma ne_nat_ne_bytes: "v < 256 ^ n \<Longrightarrow> ne_nat be (ne_bytes be n v) = v"
  by (simp add: ne_nat_def ne_bytes_def le_nat_le_bytes)

lemma le_bytes_le_nat: "le_bytes (length bs) (le_nat bs) = bs"
proof (induction bs)
  case Nil
  then show ?case by simp
next
  case (Cons b bs)
  have u: "unat b < 256" using unsigned_less [of b] by simp
  then have "(unat b + 256 * le_nat bs) div 256 = le_nat bs" by simp
  moreover have "(word_of_nat (unat b + 256 * le_nat bs) :: byte) = b"
  proof -
    have z: "(256 :: byte) = 0" by simp
    have "256 * x = 0" for x :: byte unfolding z by simp
    then show ?thesis by simp
  qed
  ultimately show ?case using Cons by simp
qed

lemma le_nat_bound: "le_nat bs < 256 ^ length bs"
proof (induction bs)
  case Nil
  then show ?case by simp
next
  case (Cons b bs)
  have "unat b < 256" using unsigned_less [of b] by simp
  with Cons show ?case by simp
qed

lemma ne_nat_bound: "ne_nat be bs < 256 ^ length bs"
  using le_nat_bound [of bs] le_nat_bound [of "rev bs"] by (simp add: ne_nat_def)

text \<open>\<^verbatim>\<open>i32::to_ne_bytes\<close> and \<^verbatim>\<open>i32::from_ne_bytes\<close>.\<close>

definition to_ne_bytes :: "bool \<Rightarrow> i32 \<Rightarrow> byte list" where
  "to_ne_bytes be w = ne_bytes be 4 (unat w)"

definition from_ne_bytes :: "bool \<Rightarrow> byte list \<Rightarrow> i32" where
  "from_ne_bytes be bs = word_of_nat (ne_nat be bs)"

lemma length_to_ne_bytes [simp]: "length (to_ne_bytes be w) = 4"
  by (simp add: to_ne_bytes_def)

lemma from_to_ne_bytes [simp]: "from_ne_bytes be (to_ne_bytes be w) = w"
proof -
  have "unat w < 256 ^ 4" using unsigned_less [of w] by simp
  then show ?thesis by (simp add: to_ne_bytes_def from_ne_bytes_def ne_nat_ne_bytes)
qed

section \<open>Chunks\<close>

text \<open>\<^verbatim>\<open>slice::chunks_exact\<close>: whole chunks only, the remainder is dropped.\<close>

function chunks_exact :: "nat \<Rightarrow> 'a list \<Rightarrow> 'a list list" where
  "chunks_exact k xs =
     (if k = 0 \<or> length xs < k then [] else take k xs # chunks_exact k (drop k xs))"
  by pat_completeness auto
termination
  by (relation "measure (\<lambda>(k, xs). length xs)") auto

declare chunks_exact.simps [simp del]

lemma chunks_exact_short [simp]: "length xs < k \<Longrightarrow> chunks_exact k xs = []"
  by (simp add: chunks_exact.simps)

lemma chunks_exact_append:
  "0 < k \<Longrightarrow> length xs = k \<Longrightarrow> chunks_exact k (xs @ ys) = xs # chunks_exact k ys"
  by (simp add: chunks_exact.simps [of k "xs @ ys"])

lemma length_chunks_exact: "0 < k \<Longrightarrow> length (chunks_exact k xs) = length xs div k"
proof (induction k xs rule: chunks_exact.induct)
  case (1 k xs)
  show ?case
  proof (cases "length xs < k")
    case True
    then show ?thesis by simp
  next
    case False
    with 1 have "length (chunks_exact k (drop k xs)) = (length xs - k) div k" by simp
    with False "1.prems" show ?thesis
      by (subst chunks_exact.simps) (simp add: le_div_geq)
  qed
qed

lemma chunks_exact_lengths: "c \<in> set (chunks_exact k xs) \<Longrightarrow> length c = k"
proof (induction k xs rule: chunks_exact.induct)
  case (1 k xs)
  from "1.prems" have "c = take k xs \<or> c \<in> set (chunks_exact k (drop k xs))"
    and "\<not> (k = 0 \<or> length xs < k)"
    by (auto simp: chunks_exact.simps [of k xs] split: if_splits)
  with "1.IH" show ?case by auto
qed

subsection \<open>The interface of a fixed-width encoding\<close>

text \<open>
  What the control-message code relies on in an element encoding: a constant width and a
  decoder that inverts the encoder. Arrays of such elements are then decoded chunk by chunk.
\<close>

locale fixed_codec =
  fixes enc :: "'a \<Rightarrow> byte list"
    and dec :: "byte list \<Rightarrow> 'a"
    and width :: nat
  assumes dec_enc: "dec (enc x) = x"
    and length_enc: "length (enc x) = width"
    and width_pos: "0 < width"
begin

lemma enc_inj: "enc x = enc y \<Longrightarrow> x = y"
  by (metis dec_enc)

lemma length_concat_enc: "length (concat (map enc xs)) = width * length xs"
  by (induction xs) (auto simp: length_enc)

lemma chunks_concat_enc:
  "length rest < width \<Longrightarrow> chunks_exact width (concat (map enc xs) @ rest) = map enc xs"
  by (induction xs) (auto simp: length_enc width_pos chunks_exact_append)

lemma decode_array:
  "length rest < width \<Longrightarrow> map dec (chunks_exact width (concat (map enc xs) @ rest)) = xs"
  by (simp add: chunks_concat_enc dec_enc comp_def)

text \<open>An encoded array cut after \<open>n\<close> bytes still yields its first \<open>n div width\<close> elements.\<close>

lemma decode_array_cut:
  "map dec (chunks_exact width (take n (concat (map enc xs)))) = take (n div width) xs"
proof (induction xs arbitrary: n)
  case Nil
  then show ?case using width_pos by simp
next
  case (Cons x xs)
  show ?case
  proof (cases "n < width")
    case True
    then show ?thesis by simp
  next
    case False
    then have "n div width = Suc ((n - width) div width)"
      using width_pos by (simp add: le_div_geq)
    moreover have "take n (enc x @ concat (map enc xs))
        = enc x @ take (n - width) (concat (map enc xs))"
      using False by (simp add: length_enc)
    ultimately show ?thesis
      using Cons [of "n - width"]
      by (simp add: chunks_exact_append length_enc width_pos dec_enc)
  qed
qed

end

interpretation fd_codec: fixed_codec "to_ne_bytes be" "from_ne_bytes be" 4 for be
  by unfold_locales simp_all

end
