(* ===== verification/Libc.thy ===== *)
theory Libc
  imports Prelude
begin

text \<open>
  The target: operating system, word sizes, the \<^verbatim>\<open>cmsghdr\<close> layout and the constants and
  pure macros the crate takes from the \<^verbatim>\<open>libc\<close> crate. None of this is code of the
  repository, so it is the parameter \<open>L\<close> of the model; what the crate relies on is the
  locale \<open>libc_abi\<close> (and \<open>linux_abi\<close>, which adds the tightness of the Linux layout).
  Three concrete targets discharge the laws: 64-bit Linux, big-endian 32-bit Linux and Darwin.
\<close>

section \<open>The parameter\<close>

datatype os = Linux | Android | FreeBSD | DragonFly | NetBSD | OpenBSD | Apple | OtherUnix

type_synonym errno = i32

record libc =
  target_os :: os
  big_endian :: bool
  usize_bits :: nat
  cmsghdr_size :: nat
  len_off :: nat
  len_size :: nat
  level_off :: nat
  type_off :: nat
  CMSG_LEN :: "u32 \<Rightarrow> u32"
  CMSG_SPACE :: "u32 \<Rightarrow> u32"
  iovlen_bits :: nat
  controllen_bits :: nat
  SOL_SOCKET :: i32
  SCM_RIGHTS :: i32
  SCM_CREDENTIALS :: i32
  SO_PASSCRED :: i32
  SO_NOSIGPIPE :: i32
  MSG_CTRUNC :: i32
  MSG_TRUNC :: i32
  MSG_PEEK :: i32
  MSG_CMSG_CLOEXEC :: i32
  MSG_NOSIGNAL :: i32
  FD_CLOEXEC :: i32
  EINTR :: errno
  EAGAIN :: errno
  EINVAL :: errno
  EPIPE :: errno
  EPERM :: errno
  RLIM_INFINITY :: int

text \<open>The conditional-compilation predicates of the crate.\<close>

definition cfg_linux :: "libc \<Rightarrow> bool" where
  "cfg_linux L \<longleftrightarrow> target_os L = Linux \<or> target_os L = Android"

definition cfg_cloexec :: "libc \<Rightarrow> bool" where
  "cfg_cloexec L \<longleftrightarrow> target_os L = Linux \<or> target_os L = Android \<or> target_os L = FreeBSD
     \<or> target_os L = DragonFly \<or> target_os L = NetBSD \<or> target_os L = OpenBSD"

definition cfg_apple :: "libc \<Rightarrow> bool" where
  "cfg_apple L \<longleftrightarrow> target_os L = Apple"

lemma cfg_linux_cloexec: "cfg_linux L \<Longrightarrow> cfg_cloexec L"
  by (auto simp: cfg_linux_def cfg_cloexec_def)

section \<open>The laws of the control-message ABI\<close>

definition max_payload :: nat where
  "max_payload = 2 ^ 31 - 1"

definition disjoint_fields :: "nat \<Rightarrow> nat \<Rightarrow> nat \<Rightarrow> nat \<Rightarrow> bool" where
  "disjoint_fields a m b n \<longleftrightarrow> a + m \<le> b \<or> b + n \<le> a"

locale libc_abi =
  fixes L :: libc
  assumes cmsghdr_pos: "0 < cmsghdr_size L"
    and header_fits: "cmsghdr_size L \<le> unat (CMSG_LEN L 0)"
    and header_small: "unat (CMSG_LEN L 0) \<le> 64"
    and space_covers:
      "unat n \<le> max_payload \<Longrightarrow> unat (CMSG_LEN L 0) + unat n \<le> unat (CMSG_SPACE L n)"
    and len_inside: "len_off L + len_size L \<le> cmsghdr_size L"
    and level_inside: "level_off L + 4 \<le> cmsghdr_size L"
    and type_inside: "type_off L + 4 \<le> cmsghdr_size L"
    and len_level: "disjoint_fields (len_off L) (len_size L) (level_off L) 4"
    and len_type: "disjoint_fields (len_off L) (len_size L) (type_off L) 4"
    and level_type: "disjoint_fields (level_off L) 4 (type_off L) 4"
    and len_width: "len_size L = 4 \<or> len_size L = 8"
    and usize_width: "usize_bits L = 32 \<or> usize_bits L = 64"
    and controllen_width: "32 \<le> controllen_bits L"
    and rights_not_pidfd: "SCM_RIGHTS L \<noteq> 4"
    and credentials_not_pidfd: "SCM_CREDENTIALS L \<noteq> 4"
    and rights_not_credentials: "SCM_RIGHTS L \<noteq> SCM_CREDENTIALS L"
begin

lemma usize_lower: "2 ^ 32 \<le> (2 ^ usize_bits L :: nat)"
  using usize_width by auto

lemma len_field_lower: "2 ^ 32 \<le> (256 ^ len_size L :: nat)"
  using len_width by auto

lemma controllen_lower: "2 ^ 32 \<le> (2 ^ controllen_bits L :: nat)"
  using controllen_width by (rule power_increasing) simp

lemma header_pos: "0 < unat (CMSG_LEN L 0)"
  using cmsghdr_pos header_fits by linarith

end

text \<open>
  Linux and Android: sizes are rounded up to an alignment of at most eight bytes, so they are
  tightly bounded and grow with the payload.
\<close>

locale linux_abi = libc_abi +
  assumes on_linux: "cfg_linux L"
    and header_16: "unat (CMSG_LEN L 0) \<le> 16"
    and space_tight:
      "unat n \<le> max_payload \<Longrightarrow> unat (CMSG_SPACE L n) \<le> unat (CMSG_LEN L 0) + unat n + 7"
    and space_mono:
      "unat m \<le> unat n \<Longrightarrow> unat n \<le> max_payload \<Longrightarrow> unat (CMSG_SPACE L m) \<le> unat (CMSG_SPACE L n)"

section \<open>Concrete targets\<close>

definition align_up :: "nat \<Rightarrow> nat \<Rightarrow> nat" where
  "align_up a n = (n + (a - 1)) div a * a"

definition aligned_len :: "nat \<Rightarrow> nat \<Rightarrow> u32 \<Rightarrow> u32" where
  "aligned_len a h n = word_of_nat (align_up a h + unat n)"

definition aligned_space :: "nat \<Rightarrow> nat \<Rightarrow> u32 \<Rightarrow> u32" where
  "aligned_space a h n = word_of_nat (align_up a h + align_up a (unat n))"

lemma align_up_lower: "0 < a \<Longrightarrow> n \<le> align_up a n"
proof -
  assume a: "0 < a"
  have "n + (a - 1) = (n + (a - 1)) div a * a + (n + (a - 1)) mod a" by simp
  moreover have "(n + (a - 1)) mod a < a" using a by simp
  ultimately show ?thesis unfolding align_up_def by linarith
qed

lemma align_up_upper: "align_up a n \<le> n + (a - 1)"
  unfolding align_up_def by simp

lemma unat_aligned_space:
  assumes "0 < a" "a \<le> 16" "h \<le> 64" "unat n \<le> max_payload"
  shows "unat (aligned_space a h n) = align_up a h + align_up a (unat n)"
proof -
  have "align_up a h + align_up a (unat n) < 2 ^ 32"
    using align_up_upper [of a h] align_up_upper [of a "unat n"] assms
    by (simp add: max_payload_def)
  then show ?thesis unfolding aligned_space_def by (rule unat_u32)
qed

lemma aligned_space_mono:
  assumes "0 < a" "a \<le> 16" "h \<le> 64" "unat m \<le> unat n" "unat n \<le> max_payload"
  shows "unat (aligned_space a h m) \<le> unat (aligned_space a h n)"
  using assms unat_aligned_space [of a h m] unat_aligned_space [of a h n]
  by (simp add: align_up_def div_le_mono)

definition linux64 :: libc where
  "linux64 = \<lparr> target_os = Linux, big_endian = False, usize_bits = 64, cmsghdr_size = 16,
     len_off = 0, len_size = 8, level_off = 8, type_off = 12,
     CMSG_LEN = aligned_len 8 16, CMSG_SPACE = aligned_space 8 16,
     iovlen_bits = 64, controllen_bits = 64,
     SOL_SOCKET = 1, SCM_RIGHTS = 1, SCM_CREDENTIALS = 2, SO_PASSCRED = 16, SO_NOSIGPIPE = 0,
     MSG_CTRUNC = 0x8, MSG_TRUNC = 0x20, MSG_PEEK = 0x2, MSG_CMSG_CLOEXEC = 0x40000000,
     MSG_NOSIGNAL = 0x4000, FD_CLOEXEC = 1,
     EINTR = 4, EAGAIN = 11, EINVAL = 22, EPIPE = 32, EPERM = 1,
     RLIM_INFINITY = 2 ^ 64 - 1 \<rparr>"

definition linux32be :: libc where
  "linux32be = linux64 \<lparr> big_endian := True, usize_bits := 32, cmsghdr_size := 12,
     len_size := 4, level_off := 4, type_off := 8,
     CMSG_LEN := aligned_len 4 12, CMSG_SPACE := aligned_space 4 12,
     iovlen_bits := 32, controllen_bits := 32 \<rparr>"

definition darwin64 :: libc where
  "darwin64 = \<lparr> target_os = Apple, big_endian = False, usize_bits = 64, cmsghdr_size = 12,
     len_off = 0, len_size = 4, level_off = 4, type_off = 8,
     CMSG_LEN = aligned_len 4 12, CMSG_SPACE = aligned_space 4 12,
     iovlen_bits = 32, controllen_bits = 32,
     SOL_SOCKET = 0xffff, SCM_RIGHTS = 1, SCM_CREDENTIALS = 3, SO_PASSCRED = 0, SO_NOSIGPIPE = 0x1022,
     MSG_CTRUNC = 0x20, MSG_TRUNC = 0x10, MSG_PEEK = 0x2, MSG_CMSG_CLOEXEC = 0,
     MSG_NOSIGNAL = 0, FD_CLOEXEC = 1,
     EINTR = 4, EAGAIN = 35, EINVAL = 22, EPIPE = 32, EPERM = 1,
     RLIM_INFINITY = 2 ^ 63 - 1 \<rparr>"

lemmas target_defs = linux64_def linux32be_def darwin64_def

text \<open>What examples on the concrete targets need of them, so that they stay folded.\<close>

lemma target_facts [simp]:
  "cfg_linux linux64" "cfg_cloexec linux64" "cfg_linux linux32be" "cfg_cloexec linux32be"
  "\<not> cfg_linux darwin64" "\<not> cfg_cloexec darwin64" "cfg_apple darwin64"
  "usize_bits linux64 = 64" "usize_bits darwin64 = 64" "usize_bits linux32be = 32"
  "FD_CLOEXEC darwin64 = 1" "EINTR linux64 = 4" "EAGAIN linux64 = 11"
  "EINVAL darwin64 = 22" "EPIPE darwin64 = 32" "RLIM_INFINITY darwin64 = 2 ^ 63 - 1"
  by (simp_all add: target_defs cfg_linux_def cfg_cloexec_def cfg_apple_def)

lemma aligned_header: "aligned_len 8 16 0 = 16" "aligned_len 4 12 0 = 12"
  by (simp_all add: aligned_len_def align_up_def)

lemma aligned_space_covers:
  assumes "0 < a" "a \<le> 16" "h \<le> 64" "unat n \<le> max_payload"
  shows "align_up a h + unat n \<le> unat (aligned_space a h n)"
  using unat_aligned_space [OF assms] align_up_lower [OF assms(1), of "unat n"] by simp

interpretation linux64: linux_abi linux64
proof unfold_locales
  fix n :: u32
  assume n: "unat n \<le> max_payload"
  show "unat (CMSG_LEN linux64 0) + unat n \<le> unat (CMSG_SPACE linux64 n)"
    using aligned_space_covers [of 8 16 n] n
    by (simp add: linux64_def aligned_header align_up_def)
  show "unat (CMSG_SPACE linux64 n) \<le> unat (CMSG_LEN linux64 0) + unat n + 7"
    using unat_aligned_space [of 8 16 n] align_up_upper [of 8 "unat n"] n
    by (simp add: linux64_def aligned_header align_up_def)
  fix m :: u32
  assume "unat m \<le> unat n"
  with n show "unat (CMSG_SPACE linux64 m) \<le> unat (CMSG_SPACE linux64 n)"
    using aligned_space_mono [of 8 16 m n] by (simp add: linux64_def)
qed (simp_all add: linux64_def aligned_header disjoint_fields_def cfg_linux_def)

interpretation linux32be: linux_abi linux32be
proof unfold_locales
  fix n :: u32
  assume n: "unat n \<le> max_payload"
  show "unat (CMSG_LEN linux32be 0) + unat n \<le> unat (CMSG_SPACE linux32be n)"
    using aligned_space_covers [of 4 12 n] n
    by (simp add: target_defs aligned_header align_up_def)
  show "unat (CMSG_SPACE linux32be n) \<le> unat (CMSG_LEN linux32be 0) + unat n + 7"
    using unat_aligned_space [of 4 12 n] align_up_upper [of 4 "unat n"] n
    by (simp add: target_defs aligned_header align_up_def)
  fix m :: u32
  assume "unat m \<le> unat n"
  with n show "unat (CMSG_SPACE linux32be m) \<le> unat (CMSG_SPACE linux32be n)"
    using aligned_space_mono [of 4 12 m n] by (simp add: target_defs)
qed (simp_all add: target_defs aligned_header disjoint_fields_def cfg_linux_def)

interpretation darwin64: libc_abi darwin64
proof unfold_locales
  fix n :: u32
  assume n: "unat n \<le> max_payload"
  show "unat (CMSG_LEN darwin64 0) + unat n \<le> unat (CMSG_SPACE darwin64 n)"
    using aligned_space_covers [of 4 12 n] n
    by (simp add: target_defs aligned_header align_up_def)
qed (simp_all add: target_defs aligned_header disjoint_fields_def)

end
