(* ===== verification/Kernel.thy ===== *)
theory Kernel
  imports Libc
begin

unbundle bit_operations_syntax

text \<open>
  The boundary to the operating system. A system call is an event; the state of the world
  a function sees and extends is the \<open>trace\<close> of the events of this process so far. The kernel
  is a parameter: it answers every call as a function of the trace and of the arguments, so
  any environment (other processes, signals, time) is some \<open>kernel\<close>. Closing a descriptor,
  which is how an \<^verbatim>\<open>OwnedFd\<close> is dropped, is an event of the trace too. So is what a program asks of
  the standard library (\<open>SysHost\<close>), which the crate itself never does.
\<close>

section \<open>Errors\<close>

datatype error_kind =
  Interrupted | WouldBlock | InvalidInput | InvalidData | WriteZero | BrokenPipe
  | PermissionDenied | TimedOut | Other | Uncategorized

datatype error_msg = Text string | AncillaryMsg | CountMismatch nat nat

datatype io_error = Os errno | Custom error_kind error_msg

text \<open>\<^verbatim>\<open>io::Error::kind\<close>: the standard library's decoding of the error numbers used here.\<close>

fun kind_of :: "libc \<Rightarrow> io_error \<Rightarrow> error_kind" where
  "kind_of L (Custom k m) = k"
| "kind_of L (Os e) =
     (if e = EINTR L then Interrupted
      else if e = EAGAIN L then WouldBlock
      else if e = EINVAL L then InvalidInput
      else if e = EPIPE L then BrokenPipe
      else if e = EPERM L then PermissionDenied
      else Uncategorized)"

section \<open>System calls and the trace\<close>

record send_hdr =
  s_iov :: "byte list list"
  s_iovlen :: nat
  s_control :: "byte list option"
  s_controllen :: nat

record recv_hdr =
  r_iov :: "byte list list"
  r_iovlen :: nat
  r_control :: "byte list"
  r_controllen :: nat

text \<open>
  What a successful \<^verbatim>\<open>recvmsg\<close> leaves behind: its return value, the payload bytes and the
  control bytes it wrote, and the \<^verbatim>\<open>msg_controllen\<close> and \<^verbatim>\<open>msg_flags\<close> fields.
\<close>

record recv_reply =
  rr_ret :: nat
  rr_data :: "byte list"
  rr_control :: "byte list"
  rr_controllen :: nat
  rr_flags :: i32

text \<open>
  What a program around the crate asks of the standard library (files, sockets, processes, time):
  one event per call, with its answer. A descriptor opened this way is a number of 31 bits, the
  values an \<^verbatim>\<open>OwnedFd\<close> can hold.
\<close>

type_synonym open_fd = "31 word"

datatype open_call =
    OpenTemp | OpenRead string | BindTcp string | BindUnix string | ConnectUnix string | Accept raw_fd

datatype action =
    WriteAll raw_fd "byte list" | Flush raw_fd | SeekStart raw_fd nat
  | SetNonblocking raw_fd bool | SetReadTimeout raw_fd nat | SetWriteTimeout raw_fd nat | Kill nat

datatype query = ReadToEnd raw_fd | ReadExact raw_fd nat | LocalAddr raw_fd

datatype host_event =
    HPair "io_error + open_fd \<times> open_fd"
  | HOpen open_call "io_error + open_fd"
  | HNamedTemp "string option" "io_error + string \<times> open_fd"
  | HTempDir "io_error + string"
  | HDo action "io_error + unit"
  | HQuery query "io_error + byte list"
  | HExe "io_error + string"
  | HSpawn string "string list" "io_error + nat"
  | HTryWait nat "io_error + bool option"
  | HWait nat "io_error + bool"
  | HClock nat
  | HSleep nat
  | HRemove string

datatype syscall =
    SysSendmsg raw_fd send_hdr i32 "errno + nat"
  | SysRecvmsg raw_fd recv_hdr i32 "errno + recv_reply"
  | SysClose raw_fd
  | SysGetfd raw_fd "errno + i32"
  | SysSetfd raw_fd i32 "errno + unit"
  | SysSetsockopt raw_fd i32 i32 i32 "errno + unit"
  | SysGetsockopt raw_fd i32 i32 "errno + i32"
  | SysGetrlimit "errno + int"
  | SysHost host_event

type_synonym trace = "syscall list"

record kernel =
  sys_sendmsg :: "trace \<Rightarrow> raw_fd \<Rightarrow> send_hdr \<Rightarrow> i32 \<Rightarrow> errno + nat"
  sys_recvmsg :: "trace \<Rightarrow> raw_fd \<Rightarrow> recv_hdr \<Rightarrow> i32 \<Rightarrow> errno + recv_reply"
  sys_getfd :: "trace \<Rightarrow> raw_fd \<Rightarrow> errno + i32"
  sys_setfd :: "trace \<Rightarrow> raw_fd \<Rightarrow> i32 \<Rightarrow> errno + unit"
  sys_setsockopt :: "trace \<Rightarrow> raw_fd \<Rightarrow> i32 \<Rightarrow> i32 \<Rightarrow> i32 \<Rightarrow> errno + unit"
  sys_getsockopt :: "trace \<Rightarrow> raw_fd \<Rightarrow> i32 \<Rightarrow> i32 \<Rightarrow> errno + i32"
  sys_getrlimit :: "trace \<Rightarrow> errno + int"
  sys_getpid :: "trace \<Rightarrow> i32"
  sys_getuid :: "trace \<Rightarrow> u32"
  sys_getgid :: "trace \<Rightarrow> u32"

definition sendmsg ::
  "kernel \<Rightarrow> raw_fd \<Rightarrow> send_hdr \<Rightarrow> i32 \<Rightarrow> trace \<Rightarrow> (errno + nat) \<times> trace" where
  "sendmsg K fd msg flags tr =
     (let r = sys_sendmsg K tr fd msg flags in (r, tr @ [SysSendmsg fd msg flags r]))"

definition recvmsg ::
  "kernel \<Rightarrow> raw_fd \<Rightarrow> recv_hdr \<Rightarrow> i32 \<Rightarrow> trace \<Rightarrow> (errno + recv_reply) \<times> trace" where
  "recvmsg K fd msg flags tr =
     (let r = sys_recvmsg K tr fd msg flags in (r, tr @ [SysRecvmsg fd msg flags r]))"

definition fcntl_getfd :: "kernel \<Rightarrow> raw_fd \<Rightarrow> trace \<Rightarrow> (errno + i32) \<times> trace" where
  "fcntl_getfd K fd tr = (let r = sys_getfd K tr fd in (r, tr @ [SysGetfd fd r]))"

definition fcntl_setfd :: "kernel \<Rightarrow> raw_fd \<Rightarrow> i32 \<Rightarrow> trace \<Rightarrow> (errno + unit) \<times> trace" where
  "fcntl_setfd K fd flags tr =
     (let r = sys_setfd K tr fd flags in (r, tr @ [SysSetfd fd flags r]))"

definition setsockopt ::
  "kernel \<Rightarrow> raw_fd \<Rightarrow> i32 \<Rightarrow> i32 \<Rightarrow> i32 \<Rightarrow> trace \<Rightarrow> (errno + unit) \<times> trace" where
  "setsockopt K fd level opt val tr =
     (let r = sys_setsockopt K tr fd level opt val in
        (r, tr @ [SysSetsockopt fd level opt val r]))"

definition getsockopt ::
  "kernel \<Rightarrow> raw_fd \<Rightarrow> i32 \<Rightarrow> i32 \<Rightarrow> trace \<Rightarrow> (errno + i32) \<times> trace" where
  "getsockopt K fd level opt tr =
     (let r = sys_getsockopt K tr fd level opt in (r, tr @ [SysGetsockopt fd level opt r]))"

definition getrlimit :: "kernel \<Rightarrow> trace \<Rightarrow> (errno + int) \<times> trace" where
  "getrlimit K tr = (let r = sys_getrlimit K tr in (r, tr @ [SysGetrlimit r]))"

lemmas syscall_defs = sendmsg_def recvmsg_def fcntl_getfd_def fcntl_setfd_def setsockopt_def
  getsockopt_def getrlimit_def

text \<open>Dropping owned descriptors closes them, in order.\<close>

definition drop_fds :: "raw_fd list \<Rightarrow> trace \<Rightarrow> trace" where
  "drop_fds fds tr = tr @ map SysClose fds"

section \<open>Observations on a trace\<close>

fun closed_by :: "syscall \<Rightarrow> raw_fd list" where
  "closed_by (SysClose fd) = [fd]"
| "closed_by _ = []"

text \<open>The descriptors this process closed, in order.\<close>

definition closed :: "trace \<Rightarrow> raw_fd list" where
  "closed tr = concat (map closed_by tr)"

lemma closed_append [simp]: "closed (tr @ tr') = closed tr @ closed tr'"
  by (simp add: closed_def)

lemma closed_Nil [simp]: "closed [] = []"
  by (simp add: closed_def)

lemma closed_Cons [simp]: "closed (e # tr) = closed_by e @ closed tr"
  by (simp add: closed_def)

lemma closed_map_SysClose [simp]: "closed (map SysClose fds) = fds"
  by (induction fds) auto

lemma closed_drop_fds [simp]: "closed (drop_fds fds tr) = closed tr @ fds"
  by (simp add: drop_fds_def)

lemma drop_fds_Nil [simp]: "drop_fds [] tr = tr"
  by (simp add: drop_fds_def)

text \<open>The messages this process handed to the kernel: payload, control bytes, bytes accepted.\<close>

definition control_bytes :: "send_hdr \<Rightarrow> byte list" where
  "control_bytes h = (case s_control h of None \<Rightarrow> [] | Some b \<Rightarrow> take (s_controllen h) b)"

fun sent_by :: "syscall \<Rightarrow> (byte list \<times> byte list) list" where
  "sent_by (SysSendmsg fd h fl (Inr n)) = [(take n (concat (s_iov h)), control_bytes h)]"
| "sent_by _ = []"

definition sent :: "trace \<Rightarrow> (byte list \<times> byte list) list" where
  "sent tr = concat (map sent_by tr)"

lemma sent_append [simp]: "sent (tr @ tr') = sent tr @ sent tr'"
  by (simp add: sent_def)

lemma sent_Nil [simp]: "sent [] = []"
  by (simp add: sent_def)

lemma sent_Cons [simp]: "sent (e # tr) = sent_by e @ sent tr"
  by (simp add: sent_def)

section \<open>Contracts of the kernel\<close>

text \<open>
  Documented behaviour of \<^verbatim>\<open>recvmsg\<close>: the \<^verbatim>\<open>msg_controllen\<close> it reports is the number of
  control bytes it filled, at most the room it was given, and its return value is the number
  of payload bytes it copied, at most the room in the buffers.
\<close>

definition recv_contract :: "kernel \<Rightarrow> bool" where
  "recv_contract K \<longleftrightarrow> (\<forall>tr fd h fl r. sys_recvmsg K tr fd h fl = Inr r \<longrightarrow>
     rr_controllen r = length (rr_control r) \<and> rr_controllen r \<le> r_controllen h
     \<and> rr_ret r = length (rr_data r) \<and> length (rr_data r) \<le> length (concat (r_iov h)))"

text \<open>Documented behaviour of \<^verbatim>\<open>sendmsg\<close>: it accepts at most the bytes it was given.\<close>

definition send_contract :: "kernel \<Rightarrow> bool" where
  "send_contract K \<longleftrightarrow> (\<forall>tr fd h fl n. sys_sendmsg K tr fd h fl = Inr n \<longrightarrow>
     n \<le> length (concat (s_iov h)))"

lemma recv_contractD:
  "recv_contract K \<Longrightarrow> sys_recvmsg K tr fd h fl = Inr r \<Longrightarrow>
     rr_controllen r = length (rr_control r) \<and> rr_controllen r \<le> r_controllen h
     \<and> rr_ret r = length (rr_data r) \<and> length (rr_data r) \<le> length (concat (r_iov h))"
  unfolding recv_contract_def by blast

lemma send_contractD:
  "send_contract K \<Longrightarrow> sys_sendmsg K tr fd h fl = Inr n \<Longrightarrow> n \<le> length (concat (s_iov h))"
  unfolding send_contract_def by blast

section \<open>The effect of a receive on memory\<close>

text \<open>The messages that receives took, in order.\<close>

fun reply_of :: "syscall \<Rightarrow> recv_reply list" where
  "reply_of (SysRecvmsg fd h fl (Inr r)) = [r]"
| "reply_of _ = []"

definition replies :: "trace \<Rightarrow> recv_reply list" where
  "replies tr = concat (map reply_of tr)"

lemma replies_simps [simp]:
  "replies [] = []"
  "replies (e # tr) = reply_of e @ replies tr"
  "replies (tr @ tr') = replies tr @ replies tr'"
  by (simp_all add: replies_def)

lemma replies_silent [simp]:
  "replies (map SysClose fds) = []"
  "replies (replicate n (SysRecvmsg fd h fl (Inl e))) = []"
  by (induction fds, simp_all) (induction n, simp_all)

text \<open>The payload fills the buffers in order; the control bytes land at the start of the storage.\<close>

definition overwrite :: "'a list \<Rightarrow> 'a list \<Rightarrow> 'a list" where
  "overwrite buf d = take (length buf) d @ drop (length d) buf"

fun scatter :: "'a list list \<Rightarrow> 'a list \<Rightarrow> 'a list list" where
  "scatter [] d = []"
| "scatter (b # bs) d = overwrite b d # scatter bs (drop (length b) d)"

lemma length_overwrite [simp]: "length (overwrite buf d) = length buf"
  by (simp add: overwrite_def)

lemma take_overwrite:
  "n \<le> length d \<Longrightarrow> n \<le> length buf \<Longrightarrow> take n (overwrite buf d) = take n d"
  by (simp add: overwrite_def)

lemma map_length_scatter [simp]: "map length (scatter bs d) = map length bs"
  by (induction bs arbitrary: d) auto

lemma concat_scatter: "concat (scatter bs d) = overwrite (concat bs) d"
proof (induction bs arbitrary: d)
  case Nil
  then show ?case by (simp add: overwrite_def)
next
  case (Cons b bs)
  then show ?case
    by (cases "length d \<le> length b") (auto simp: overwrite_def take_add)
qed

end
