(* ===== verification/Credentials.thy ===== *)
theory Credentials
  imports Kernel
begin

text \<open>
  \<^verbatim>\<open>src/credentials.rs\<close>: the credentials value, its conversions to and from \<^verbatim>\<open>ucred\<close>, the byte
  layout of \<^verbatim>\<open>ucred\<close> (three consecutive 32-bit integers without padding, as
  \<^verbatim>\<open>add_credentials\<close> states) and the \<^verbatim>\<open>SO_PASSCRED\<close> socket option. The layout is an instance
  of \<open>fixed_codec\<close>.
\<close>

record scm_credentials =
  cred_pid :: i32
  cred_uid :: u32
  cred_gid :: u32

record ucred =
  u_pid :: i32
  u_uid :: u32
  u_gid :: u32

definition for_this_process :: "kernel \<Rightarrow> trace \<Rightarrow> scm_credentials" where
  "for_this_process K tr =
     \<lparr> cred_pid = sys_getpid K tr, cred_uid = sys_getuid K tr, cred_gid = sys_getgid K tr \<rparr>"

definition new_credentials :: "i32 \<Rightarrow> u32 \<Rightarrow> u32 \<Rightarrow> scm_credentials" where
  "new_credentials p u g = \<lparr> cred_pid = p, cred_uid = u, cred_gid = g \<rparr>"

definition from_ucred :: "ucred \<Rightarrow> scm_credentials" where
  "from_ucred c = \<lparr> cred_pid = u_pid c, cred_uid = u_uid c, cred_gid = u_gid c \<rparr>"

definition to_ucred :: "scm_credentials \<Rightarrow> ucred" where
  "to_ucred c = \<lparr> u_pid = cred_pid c, u_uid = cred_uid c, u_gid = cred_gid c \<rparr>"

definition ucred_SIZE :: nat where
  "ucred_SIZE = 12"

definition ucred_bytes :: "bool \<Rightarrow> ucred \<Rightarrow> byte list" where
  "ucred_bytes be c =
     to_ne_bytes be (u_pid c) @ to_ne_bytes be (u_uid c) @ to_ne_bytes be (u_gid c)"

definition read_ucred :: "bool \<Rightarrow> byte list \<Rightarrow> ucred" where
  "read_ucred be bs =
     \<lparr> u_pid = from_ne_bytes be (sub bs 0 4), u_uid = from_ne_bytes be (sub bs 4 4),
       u_gid = from_ne_bytes be (sub bs 8 4) \<rparr>"

lemma from_to_ucred [simp]: "from_ucred (to_ucred c) = c"
  by (simp add: from_ucred_def to_ucred_def)

lemma length_ucred_bytes [simp]: "length (ucred_bytes be c) = ucred_SIZE"
  by (simp add: ucred_bytes_def ucred_SIZE_def)

lemma read_ucred_bytes: "read_ucred be (ucred_bytes be c @ rest) = c"
  by (simp add: read_ucred_def ucred_bytes_def sub_def)

interpretation ucred_codec: fixed_codec "ucred_bytes be" "read_ucred be" ucred_SIZE for be
  by unfold_locales
    (use read_ucred_bytes [of be _ "[]"] in \<open>simp_all add: ucred_SIZE_def\<close>)

section \<open>The SO_PASSCRED option\<close>

definition set_passcred ::
  "libc \<Rightarrow> kernel \<Rightarrow> raw_fd \<Rightarrow> bool \<Rightarrow> trace \<Rightarrow> (io_error, unit) result \<times> trace" where
  "set_passcred L K sock on tr =
     (let value = (if on then 1 else 0);
          (rc, tr1) = setsockopt K sock (SOL_SOCKET L) (SO_PASSCRED L) value tr
      in case rc of Inl e \<Rightarrow> (Err (Os e), tr1) | Inr _ \<Rightarrow> (Ok (), tr1))"

definition passcred ::
  "libc \<Rightarrow> kernel \<Rightarrow> raw_fd \<Rightarrow> trace \<Rightarrow> (io_error, bool) result \<times> trace" where
  "passcred L K sock tr =
     (let (rc, tr1) = getsockopt K sock (SOL_SOCKET L) (SO_PASSCRED L) tr
      in case rc of Inl e \<Rightarrow> (Err (Os e), tr1) | Inr value \<Rightarrow> (Ok (value \<noteq> 0), tr1))"

end
