(* ===== verification/Ancillary.thy ===== *)
theory Ancillary
  imports Credentials
begin

text \<open>
  \<^verbatim>\<open>src/ancillary.rs\<close>: the control-message parser (\<open>raw_next\<close>, the \<^verbatim>\<open>RawMessages\<close> iterator),
  ownership of received descriptors (\<open>take_received_into\<close>, \<open>take_fds\<close>), the builder and
  storage \<open>socket_ancillary\<close>, and the draining iterators. Every \<^verbatim>\<open>for\<close> loop over \<^verbatim>\<open>RawMessages\<close>
  is \<open>for_messages\<close> with the loop's body as a state transformer; an out-of-range slice or raw
  read is a \<open>Panic\<close>, a loop that does not end is \<open>None\<close>.
\<close>

datatype ancillary_error = AncillaryError

datatype ancillary_data =
    ScmRights "raw_fd list"
  | CredentialsData scm_credentials

text \<open>\<^verbatim>\<open>ScmRights\<close> as an iterator: the descriptors not yet yielded.\<close>

fun scm_rights_next :: "raw_fd list \<Rightarrow> raw_fd option \<times> raw_fd list" where
  "scm_rights_next [] = (None, [])"
| "scm_rights_next (fd # fds) = (Some fd, fds)"

definition scm_rights_size_hint :: "raw_fd list \<Rightarrow> usize \<times> usize option" where
  "scm_rights_size_hint fds = (length fds, Some (length fds))"

datatype received_message =
    Rights "raw_fd list"
  | Credentials scm_credentials

fun msg_fds :: "received_message \<Rightarrow> raw_fd list" where
  "msg_fds (Rights fds) = fds"
| "msg_fds (Credentials c) = []"

definition owned_fds :: "received_message list \<Rightarrow> raw_fd list" where
  "owned_fds ms = concat (map msg_fds ms)"

lemma owned_fds_simps [simp]:
  "owned_fds [] = []"
  "owned_fds (m # ms) = msg_fds m @ owned_fds ms"
  "owned_fds (ms @ ms') = owned_fds ms @ owned_fds ms'"
  by (simp_all add: owned_fds_def)

text \<open>\<^verbatim>\<open>Messages\<close> as an iterator: the messages not yet yielded.\<close>

fun messages_next :: "received_message list \<Rightarrow> ancillary_data option \<times> received_message list" where
  "messages_next [] = (None, [])"
| "messages_next (Rights fds # ms) = (Some (ScmRights fds), ms)"
| "messages_next (Credentials creds # ms) = (Some (CredentialsData creds), ms)"

section \<open>Sizes and control storage\<close>

definition header_len :: "libc \<Rightarrow> usize" where
  "header_len L = unat (CMSG_LEN L 0)"

definition cmsg_space :: "libc \<Rightarrow> usize \<Rightarrow> usize option" where
  "cmsg_space L payload_len = do {
     n \<leftarrow> (if payload_len < 2 ^ 32 then Some (word_of_nat payload_len :: u32) else None);
     n \<leftarrow> (if unat n \<le> 2 ^ 31 - 1 then Some n else None);
     Some (unat (CMSG_SPACE L n)) }"

definition STACK_CONTROL :: usize where
  "STACK_CONTROL = 4096"

text \<open>
  \<^verbatim>\<open>with_control\<close> runs \<open>f\<close> on \<open>size\<close> zeroed bytes, from the heap above
  \<open>STACK_CONTROL\<close>. The stack array is uninitialised (\<open>stack\<close>) and only the bytes of the
  slice are zeroed.
\<close>

definition with_control_on :: "byte list \<Rightarrow> usize \<Rightarrow> (byte list \<Rightarrow> 'r) \<Rightarrow> 'r" where
  "with_control_on stack sz f =
     (if STACK_CONTROL < sz then f (replicate sz 0)
      else f (take sz (patch stack 0 (replicate sz 0))))"

definition with_control :: "usize \<Rightarrow> (byte list \<Rightarrow> 'r) \<Rightarrow> 'r" where
  "with_control sz f = with_control_on (replicate STACK_CONTROL 0xAA) sz f"

section \<open>The byte parser\<close>

record raw_message =
  m_level :: i32
  m_kind :: i32
  m_data :: "byte list"

definition rights :: "libc \<Rightarrow> raw_message \<Rightarrow> raw_fd list" where
  "rights L m = filter (\<lambda>fd. 0 \<le> sint fd)
     (map (from_ne_bytes (big_endian L)) (chunks_exact 4 (m_data m)))"

definition credentials :: "libc \<Rightarrow> raw_message \<Rightarrow> ('e, scm_credentials option) result" where
  "credentials L m =
     (if m_level m \<noteq> SOL_SOCKET L \<or> m_kind m \<noteq> SCM_CREDENTIALS L
         \<or> length (m_data m) < ucred_SIZE
      then Ok None
      else and_then (read_raw (m_data m) ucred_SIZE) (\<lambda>cred.
        Ok (Some (from_ucred (read_ucred (big_endian L) cred)))))"

text \<open>The fields of a header, which is read whole.\<close>

definition read_len :: "libc \<Rightarrow> byte list \<Rightarrow> usize" where
  "read_len L bytes =
     ne_nat (big_endian L) (sub bytes (len_off L) (len_size L)) mod 2 ^ usize_bits L"

definition read_level :: "libc \<Rightarrow> byte list \<Rightarrow> i32" where
  "read_level L bytes = from_ne_bytes (big_endian L) (sub bytes (level_off L) 4)"

definition read_kind :: "libc \<Rightarrow> byte list \<Rightarrow> i32" where
  "read_kind L bytes = from_ne_bytes (big_endian L) (sub bytes (type_off L) 4)"

text \<open>One call of the iterator: the message, if any, and the bytes that remain.\<close>

definition raw_next :: "libc \<Rightarrow> byte list \<Rightarrow> ('e, raw_message option \<times> byte list) result" where
  "raw_next L bytes =
     (if length bytes < cmsghdr_size L then Ok (None, [])
      else and_then (read_raw bytes (cmsghdr_size L)) (\<lambda>header.
        let total = read_len L header; cut = min total (length bytes) in
        if cut < header_len L then Ok (None, [])
        else and_then (slice bytes (header_len L) cut) (\<lambda>data.
          and_then
            (case cmsg_space L (length data) of
               None \<Rightarrow> Ok []
             | Some next \<Rightarrow>
                 if next \<le> length bytes then slice bytes next (length bytes) else Ok [])
            (\<lambda>remaining.
              Ok (Some \<lparr> m_level = read_level L header, m_kind = read_kind L header,
                         m_data = data \<rparr>, remaining)))))"

text \<open>A loop over the messages; its body may end it with an error or a panic.\<close>

partial_function (option) for_messages ::
  "libc \<Rightarrow> (raw_message \<Rightarrow> 's \<Rightarrow> ('e, unit) result \<times> 's) \<Rightarrow> byte list \<Rightarrow> 's
     \<Rightarrow> (('e, unit) result \<times> 's) option" where
  "for_messages L body bytes s =
     (case raw_next L bytes of
        Ok (next, remaining) \<Rightarrow>
          (case next of
             None \<Rightarrow> Some (Ok (), s)
           | Some m \<Rightarrow>
               (case body m s of
                  (Ok _, s) \<Rightarrow> for_messages L body remaining s
                | (Err e, s) \<Rightarrow> Some (Err e, s)
                | (Panic, s) \<Rightarrow> Some (Panic, s)))
      | Err e \<Rightarrow> Some (Err e, s)
      | Panic \<Rightarrow> Some (Panic, s))"

section \<open>Ownership of received descriptors\<close>

definition SCM_PIDFD :: i32 where
  "SCM_PIDFD = 4"

definition close_pidfd :: "libc \<Rightarrow> raw_message \<Rightarrow> trace \<Rightarrow> trace" where
  "close_pidfd L m tr =
     (if m_level m = SOL_SOCKET L \<and> m_kind m = SCM_PIDFD then drop_fds (rights L m) tr else tr)"

definition is_rights :: "libc \<Rightarrow> raw_message \<Rightarrow> bool" where
  "is_rights L m \<longleftrightarrow> m_level m = SOL_SOCKET L \<and> m_kind m = SCM_RIGHTS L"

definition take_message ::
  "libc \<Rightarrow> raw_message \<Rightarrow> received_message list \<times> trace
     \<Rightarrow> ('e, unit) result \<times> received_message list \<times> trace" where
  "take_message L m s =
     (let (messages, tr) = s;
          tr = (if cfg_linux L then close_pidfd L m tr else tr);
          messages = (if is_rights L m then messages @ [Rights (rights L m)] else messages)
      in if cfg_linux L
         then (case credentials L m of
             Ok (Some creds) \<Rightarrow> (Ok (), messages @ [Credentials creds], tr)
           | Ok None \<Rightarrow> (Ok (), messages, tr)
           | Err e \<Rightarrow> (Err e, messages, tr)
           | Panic \<Rightarrow> (Panic, messages, tr))
         else (Ok (), messages, tr))"

definition take_received_into ::
  "libc \<Rightarrow> byte list \<Rightarrow> received_message list \<Rightarrow> trace
     \<Rightarrow> (('e, unit) result \<times> received_message list \<times> trace) option" where
  "take_received_into L buffer messages tr = for_messages L (take_message L) buffer (messages, tr)"

definition take_fds_count :: "libc \<Rightarrow> byte list \<Rightarrow> (('e, unit) result \<times> usize) option" where
  "take_fds_count L buffer =
     for_messages L (\<lambda>m n. (Ok (), if is_rights L m then n + length (rights L m) else n)) buffer 0"

definition take_fds_message ::
  "libc \<Rightarrow> raw_message \<Rightarrow> raw_fd list \<times> trace \<Rightarrow> ('e, unit) result \<times> raw_fd list \<times> trace" where
  "take_fds_message L m s =
     (let (fds, tr) = s;
          tr = (if cfg_linux L then close_pidfd L m tr else tr);
          fds = (if is_rights L m then fds @ rights L m else fds)
      in (Ok (), fds, tr))"

text \<open>
  The first pass only sizes the vector. A panic in the second one would unwind through
  \<open>fds\<close> and close what it holds.
\<close>

definition take_fds :: "libc \<Rightarrow> byte list \<Rightarrow> trace \<Rightarrow> (('e, raw_fd list) result \<times> trace) option" where
  "take_fds L buffer tr = do {
     (counted, capacity) \<leftarrow> take_fds_count L buffer;
     (case counted of
        Ok _ \<Rightarrow> do {
          (r, fds, tr) \<leftarrow> for_messages L (take_fds_message L) buffer ([], tr);
          Some (case r of
              Ok _ \<Rightarrow> (Ok fds, tr)
            | Err e \<Rightarrow> (Err e, drop_fds fds tr)
            | Panic \<Rightarrow> (Panic, drop_fds fds tr)) }
      | Err e \<Rightarrow> Some (Err e, tr)
      | Panic \<Rightarrow> Some (Panic, tr)) }"

section \<open>Storage for sending and receiving\<close>

record socket_ancillary =
  buffer :: "byte list"
  anc_length :: usize
  truncated :: bool
  received :: "received_message list"
  receive_mode :: bool

definition new_ancillary :: "byte list \<Rightarrow> socket_ancillary" where
  "new_ancillary buf = \<lparr> buffer = buf, anc_length = 0, truncated = False, received = [],
     receive_mode = False \<rparr>"

definition buffer_size_for_rights :: "libc \<Rightarrow> usize \<Rightarrow> ('e, usize) result" where
  "buffer_size_for_rights L num_fds =
     expect (Option.bind (checked_mul (usize_bits L) num_fds 4) (cmsg_space L))"

definition buffer_size_for_credentials :: "libc \<Rightarrow> ('e, usize) result" where
  "buffer_size_for_credentials L = expect (cmsg_space L ucred_SIZE)"

definition write_header :: "libc \<Rightarrow> i32 \<Rightarrow> i32 \<Rightarrow> nat \<Rightarrow> byte list \<Rightarrow> byte list" where
  "write_header L level kind cmsg_len bytes =
     patch (patch (patch bytes (level_off L) (to_ne_bytes (big_endian L) level))
       (type_off L) (to_ne_bytes (big_endian L) kind))
       (len_off L) (ne_bytes (big_endian L) (len_size L) cmsg_len)"

text \<open>
  The payload slice \<^verbatim>\<open>reserve_cmsg\<close> returns is given by its bounds in the buffer, and the
  caller writes there.
\<close>

definition reserve_cmsg ::
  "libc \<Rightarrow> i32 \<Rightarrow> i32 \<Rightarrow> usize \<Rightarrow> socket_ancillary
     \<Rightarrow> (ancillary_error, usize \<times> usize) result \<times> socket_ancillary" where
  "reserve_cmsg L level kind payload_len self =
     (if receive_mode self then (Err AncillaryError, self)
      else case cmsg_space L payload_len of None \<Rightarrow> (Err AncillaryError, self)
      | Some space \<Rightarrow>
        (case checked_add (usize_bits L) (anc_length self) space of
           None \<Rightarrow> (Err AncillaryError, self)
         | Some end' \<Rightarrow>
           if length (buffer self) < end' then (Err AncillaryError, self)
           else case checked_add (usize_bits L) (header_len L) payload_len of
             None \<Rightarrow> (Err AncillaryError, self)
           | Some len \<Rightarrow>
             if \<not> len < 256 ^ len_size L then (Err AncillaryError, self)
             else
               let start = anc_length self; self = self\<lparr>anc_length := end'\<rparr> in
               (case slice (buffer self) start end' of
                  Panic \<Rightarrow> (Panic, self)
                | Err e \<Rightarrow> (Err e, self)
                | Ok bytes \<Rightarrow>
                  let bytes = write_header L level kind len (replicate (length bytes) 0);
                      self = self\<lparr>buffer := patch (buffer self) start bytes\<rparr>
                  in if header_len L \<le> len \<and> len \<le> length bytes
                     then (Ok (start + header_len L, start + len), self)
                     else (Panic, self))))"

definition add_credentials ::
  "libc \<Rightarrow> scm_credentials \<Rightarrow> socket_ancillary
     \<Rightarrow> (ancillary_error, unit) result \<times> socket_ancillary" where
  "add_credentials L creds self =
     (let bytes = ucred_bytes (big_endian L) (to_ucred creds) in
      case reserve_cmsg L (SOL_SOCKET L) (SCM_CREDENTIALS L) (length bytes) self of
        (Ok (i, j), self) \<Rightarrow>
          if j - i = length bytes then (Ok (), self\<lparr>buffer := patch (buffer self) i bytes\<rparr>)
          else (Panic, self)
      | (Err e, self) \<Rightarrow> (Err e, self)
      | (Panic, self) \<Rightarrow> (Panic, self))"

text \<open>Fill the whole four-byte chunks of the bytes from \<open>i\<close> to \<open>j\<close> with descriptors.\<close>

fun fill_fds :: "bool \<Rightarrow> byte list \<Rightarrow> nat \<Rightarrow> nat \<Rightarrow> raw_fd list \<Rightarrow> byte list" where
  "fill_fds be buf i j [] = buf"
| "fill_fds be buf i j (fd # fds) =
     (if i + 4 \<le> j then fill_fds be (patch buf i (to_ne_bytes be fd)) (i + 4) j fds else buf)"

definition add_rights ::
  "libc \<Rightarrow> raw_fd list \<Rightarrow> socket_ancillary
     \<Rightarrow> (ancillary_error, unit) result \<times> socket_ancillary" where
  "add_rights L fds self =
     (if receive_mode self then (Err AncillaryError, self)
      else if length fds = 0 then (Ok (), self)
      else case checked_mul (usize_bits L) (length fds) 4 of
        None \<Rightarrow> (Err AncillaryError, self)
      | Some len \<Rightarrow>
        (case reserve_cmsg L (SOL_SOCKET L) (SCM_RIGHTS L) len self of
           (Ok (i, j), self) \<Rightarrow>
             (Ok (), self\<lparr>buffer := fill_fds (big_endian L) (buffer self) i j fds\<rparr>)
         | (Err e, self) \<Rightarrow> (Err e, self)
         | (Panic, self) \<Rightarrow> (Panic, self)))"

definition add_fds ::
  "libc \<Rightarrow> raw_fd list \<Rightarrow> socket_ancillary
     \<Rightarrow> (ancillary_error, unit) result \<times> socket_ancillary" where
  "add_fds L fds self = add_rights L fds self"

definition messages :: "socket_ancillary \<Rightarrow> received_message list \<times> socket_ancillary" where
  "messages self = (received self, self\<lparr>received := []\<rparr>)"

definition drop_messages :: "received_message list \<Rightarrow> trace \<Rightarrow> trace" where
  "drop_messages ms tr = drop_fds (owned_fds ms) tr"

definition is_truncated :: "socket_ancillary \<Rightarrow> bool" where
  "is_truncated self = truncated self"

definition clear :: "socket_ancillary \<Rightarrow> trace \<Rightarrow> socket_ancillary \<times> trace" where
  "clear self tr =
     (self\<lparr>received := [], anc_length := 0, truncated := False, receive_mode := False\<rparr>,
      drop_messages (received self) tr)"

definition drop_ancillary :: "socket_ancillary \<Rightarrow> trace \<Rightarrow> trace" where
  "drop_ancillary self tr = drop_messages (received self) tr"

text \<open>
  Counting the descriptors of a message converts each chunk of it, and a chunk that is not four bytes
  long is a panic; what is counted and read there is only handed to \<^verbatim>\<open>black_box\<close>.
\<close>

definition rights_count :: "libc \<Rightarrow> raw_message \<Rightarrow> ('e, usize) result" where
  "rights_count L m =
     (if list_all (\<lambda>b. length b = 4) (chunks_exact 4 (m_data m)) then Ok (length (rights L m)) else Panic)"

definition fuzz_message :: "libc \<Rightarrow> raw_message \<Rightarrow> usize \<Rightarrow> ('e, unit) result \<times> usize" where
  "fuzz_message L m n =
     (case (if is_rights L m then rights_count L m else Ok 0) of
        Ok _ \<Rightarrow>
          (case (if cfg_linux L then credentials L m else Ok None) of
             Ok _ \<Rightarrow> (Ok (), n + 1)
           | Err e \<Rightarrow> (Err e, n)
           | Panic \<Rightarrow> (Panic, n))
      | Err e \<Rightarrow> (Err e, n)
      | Panic \<Rightarrow> (Panic, n))"

definition fuzz_parse :: "libc \<Rightarrow> byte list \<Rightarrow> (('e, unit) result \<times> usize) option" where
  "fuzz_parse L buf = for_messages L (fuzz_message L) buf 0"

text \<open>
  The fuzz target \<^verbatim>\<open>fuzz/fuzz_targets/parse_cmsg.rs\<close>: the parser on every suffix of the input that
  starts within one machine word, so that every alignment occurs.
\<close>

fun fuzz_offsets :: "libc \<Rightarrow> byte list \<Rightarrow> usize list \<Rightarrow> ('e, unit) result option" where
  "fuzz_offsets L data [] = Some (Ok ())"
| "fuzz_offsets L data (offset # offsets) =
     (case slice data offset (length data) of
        Err e \<Rightarrow> Some (Err e)
      | Panic \<Rightarrow> Some Panic
      | Ok bytes \<Rightarrow> do {
          (ret, _) \<leftarrow> fuzz_parse L bytes;
          (case ret of
             Err e \<Rightarrow> Some (Err e)
           | Panic \<Rightarrow> Some Panic
           | Ok _ \<Rightarrow> fuzz_offsets L data offsets) })"

definition fuzz_target :: "libc \<Rightarrow> byte list \<Rightarrow> ('e, unit) result option" where
  "fuzz_target L data = fuzz_offsets L data [0..<Suc (min (length data) (usize_bits L div 8))]"

end
