(* ===== verification/Wire.thy ===== *)
theory Wire
  imports Ancillary
begin

text \<open>
  The control-message wire format. \<open>raw_step\<close> and \<open>messages_in\<close> are the total reference
  parser: on any bytes the iterator of \<^verbatim>\<open>RawMessages\<close> computes exactly them, so it neither
  panics nor loops. \<open>is_cmsg\<close>, \<open>is_cut_cmsg\<close> and \<open>wire\<close> describe buffers as a kernel
  lays them out, truncated ones included, and \<open>encode_cmsg\<close> is the layout the builder
  writes; parsing inverts all of them.
\<close>

section \<open>Sizes\<close>

lemma cmsg_space_eq:
  "cmsg_space L n =
     (if n \<le> max_payload then Some (unat (CMSG_SPACE L (word_of_nat n))) else None)"
  by (auto simp: cmsg_space_def max_payload_def unat_u32 Option.bind_eq_Some_conv
      Option.bind_eq_None_conv)

context libc_abi begin

lemma cmsg_space_bounds:
  assumes "cmsg_space L n = Some s"
  shows "header_len L + n \<le> s" "n \<le> max_payload" "s < 2 ^ 32"
proof -
  from assms have n: "n \<le> max_payload" and s: "s = unat (CMSG_SPACE L (word_of_nat n))"
    by (auto simp: cmsg_space_eq split: if_splits)
  have u: "unat (word_of_nat n :: u32) = n"
    by (rule unat_u32) (use n in \<open>simp add: max_payload_def\<close>)
  show "n \<le> max_payload" by (rule n)
  show "header_len L + n \<le> s"
    using space_covers [of "word_of_nat n"] n u s by (simp add: header_len_def)
  show "s < 2 ^ 32" using s unsigned_less [of "CMSG_SPACE L (word_of_nat n)"] by simp
qed

lemma header_len_pos: "0 < header_len L"
  using header_pos by (simp add: header_len_def)

lemma cmsghdr_le_header: "cmsghdr_size L \<le> header_len L"
  using header_fits by (simp add: header_len_def)

lemma cmsg_space_pos: "cmsg_space L n = Some s \<Longrightarrow> 0 < s"
  using cmsg_space_bounds(1) [of n s] header_len_pos by linarith

end

section \<open>The reference parser\<close>

definition raw_step :: "libc \<Rightarrow> byte list \<Rightarrow> raw_message option \<times> byte list" where
  "raw_step L bytes =
     (let cut = min (read_len L bytes) (length bytes) in
      if length bytes < cmsghdr_size L \<or> cut < header_len L then (None, [])
      else let data = take (cut - header_len L) (drop (header_len L) bytes) in
        (Some \<lparr> m_level = read_level L bytes, m_kind = read_kind L bytes, m_data = data \<rparr>,
         (case cmsg_space L (length data) of None \<Rightarrow> [] | Some next \<Rightarrow> drop next bytes)))"

function messages_in :: "libc \<Rightarrow> byte list \<Rightarrow> raw_message list" where
  "messages_in L bytes =
     (case raw_step L bytes of
        (None, remaining) \<Rightarrow> []
      | (Some m, remaining) \<Rightarrow>
          m # (if length remaining < length bytes then messages_in L remaining else []))"
  by pat_completeness auto
termination
  by (relation "measure (\<lambda>(L, bytes). length bytes)") auto

declare messages_in.simps [simp del]

context libc_abi begin

text \<open>The fields lie inside the header, so no read leaves the buffer.\<close>

lemma read_header:
  "read_len L (take (cmsghdr_size L) bytes) = read_len L bytes"
  "read_level L (take (cmsghdr_size L) bytes) = read_level L bytes"
  "read_kind L (take (cmsghdr_size L) bytes) = read_kind L bytes"
  using len_inside level_inside type_inside
  by (simp_all add: read_len_def read_level_def read_kind_def sub_take)

lemma raw_next_step: "raw_next L bytes = Ok (raw_step L bytes)"
  by (auto simp: raw_next_def raw_step_def read_raw_def read_header Let_def slice_def split: option.splits)

lemma raw_step_shrinks:
  assumes "raw_step L bytes = (Some m, remaining)"
  shows "length remaining + header_len L \<le> length bytes"
proof -
  from assms have "header_len L \<le> length bytes"
    by (auto simp: raw_step_def Let_def split: if_splits)
  moreover have "length remaining = 0 \<or> (\<exists>n s. cmsg_space L n = Some s \<and> remaining = drop s bytes)"
    using assms by (auto simp: raw_step_def Let_def split: if_splits option.splits)
  ultimately show ?thesis
    using cmsg_space_bounds(1) by fastforce
qed

lemma messages_in_unfold:
  "messages_in L bytes =
     (case raw_step L bytes of
        (None, remaining) \<Rightarrow> [] | (Some m, remaining) \<Rightarrow> m # messages_in L remaining)"
proof (cases "raw_step L bytes")
  case (Pair nxt remaining)
  then show ?thesis
    using raw_step_shrinks [of bytes _ remaining] header_len_pos
    by (subst messages_in.simps) (fastforce split: option.splits)
qed

lemma messages_in_None: "raw_step L bytes = (None, remaining) \<Longrightarrow> messages_in L bytes = []"
  by (subst messages_in_unfold) simp

lemma messages_in_Some:
  "raw_step L bytes = (Some m, remaining) \<Longrightarrow> messages_in L bytes = m # messages_in L remaining"
  by (subst messages_in_unfold) simp

text \<open>Induction along the parser.\<close>

lemma messages_in_induct [case_names stop message]:
  assumes "\<And>bytes remaining. raw_step L bytes = (None, remaining) \<Longrightarrow> P bytes"
    and "\<And>bytes m remaining. raw_step L bytes = (Some m, remaining) \<Longrightarrow> P remaining \<Longrightarrow> P bytes"
  shows "P bytes"
proof (induction bytes rule: length_induct)
  case (1 bytes)
  obtain nxt remaining where r: "raw_step L bytes = (nxt, remaining)"
    by (cases "raw_step L bytes")
  show ?case
  proof (cases nxt)
    case None
    with r assms(1) show ?thesis by blast
  next
    case (Some m)
    with r have s: "raw_step L bytes = (Some m, remaining)" by simp
    then have "length remaining < length bytes"
      using raw_step_shrinks [OF s] header_len_pos by linarith
    with 1 s assms(2) show ?thesis by blast
  qed
qed

text \<open>The loop over \<^verbatim>\<open>RawMessages\<close> is a fold over the reference parser's list.\<close>

lemma for_messages_fold:
  assumes body: "\<And>m s. body m s = (Ok (), f m s)"
  shows "for_messages L body bytes s = Some (Ok (), fold f (messages_in L bytes) s)"
proof (induction bytes arbitrary: s rule: messages_in_induct)
  case (stop bytes remaining)
  then show ?case
    by (subst for_messages.simps) (simp add: raw_next_step messages_in_None)
next
  case (message bytes m remaining)
  then show ?case
    by (subst for_messages.simps) (simp add: raw_next_step messages_in_Some body [of m s])
qed

lemma messages_in_bound: "length (messages_in L bytes) * header_len L \<le> length bytes"
proof (induction bytes rule: messages_in_induct)
  case (stop bytes remaining)
  then show ?case by (simp add: messages_in_None)
next
  case (message bytes m remaining)
  then show ?case using raw_step_shrinks [of bytes m remaining] by (simp add: messages_in_Some)
qed

end

text \<open>The credentials in a message; reading them never leaves its payload.\<close>

definition credentials_of :: "libc \<Rightarrow> raw_message \<Rightarrow> scm_credentials option" where
  "credentials_of L m =
     (if m_level m = SOL_SOCKET L \<and> m_kind m = SCM_CREDENTIALS L \<and> ucred_SIZE \<le> length (m_data m)
      then Some (from_ucred (read_ucred (big_endian L) (m_data m))) else None)"

lemma credentials_eq: "credentials L m = Ok (credentials_of L m)"
proof -
  have "read_ucred be (take ucred_SIZE bs) = read_ucred be bs" for be bs
    by (simp add: read_ucred_def ucred_SIZE_def sub_take)
  then show ?thesis by (simp add: credentials_def credentials_of_def read_raw_def not_less)
qed

section \<open>Buffers as a kernel lays them out\<close>

text \<open>A complete message with its padding.\<close>

definition is_cmsg :: "libc \<Rightarrow> raw_message \<Rightarrow> byte list \<Rightarrow> bool" where
  "is_cmsg L m b \<longleftrightarrow> cmsg_space L (length (m_data m)) = Some (length b)
     \<and> read_len L b = header_len L + length (m_data m)
     \<and> read_level L b = m_level m \<and> read_kind L b = m_kind m
     \<and> sub b (header_len L) (length (m_data m)) = m_data m"

text \<open>
  The last message of a buffer, which may lack padding (Linux) or payload bytes while its
  header still announces the full length (Darwin): \<open>m\<close> holds what arrived.
\<close>

definition is_cut_cmsg :: "libc \<Rightarrow> raw_message \<Rightarrow> byte list \<Rightarrow> bool" where
  "is_cut_cmsg L m b \<longleftrightarrow> header_len L \<le> min (read_len L b) (length b)
     \<and> read_level L b = m_level m \<and> read_kind L b = m_kind m
     \<and> m_data m = sub b (header_len L) (min (read_len L b) (length b) - header_len L)
     \<and> (\<forall>s. cmsg_space L (length (m_data m)) = Some s \<longrightarrow> length b \<le> s)"

inductive wire :: "libc \<Rightarrow> raw_message list \<Rightarrow> byte list \<Rightarrow> bool" for L where
  wire_end: "length b < cmsghdr_size L \<Longrightarrow> wire L [] b"
| wire_cut: "is_cut_cmsg L m b \<Longrightarrow> wire L [m] b"
| wire_msg: "is_cmsg L m b \<Longrightarrow> wire L ms bs \<Longrightarrow> wire L (m # ms) (b @ bs)"

inductive_cases wire_NilE: "wire L [] b"
inductive_cases wire_ConsE: "wire L (m # ms) b"

context libc_abi begin

lemma read_append:
  assumes "cmsghdr_size L \<le> length b"
  shows "read_len L (b @ bs) = read_len L b" "read_level L (b @ bs) = read_level L b"
    "read_kind L (b @ bs) = read_kind L b"
  using assms len_inside level_inside type_inside
  by (simp_all add: read_len_def read_level_def read_kind_def sub_append)

lemma raw_step_cmsg:
  assumes "is_cmsg L m b"
  shows "raw_step L (b @ bs) = (Some m, bs)"
proof -
  let ?n = "length (m_data m)"
  from assms have s: "cmsg_space L ?n = Some (length b)"
    and d: "sub b (header_len L) ?n = m_data m"
    by (simp_all add: is_cmsg_def)
  have len: "header_len L + ?n \<le> length b" using cmsg_space_bounds(1) [OF s] .
  then have hdr: "cmsghdr_size L \<le> length b" using cmsghdr_le_header by linarith
  have "take ?n (drop (header_len L) (b @ bs)) = m_data m"
    using d len by (simp add: sub_def)
  with assms hdr len s show ?thesis
    by (simp add: raw_step_def read_append is_cmsg_def Let_def min_def)
qed

lemma raw_step_cut:
  assumes "is_cut_cmsg L m b"
  shows "raw_step L b = (Some m, [])"
proof -
  let ?cut = "min (read_len L b) (length b)"
  have hdr: "header_len L \<le> ?cut" and lv: "read_level L b = m_level m" "read_kind L b = m_kind m"
    and d: "take (?cut - header_len L) (drop (header_len L) b) = m_data m"
    and last: "\<forall>s. cmsg_space L (length (m_data m)) = Some s \<longrightarrow> length b \<le> s"
    using assms unfolding is_cut_cmsg_def sub_def by metis+
  have "raw_step L b = (Some \<lparr> m_level = m_level m, m_kind = m_kind m, m_data = m_data m \<rparr>,
      (case cmsg_space L (length (m_data m)) of None \<Rightarrow> [] | Some next \<Rightarrow> drop next b))"
    using hdr cmsghdr_le_header unfolding raw_step_def Let_def d lv
    by (simp add: min_less_iff_disj not_less)
  also have "\<dots> = (Some m, [])"
    using last by (auto split: option.splits)
  finally show ?thesis .
qed

text \<open>Parsing a buffer in the wire format gives its messages.\<close>

lemma wire_parse: "wire L ms bs \<Longrightarrow> messages_in L bs = ms"
proof (induction rule: wire.induct)
  case (wire_end b)
  then have "raw_step L b = (None, [])" by (simp add: raw_step_def)
  then show ?case by (rule messages_in_None)
next
  case (wire_cut m b)
  have "raw_step L [] = (None, [])" using cmsghdr_pos by (simp add: raw_step_def)
  with messages_in_Some [OF raw_step_cut [OF wire_cut]] show ?case
    by (simp add: messages_in_None)
next
  case (wire_msg m b ms bs)
  then show ?case using messages_in_Some [OF raw_step_cmsg] by metis
qed

lemma wire_concat:
  "list_all2 (is_cmsg L) ms bs \<Longrightarrow> wire L ms (concat bs)"
proof (induction rule: list_all2_induct)
  case Nil
  then show ?case using wire_end [of "[]" L] cmsghdr_pos by simp
next
  case (Cons m ms b bs)
  then show ?case by (simp add: wire_msg)
qed

end

section \<open>The layout the builder writes\<close>

definition encode_cmsg :: "libc \<Rightarrow> raw_message \<Rightarrow> byte list" where
  "encode_cmsg L m =
     (let n = length (m_data m) in
      case cmsg_space L n of
        None \<Rightarrow> []
      | Some space \<Rightarrow>
          patch (write_header L (m_level m) (m_kind m) (header_len L + n) (replicate space 0))
            (header_len L) (m_data m))"

context libc_abi begin

lemma length_write_header:
  "cmsghdr_size L \<le> length b \<Longrightarrow> length (write_header L level k n b) = length b"
  using len_inside level_inside type_inside
  by (simp add: write_header_def byte_simps)

lemma read_write_header:
  assumes b: "cmsghdr_size L \<le> length b" and n: "n < 2 ^ 32"
  shows "read_len L (write_header L level k n b) = n"
    and "read_level L (write_header L level k n b) = level"
    and "read_kind L (write_header L level k n b) = k"
proof -
  have i: "level_off L + 4 \<le> length b" "type_off L + 4 \<le> length b"
    "len_off L + len_size L \<le> length b"
    using b len_inside level_inside type_inside by linarith+
  have n': "n < 256 ^ len_size L" "n < 2 ^ usize_bits L"
    using n len_field_lower usize_lower by linarith+
  show "read_len L (write_header L level k n b) = n"
    using i n' by (simp add: read_len_def write_header_def byte_simps ne_nat_ne_bytes)
  show "read_level L (write_header L level k n b) = level"
    using i len_level level_type
    by (auto simp: read_level_def write_header_def disjoint_fields_def byte_simps)
  show "read_kind L (write_header L level k n b) = k"
    using i len_type
    by (auto simp: read_kind_def write_header_def disjoint_fields_def byte_simps)
qed

lemma read_patch_payload:
  assumes "header_len L \<le> length b"
  shows "read_len L (patch b (header_len L) d) = read_len L b"
    "read_level L (patch b (header_len L) d) = read_level L b"
    "read_kind L (patch b (header_len L) d) = read_kind L b"
  using assms len_inside level_inside type_inside cmsghdr_le_header
  by (simp_all add: read_len_def read_level_def read_kind_def byte_simps)

lemma encode_is_cmsg:
  assumes "length (m_data m) \<le> max_payload"
  shows "is_cmsg L m (encode_cmsg L m)"
proof -
  let ?n = "length (m_data m)"
  obtain s where s: "cmsg_space L ?n = Some s"
    using assms by (simp add: cmsg_space_eq)
  note bounds = cmsg_space_bounds [OF s]
  have n: "header_len L + ?n < 2 ^ 32" using bounds by linarith
  let ?h = "write_header L (m_level m) (m_kind m) (header_len L + ?n) (replicate s 0)"
  have c: "cmsghdr_size L \<le> s" using bounds(1) cmsghdr_le_header by linarith
  then have l: "length ?h = s" by (simp add: length_write_header)
  have e: "encode_cmsg L m = patch ?h (header_len L) (m_data m)"
    by (simp add: encode_cmsg_def s)
  have "length (encode_cmsg L m) = s"
    using bounds(1) l by (simp add: e byte_simps)
  moreover have "sub (encode_cmsg L m) (header_len L) ?n = m_data m"
    using bounds(1) l by (simp add: e byte_simps)
  ultimately show ?thesis
    using bounds(1) c l n
    by (simp add: is_cmsg_def s e read_patch_payload read_write_header)
qed

lemma parse_encode:
  assumes "\<forall>m\<in>set ms. length (m_data m) \<le> max_payload"
  shows "messages_in L (concat (map (encode_cmsg L) ms)) = ms"
proof (rule wire_parse, rule wire_concat)
  show "list_all2 (is_cmsg L) ms (map (encode_cmsg L) ms)"
    using assms by (auto simp: list_all2_conv_all_nth encode_is_cmsg)
qed

end

end
