(* ===== verification/Ownership.thy ===== *)
theory Ownership
  imports Wire
begin

unbundle bit_operations_syntax

text \<open>
  Who owns a descriptor. The kernel delivers descriptors inside the control bytes of a
  receive; from then on each is owned by exactly one value of the program until it is closed.
  \<open>accounted\<close> is that balance over a stretch of the trace, \<open>owning_op\<close> the interface of an
  operation that keeps it, and the equations of \<open>take_fds\<close> and \<open>take_received_into\<close> say what
  they own and what they close.
\<close>

section \<open>What the ownership loops compute\<close>

definition is_pidfd :: "libc \<Rightarrow> raw_message \<Rightarrow> bool" where
  "is_pidfd L m \<longleftrightarrow> cfg_linux L \<and> m_level m = SOL_SOCKET L \<and> m_kind m = SCM_PIDFD"

definition rights_in :: "libc \<Rightarrow> raw_message list \<Rightarrow> raw_fd list" where
  "rights_in L ms = concat (map (rights L) (filter (is_rights L) ms))"

definition pidfds_in :: "libc \<Rightarrow> raw_message list \<Rightarrow> raw_fd list" where
  "pidfds_in L ms = concat (map (rights L) (filter (is_pidfd L) ms))"

definition received_of :: "libc \<Rightarrow> raw_message \<Rightarrow> received_message list" where
  "received_of L m = (if is_rights L m then [Rights (rights L m)] else [])
     @ (if cfg_linux L then (case credentials_of L m of Some c \<Rightarrow> [Credentials c] | None \<Rightarrow> []) else [])"

lemma rights_in_simps [simp]:
  "rights_in L [] = []"
  "rights_in L (m # ms) = (if is_rights L m then rights L m else []) @ rights_in L ms"
  by (simp_all add: rights_in_def)

lemma pidfds_in_simps [simp]:
  "pidfds_in L [] = []"
  "pidfds_in L (m # ms) = (if is_pidfd L m then rights L m else []) @ pidfds_in L ms"
  by (simp_all add: pidfds_in_def)

lemma drop_fds_drop_fds [simp]: "drop_fds ys (drop_fds xs tr) = drop_fds (xs @ ys) tr"
  by (simp add: drop_fds_def)

lemma take_fds_message_eq:
  "take_fds_message L m s =
     (Ok (), fst s @ (if is_rights L m then rights L m else []),
      drop_fds (if is_pidfd L m then rights L m else []) (snd s))"
  by (cases s) (simp add: take_fds_message_def close_pidfd_def is_pidfd_def)

lemma take_message_eq:
  "take_message L m s =
     (Ok (), fst s @ received_of L m, drop_fds (if is_pidfd L m then rights L m else []) (snd s))"
  by (cases s) (simp add: take_message_def close_pidfd_def is_pidfd_def received_of_def credentials_eq
      split: option.split)

lemma fold_take_fds:
  "fold (\<lambda>m s. (fst s @ (if is_rights L m then rights L m else []),
       drop_fds (if is_pidfd L m then rights L m else []) (snd s))) ms (fds, tr)
     = (fds @ rights_in L ms, drop_fds (pidfds_in L ms) tr)"
  by (induction ms arbitrary: fds tr) simp_all

lemma fold_take_message:
  "fold (\<lambda>m s. (fst s @ received_of L m, drop_fds (if is_pidfd L m then rights L m else []) (snd s))) ms (rs, tr)
     = (rs @ concat (map (received_of L) ms), drop_fds (pidfds_in L ms) tr)"
  by (induction ms arbitrary: rs tr) simp_all

lemma fold_count:
  "fold (\<lambda>m n. if is_rights L m then n + length (rights L m) else n) ms n
     = n + length (rights_in L ms)"
  by (induction ms arbitrary: n) auto

lemma owned_received_of [simp]:
  "owned_fds (received_of L m) = (if is_rights L m then rights L m else [])"
  by (simp add: received_of_def split: option.split)

lemma owned_received_list [simp]:
  "owned_fds (concat (map (received_of L) ms)) = rights_in L ms"
  by (induction ms) auto

context libc_abi begin

lemma take_fds_eq:
  "take_fds L bytes tr =
     Some (Ok (rights_in L (messages_in L bytes)), drop_fds (pidfds_in L (messages_in L bytes)) tr)"
  by (simp add: take_fds_def take_fds_count_def for_messages_fold [OF refl]
      for_messages_fold [OF take_fds_message_eq] fold_take_fds)

lemma take_fds_count_eq:
  "take_fds_count L bytes = Some (Ok (), length (rights_in L (messages_in L bytes)))"
  by (simp add: take_fds_count_def for_messages_fold [OF refl] fold_count)

lemma take_received_into_eq:
  "take_received_into L bytes rs tr =
     Some (Ok (), rs @ concat (map (received_of L) (messages_in L bytes)),
       drop_fds (pidfds_in L (messages_in L bytes)) tr)"
  by (simp add: take_received_into_def for_messages_fold [OF take_message_eq] fold_take_message)

end

section \<open>The balance of owned descriptors\<close>

text \<open>
  Every descriptor in the control bytes of a successful receive is newly installed; so is every
  one the program opens.
\<close>

fun opened_by :: "host_event \<Rightarrow> raw_fd list" where
  "opened_by (HPair (Inr (a, b))) = [ucast a, ucast b]"
| "opened_by (HOpen x (Inr a)) = [ucast a]"
| "opened_by (HNamedTemp d (Inr (p, a))) = [ucast a]"
| "opened_by _ = []"

lemma open_fd_nonneg [simp]: "0 \<le> sint (ucast (a :: open_fd) :: raw_fd)"
proof -
  have "\<not> bit (ucast a :: raw_fd) 31" by (auto simp: bit_simps dest: bit_imp_le_length)
  then show ?thesis using bit_last_iff [of "ucast a :: raw_fd"] by simp
qed

lemma opened_nonneg: "fd \<in> set (opened_by e) \<Longrightarrow> 0 \<le> sint fd"
  by (cases e rule: opened_by.cases) auto

definition delivered_in :: "libc \<Rightarrow> byte list \<Rightarrow> raw_fd list" where
  "delivered_in L bytes = rights_in L (messages_in L bytes) @ pidfds_in L (messages_in L bytes)"

fun delivered_by :: "libc \<Rightarrow> syscall \<Rightarrow> raw_fd list" where
  "delivered_by L (SysRecvmsg fd h fl (Inr r)) = delivered_in L (take (rr_controllen r) (rr_control r))"
| "delivered_by L (SysHost e) = opened_by e"
| "delivered_by L _ = []"

definition delivered :: "libc \<Rightarrow> trace \<Rightarrow> raw_fd list" where
  "delivered L tr = concat (map (delivered_by L) tr)"

lemma delivered_simps [simp]:
  "delivered L [] = []"
  "delivered L (e # tr) = delivered_by L e @ delivered L tr"
  "delivered L (tr @ tr') = delivered L tr @ delivered L tr'"
  by (simp_all add: delivered_def)

text \<open>\<^verbatim>\<open>RawMessage::rights\<close> keeps no negative number, the niche of \<^verbatim>\<open>OwnedFd\<close>.\<close>

lemma delivered_in_nonneg: "fd \<in> set (delivered_in L bytes) \<Longrightarrow> 0 \<le> sint fd"
  by (auto simp: delivered_in_def rights_in_def pidfds_in_def rights_def)

lemma delivered_nonneg: "fd \<in> set (delivered L tr) \<Longrightarrow> 0 \<le> sint fd"
proof (induction tr)
  case (Cons e tr)
  then show ?case by (cases "(L, e)" rule: delivered_by.cases) (auto dest: delivered_in_nonneg opened_nonneg)
qed simp

lemma delivered_SysClose [simp]: "delivered L (map SysClose fds) = []"
  by (induction fds) auto

text \<open>
  No prefix of the events closes a descriptor that is not owned at that point: what was owned
  and what was delivered so far covers what was closed so far.
\<close>

definition solvent :: "libc \<Rightarrow> raw_fd list \<Rightarrow> trace \<Rightarrow> bool" where
  "solvent L own ev \<longleftrightarrow> (\<forall>pre post. ev = pre @ post \<longrightarrow>
     mset (closed pre) \<subseteq># mset own + mset (delivered L pre))"

lemma solventI:
  "(\<And>pre post. ev = pre @ post \<Longrightarrow> mset (closed pre) \<subseteq># mset own + mset (delivered L pre)) \<Longrightarrow>
     solvent L own ev"
  by (simp add: solvent_def)

lemma solventD:
  "solvent L own (pre @ post) \<Longrightarrow> mset (closed pre) \<subseteq># mset own + mset (delivered L pre)"
  unfolding solvent_def by blast

lemma solvent_no_close: "closed ev = [] \<Longrightarrow> solvent L own ev"
  by (rule solventI) simp

lemma solvent_closes: "mset xs \<subseteq># mset own \<Longrightarrow> solvent L own (map SysClose xs)"
proof (rule solventI)
  fix pre post
  assume xs: "mset xs \<subseteq># mset own" and e: "map SysClose xs = pre @ post"
  from e obtain us vs where "xs = us @ vs" "pre = map SysClose us" by (auto simp: map_eq_append_conv)
  with xs show "mset (closed pre) \<subseteq># mset own + mset (delivered L pre)"
    by (auto intro: subset_mset.trans [of _ "mset us + mset vs"])
qed

lemma solvent_append:
  assumes "solvent L own e1" "solvent L own' e2"
    and b: "mset own + mset (delivered L e1) = mset own' + mset (closed e1)"
  shows "solvent L own (e1 @ e2)"
proof (rule solventI)
  fix pre post
  assume "e1 @ e2 = pre @ post"
  then consider us where "e1 = pre @ us" | us where "pre = e1 @ us" "e2 = us @ post"
    by (auto simp: append_eq_append_conv2)
  then show "mset (closed pre) \<subseteq># mset own + mset (delivered L pre)"
  proof cases
    case 1
    with assms(1) solventD show ?thesis by blast
  next
    case 2
    have "mset (closed us) \<subseteq># mset own' + mset (delivered L us)"
      using assms(2) 2(2) solventD by blast
    then have "mset (closed pre) \<subseteq># mset (closed e1) + (mset own' + mset (delivered L us))"
      using 2(1) by simp
    also have "\<dots> = mset own + mset (delivered L pre)"
      using b 2(1) by (simp add: ac_simps)
    finally show ?thesis .
  qed
qed

lemma solvent_more:
  assumes "solvent L own ev" "mset own \<subseteq># mset own'"
  shows "solvent L own' ev"
proof (rule solventI)
  fix pre post
  assume "ev = pre @ post"
  with assms(1) have "mset (closed pre) \<subseteq># mset own + mset (delivered L pre)" using solventD by blast
  also have "\<dots> \<subseteq># mset own' + mset (delivered L pre)" using assms(2) by simp
  finally show "mset (closed pre) \<subseteq># mset own' + mset (delivered L pre)" .
qed

definition accounted :: "libc \<Rightarrow> trace \<Rightarrow> raw_fd list \<Rightarrow> trace \<Rightarrow> raw_fd list \<Rightarrow> bool" where
  "accounted L tr own tr' own' \<longleftrightarrow> (\<exists>ev. tr' = tr @ ev
     \<and> mset own + mset (delivered L ev) = mset own' + mset (closed ev) \<and> solvent L own ev)"

lemma accounted_deliver:
  assumes "tr' = tr @ ev" "closed ev = []" "mset own' = mset own + mset (delivered L ev)"
  shows "accounted L tr own tr' own'"
  using assms by (auto simp: accounted_def solvent_no_close)

lemma accounted_refl [simp, intro]: "accounted L tr own tr own"
  by (rule accounted_deliver [of _ _ "[]"]) simp_all

lemma accounted_trans [trans]:
  assumes "accounted L t1 o1 t2 o2" "accounted L t2 o2 t3 o3"
  shows "accounted L t1 o1 t3 o3"
proof -
  from assms obtain e1 e2 where t: "t2 = t1 @ e1" "t3 = t1 @ (e1 @ e2)"
    and b: "mset o1 + mset (delivered L e1) = mset o2 + mset (closed e1)"
      "mset o2 + mset (delivered L e2) = mset o3 + mset (closed e2)"
    and s: "solvent L o1 e1" "solvent L o2 e2"
    unfolding accounted_def by fastforce
  have "mset o1 + mset (delivered L (e1 @ e2)) = mset o2 + mset (closed e1) + mset (delivered L e2)"
    using b(1) by simp
  also have "\<dots> = mset o3 + mset (closed (e1 @ e2))"
    using b(2) by (simp add: ac_simps)
  finally show ?thesis
    using t solvent_append [OF s b(1)] unfolding accounted_def by blast
qed

lemma accounted_drop:
  "accounted L tr (xs @ ys) (drop_fds xs tr) ys"
  unfolding accounted_def drop_fds_def by (intro exI conjI) (auto intro: solvent_closes)

lemma accounted_cong:
  assumes "accounted L tr own tr' own'" "mset own2 = mset own" "mset own2' = mset own'"
  shows "accounted L tr own2 tr' own2'"
  using assms by (simp add: accounted_def solvent_def)

lemma accounted_frame:
  "accounted L tr own tr' own' \<Longrightarrow> accounted L tr (own @ x) tr' (own' @ x)"
  unfolding accounted_def by (auto simp: ac_simps elim!: solvent_more)

text \<open>Keeping the first \<open>n\<close> descriptors and closing the rest.\<close>

lemma accounted_split:
  "accounted L tr fds (drop_fds (drop n fds) tr) (take n fds)"
  by (rule accounted_cong [OF accounted_drop [of L tr "drop n fds" "take n fds"]])
    (metis append_take_drop_id mset_append union_commute, simp)

text \<open>
  An event of the crate that neither delivers nor closes, and does not take a descriptor's
  close-on-exec flag away.
\<close>

fun clears_cloexec :: "libc \<Rightarrow> syscall \<Rightarrow> bool" where
  "clears_cloexec L (SysSetfd fd fl r) = (fl AND FD_CLOEXEC L \<noteq> FD_CLOEXEC L)"
| "clears_cloexec L _ = False"

fun from_host :: "syscall \<Rightarrow> bool" where
  "from_host (SysHost e) = True"
| "from_host _ = False"

definition neutral :: "libc \<Rightarrow> trace \<Rightarrow> bool" where
  "neutral L ev \<longleftrightarrow> delivered L ev = [] \<and> closed ev = [] \<and> \<not> list_ex (clears_cloexec L) ev
     \<and> \<not> list_ex from_host ev"

lemma or_flag_set [simp]: "(fl OR c) AND c = (c :: 'a :: len word)"
  by (simp add: bit_eq_iff bit_simps)

lemma neutral_simps [simp]:
  "neutral L []"
  "neutral L (e # ev) \<longleftrightarrow> delivered_by L e = [] \<and> closed_by e = [] \<and> \<not> clears_cloexec L e
     \<and> \<not> from_host e \<and> neutral L ev"
  "neutral L (ev @ ev') \<longleftrightarrow> neutral L ev \<and> neutral L ev'"
  by (auto simp: neutral_def)

lemma accounted_neutral: "neutral L ev \<Longrightarrow> accounted L tr own (tr @ ev) own"
  by (rule accounted_deliver) (auto simp: neutral_def)

section \<open>The interface of an owning operation\<close>

text \<open>
  An operation that starts owning nothing and whose result owns exactly what it did not
  close of what the kernel delivered.
\<close>

locale owning_op =
  fixes L :: libc
    and run :: "trace \<Rightarrow> ('r \<times> trace) option"
    and owned :: "'r \<Rightarrow> raw_fd list"
  assumes accounts: "run tr = Some (r, tr') \<Longrightarrow> accounted L tr [] tr' (owned r)"
begin

text \<open>A result that owns nothing (an error) means everything delivered was closed.\<close>

lemma no_leak:
  assumes "run tr = Some (r, tr')" "owned r = []"
  shows "\<exists>ev. tr' = tr @ ev \<and> mset (closed ev) = mset (delivered L ev)"
  using accounts [OF assms(1)] assms(2) by (auto simp: accounted_def)

lemma closes_once:
  assumes "run tr = Some (r, tr')"
  shows "\<exists>ev. tr' = tr @ ev \<and> mset (closed ev) \<subseteq># mset (delivered L ev)
    \<and> mset (owned r) = mset (delivered L ev) - mset (closed ev)"
  using accounts [OF assms] by (auto simp: accounted_def)

text \<open>Keeping a prefix of the owned descriptors and dropping the rest keeps the balance.\<close>

lemma keep_prefix:
  assumes "run tr = Some (r, tr')"
  shows "accounted L tr [] (drop_fds (drop n (owned r)) tr') (take n (owned r))"
  by (rule accounted_trans [OF accounts [OF assms] accounted_split])

text \<open>Dropping everything, as an early return does.\<close>

lemma drop_all:
  assumes "run tr = Some (r, tr')"
  shows "accounted L tr [] (drop_fds (owned r) tr') []"
  using keep_prefix [OF assms, of 0] by simp

end

end
