(* ===== verification/Loopback.thy ===== *)
theory Loopback
  imports Kernel
begin

unbundle bit_operations_syntax

text \<open>
  Reference environments: \<open>loopback\<close> is a kernel with one in-memory socket that returns every
  message it was sent, in order, and keeps the documented contracts of \<^verbatim>\<open>sendmsg\<close> and
  \<^verbatim>\<open>recvmsg\<close>, truncation flags included; \<open>interrupting\<close> adds \<open>n\<close> interruptions before each
  call and \<open>short_writes\<close> makes a stream accept at most \<open>n\<close> bytes at a time. The interfaces of
  the development are interpreted on them. Descriptor numbers are passed through unchanged.
\<close>

fun consumes :: "libc \<Rightarrow> syscall \<Rightarrow> nat" where
  "consumes L (SysRecvmsg fd h fl (Inr r)) = (if fl AND MSG_PEEK L = 0 then 1 else 0)"
| "consumes L _ = 0"

definition queue :: "libc \<Rightarrow> trace \<Rightarrow> (byte list \<times> byte list) list" where
  "queue L tr = drop (sum_list (map (consumes L) tr)) (sent tr)"

definition deliver :: "libc \<Rightarrow> byte list \<times> byte list \<Rightarrow> recv_hdr \<Rightarrow> recv_reply" where
  "deliver L m h =
     (let data = take (length (concat (r_iov h))) (fst m);
          control = take (r_controllen h) (snd m)
      in \<lparr> rr_ret = length data, rr_data = data,
           rr_control = control, rr_controllen = length control,
           rr_flags = (if length data < length (fst m) then MSG_TRUNC L else 0)
             OR (if length control < length (snd m) then MSG_CTRUNC L else 0) \<rparr>)"

text \<open>The value of a socket option is the one set last.\<close>

fun option_after :: "raw_fd \<Rightarrow> i32 \<Rightarrow> i32 \<Rightarrow> syscall \<Rightarrow> i32 \<Rightarrow> i32" where
  "option_after fd level opt (SysSetsockopt fd' level' opt' val (Inr u)) old =
     (if fd' = fd \<and> level' = level \<and> opt' = opt then val else old)"
| "option_after fd level opt _ old = old"

definition loopback :: "libc \<Rightarrow> kernel" where
  "loopback L = \<lparr>
     sys_sendmsg = (\<lambda>tr fd h fl. Inr (length (concat (s_iov h)))),
     sys_recvmsg = (\<lambda>tr fd h fl.
       case queue L tr of [] \<Rightarrow> Inl (EAGAIN L) | m # _ \<Rightarrow> Inr (deliver L m h)),
     sys_getfd = (\<lambda>tr fd. Inr 0),
     sys_setfd = (\<lambda>tr fd fl. Inr ()),
     sys_setsockopt = (\<lambda>tr fd level opt val. Inr ()),
     sys_getsockopt = (\<lambda>tr fd level opt. Inr (fold (option_after fd level opt) tr 0)),
     sys_getrlimit = (\<lambda>tr. Inr 1024),
     sys_getpid = (\<lambda>tr. 100),
     sys_getuid = (\<lambda>tr. 1000),
     sys_getgid = (\<lambda>tr. 1000) \<rparr>"

lemma loopback_simps [simp]:
  "sys_sendmsg (loopback L) tr fd h fl = Inr (length (concat (s_iov h)))"
  "sys_recvmsg (loopback L) tr fd rh fl =
     (case queue L tr of [] \<Rightarrow> Inl (EAGAIN L) | m # _ \<Rightarrow> Inr (deliver L m rh))"
  "sys_getfd (loopback L) tr fd = Inr 0"
  "sys_setfd (loopback L) tr fd fl = Inr ()"
  "sys_setsockopt (loopback L) tr fd level opt val = Inr ()"
  "sys_getsockopt (loopback L) tr fd level opt = Inr (fold (option_after fd level opt) tr 0)"
  "sys_getrlimit (loopback L) tr = Inr 1024"
  by (simp_all add: loopback_def)

text \<open>
  What the lemmas on a successful receive ask of a kernel: that it answers a \<^verbatim>\<open>recvmsg\<close> with these
  buffers by the message \<open>(p, c)\<close>, and, where a received descriptor needs its close-on-exec flag set,
  that it can read and set the flag.
\<close>

definition offers :: "libc \<Rightarrow> kernel \<Rightarrow> raw_fd \<Rightarrow> byte list list \<Rightarrow> byte list \<Rightarrow> byte list \<Rightarrow> trace \<Rightarrow> bool" where
  "offers L K sock iov p c tr \<longleftrightarrow>
     (\<forall>h fl. r_iov h = iov \<longrightarrow> sys_recvmsg K tr sock h fl = Inr (deliver L (p, c) h))
     \<and> (\<not> cfg_cloexec L \<longrightarrow> (\<forall>tr fd. \<exists>fl. sys_getfd K tr fd = Inr fl) \<and> (\<forall>tr fd fl. sys_setfd K tr fd fl = Inr ()))"

text \<open>The reply to a receive with room for the whole message.\<close>

definition whole_reply :: "byte list \<Rightarrow> byte list \<Rightarrow> recv_reply" where
  "whole_reply p c = \<lparr> rr_ret = length p, rr_data = p, rr_control = c, rr_controllen = length c, rr_flags = 0 \<rparr>"

lemma loopback_offers: "queue L tr = (p, c) # q \<Longrightarrow> offers L (loopback L) sock iov p c tr"
  by (simp add: offers_def)

fun was_interrupted :: "libc \<Rightarrow> syscall \<Rightarrow> bool" where
  "was_interrupted L (SysSendmsg fd h fl r) = (r = Inl (EINTR L))"
| "was_interrupted L (SysRecvmsg fd h fl r) = (case r of Inl e \<Rightarrow> e = EINTR L | Inr x \<Rightarrow> False)"
| "was_interrupted L _ = False"

definition interruptions :: "libc \<Rightarrow> trace \<Rightarrow> nat" where
  "interruptions L tr = length (takeWhile (was_interrupted L) (rev tr))"

definition interrupting :: "libc \<Rightarrow> nat \<Rightarrow> kernel \<Rightarrow> kernel" where
  "interrupting L n K = K\<lparr>
     sys_sendmsg := (\<lambda>tr fd h fl.
       if interruptions L tr < n then Inl (EINTR L) else sys_sendmsg K tr fd h fl),
     sys_recvmsg := (\<lambda>tr fd h fl.
       if interruptions L tr < n then Inl (EINTR L) else sys_recvmsg K tr fd h fl)\<rparr>"

definition short_writes :: "nat \<Rightarrow> kernel \<Rightarrow> kernel" where
  "short_writes n K = K\<lparr>sys_sendmsg := (\<lambda>tr fd h fl. Inr (min n (length (concat (s_iov h)))))\<rparr>"

section \<open>They keep the contracts\<close>

lemma recv_contract_loopback: "recv_contract (loopback L)"
  by (auto simp: recv_contract_def loopback_def deliver_def Let_def split: list.splits)

lemma send_contract_loopback: "send_contract (loopback L)"
  by (simp add: send_contract_def loopback_def)

lemma recv_contract_fewer:
  "recv_contract K \<Longrightarrow>
     (\<And>tr fd h fl r. sys_recvmsg K' tr fd h fl = Inr r \<Longrightarrow> sys_recvmsg K tr fd h fl = Inr r) \<Longrightarrow>
     recv_contract K'"
  unfolding recv_contract_def by blast

lemma recv_contract_interrupting: "recv_contract K \<Longrightarrow> recv_contract (interrupting L n K)"
  by (erule recv_contract_fewer) (simp add: interrupting_def split: if_splits)

lemma send_contract_interrupting: "send_contract K \<Longrightarrow> send_contract (interrupting L n K)"
  unfolding send_contract_def interrupting_def by (simp split: if_splits)

lemma recv_contract_short_writes: "recv_contract K \<Longrightarrow> recv_contract (short_writes n K)"
  by (erule recv_contract_fewer) (simp add: short_writes_def)

lemma send_contract_short_writes: "send_contract (short_writes n K)"
  by (simp add: send_contract_def short_writes_def)

lemmas reference_contracts = recv_contract_loopback send_contract_loopback
  recv_contract_interrupting send_contract_interrupting
  recv_contract_short_writes send_contract_short_writes

end
