(* ===== verification/Platform.thy ===== *)
theory Platform
  imports Ownership Loopback
begin

unbundle bit_operations_syntax

text \<open>
  \<^verbatim>\<open>src/platform.rs\<close>: the portable fallback (close-on-exec through \<^verbatim>\<open>fcntl\<close>, the receive
  budget from \<^verbatim>\<open>RLIMIT_NOFILE\<close>, the error mapping of \<^verbatim>\<open>SO_NOSIGPIPE\<close>) and the selection
  between it and the native flags, on the target's operating system.
\<close>

section \<open>The fallback\<close>

definition set_cloexec ::
  "libc \<Rightarrow> kernel \<Rightarrow> raw_fd \<Rightarrow> trace \<Rightarrow> (io_error, unit) result \<times> trace" where
  "set_cloexec L K fd tr =
     (let (flags, tr) = fcntl_getfd K fd tr in
      case flags of
        Inl e \<Rightarrow> (Err (Os e), tr)
      | Inr flags \<Rightarrow>
          (let (ret, tr) = fcntl_setfd K fd (flags OR FD_CLOEXEC L) tr in
           case ret of Inl e \<Rightarrow> (Err (Os e), tr) | Inr _ \<Rightarrow> (Ok (), tr)))"

fun fallback_cloexec_fds ::
  "libc \<Rightarrow> kernel \<Rightarrow> raw_fd list \<Rightarrow> trace \<Rightarrow> (io_error, unit) result \<times> trace" where
  "fallback_cloexec_fds L K [] tr = (Ok (), tr)"
| "fallback_cloexec_fds L K (fd # fds) tr =
     (case set_cloexec L K fd tr of
        (Ok _, tr) \<Rightarrow> fallback_cloexec_fds L K fds tr
      | (Err e, tr) \<Rightarrow> (Err e, tr)
      | (Panic, tr) \<Rightarrow> (Panic, tr))"

fun fallback_cloexec_received ::
  "libc \<Rightarrow> kernel \<Rightarrow> received_message list \<Rightarrow> trace \<Rightarrow> (io_error, unit) result \<times> trace" where
  "fallback_cloexec_received L K [] tr = (Ok (), tr)"
| "fallback_cloexec_received L K (m # ms) tr =
     (case fallback_cloexec_fds L K (msg_fds m) tr of
        (Ok _, tr) \<Rightarrow> fallback_cloexec_received L K ms tr
      | (Err e, tr) \<Rightarrow> (Err e, tr)
      | (Panic, tr) \<Rightarrow> (Panic, tr))"

definition nosigpipe_error :: "libc \<Rightarrow> io_error \<Rightarrow> io_error" where
  "nosigpipe_error L err = (if err = Os (EINVAL L) then Os (EPIPE L) else err)"

definition HARD_CEILING :: usize where
  "HARD_CEILING = 2 ^ 20"

definition HARD_FLOOR :: usize where
  "HARD_FLOOR = 253"

text \<open>\<open>cur\<close> is an \<^verbatim>\<open>rlim_t\<close>: unsigned on Linux, signed on the BSDs, so an integer here.\<close>

definition clamp_nofile :: "libc \<Rightarrow> int \<Rightarrow> usize" where
  "clamp_nofile L cur =
     (let n = (if cur = RLIM_INFINITY L then HARD_CEILING
               else if 0 \<le> cur \<and> cur < 2 ^ usize_bits L then nat cur else HARD_CEILING)
      in if n < HARD_FLOOR then HARD_FLOOR else if HARD_CEILING < n then HARD_CEILING else n)"

definition fallback_max_recv_fds :: "libc \<Rightarrow> kernel \<Rightarrow> trace \<Rightarrow> usize \<times> trace" where
  "fallback_max_recv_fds L K tr =
     (let (rc, tr) = getrlimit K tr in
      case rc of Inl e \<Rightarrow> (HARD_CEILING, tr) | Inr cur \<Rightarrow> (clamp_nofile L cur, tr))"

section \<open>The selected platform\<close>

definition RECV_FLAGS :: "libc \<Rightarrow> i32" where
  "RECV_FLAGS L = (if cfg_cloexec L then MSG_CMSG_CLOEXEC L else 0)"

definition SEND_FLAGS :: "libc \<Rightarrow> i32" where
  "SEND_FLAGS L = (if cfg_cloexec L then MSG_NOSIGNAL L else 0)"

definition apple_prepare_send ::
  "libc \<Rightarrow> kernel \<Rightarrow> raw_fd \<Rightarrow> trace \<Rightarrow> (io_error, unit) result \<times> trace" where
  "apple_prepare_send L K fd tr =
     (let (ret, tr) = setsockopt K fd (SOL_SOCKET L) (SO_NOSIGPIPE L) 1 tr in
      case ret of Inl e \<Rightarrow> (Err (nosigpipe_error L (Os e)), tr) | Inr _ \<Rightarrow> (Ok (), tr))"

definition prepare_send ::
  "libc \<Rightarrow> kernel \<Rightarrow> raw_fd \<Rightarrow> trace \<Rightarrow> (io_error, unit) result \<times> trace" where
  "prepare_send L K fd tr =
     (if \<not> cfg_cloexec L \<and> cfg_apple L then apple_prepare_send L K fd tr else (Ok (), tr))"

definition cloexec_received ::
  "libc \<Rightarrow> kernel \<Rightarrow> received_message list \<Rightarrow> trace \<Rightarrow> (io_error, unit) result \<times> trace" where
  "cloexec_received L K ms tr =
     (if cfg_cloexec L then (Ok (), tr) else fallback_cloexec_received L K ms tr)"

definition cloexec_fds ::
  "libc \<Rightarrow> kernel \<Rightarrow> raw_fd list \<Rightarrow> trace \<Rightarrow> (io_error, unit) result \<times> trace" where
  "cloexec_fds L K fds tr =
     (if cfg_cloexec L then (Ok (), tr) else fallback_cloexec_fds L K fds tr)"

definition max_recv_fds :: "libc \<Rightarrow> kernel \<Rightarrow> trace \<Rightarrow> usize \<times> trace" where
  "max_recv_fds L K tr = (if cfg_cloexec L then (253, tr) else fallback_max_recv_fds L K tr)"

section \<open>Properties of the fallback\<close>

lemma set_cloexec_trace:
  "\<exists>ev. snd (set_cloexec L K fd tr) = tr @ ev \<and> neutral L ev
     \<and> fst (set_cloexec L K fd tr) \<noteq> Panic
     \<and> (fst (set_cloexec L K fd tr) = Ok () \<longrightarrow>
       (\<exists>flags. ev = [SysGetfd fd (Inr flags), SysSetfd fd (flags OR FD_CLOEXEC L) (Inr ())]))"
  by (auto simp: set_cloexec_def syscall_defs Let_def split: sum.split)

lemma fallback_cloexec_fds_trace:
  "\<exists>ev. snd (fallback_cloexec_fds L K fds tr) = tr @ ev \<and> neutral L ev
     \<and> fst (fallback_cloexec_fds L K fds tr) \<noteq> Panic"
proof (induction fds arbitrary: tr)
  case Nil
  then show ?case by simp
next
  case (Cons fd fds)
  obtain r tr1 where s: "set_cloexec L K fd tr = (r, tr1)" by fastforce
  obtain ev where ev: "tr1 = tr @ ev" "neutral L ev" "r \<noteq> Panic"
    using set_cloexec_trace [of L K fd tr] s by auto
  show ?case
  proof (cases r)
    case (Ok x)
    obtain ev' where "snd (fallback_cloexec_fds L K fds tr1) = tr1 @ ev'" "neutral L ev'"
      "fst (fallback_cloexec_fds L K fds tr1) \<noteq> Panic"
      using Cons.IH by blast
    with s ev Ok show ?thesis by (intro exI [of _ "ev @ ev'"]) simp
  next
    case (Err e)
    with s ev show ?thesis by auto
  next
    case Panic
    with ev show ?thesis by simp
  qed
qed

text \<open>The structured form visits the descriptors of all messages in the order of the flat list.\<close>

lemma fallback_cloexec_fds_append:
  "fallback_cloexec_fds L K (xs @ ys) tr =
     (case fallback_cloexec_fds L K xs tr of
        (Ok _, tr) \<Rightarrow> fallback_cloexec_fds L K ys tr
      | (Err e, tr) \<Rightarrow> (Err e, tr)
      | (Panic, tr) \<Rightarrow> (Panic, tr))"
  by (induction xs arbitrary: tr) (auto split: prod.split result.split)

lemma fallback_received_flat:
  "fallback_cloexec_received L K ms tr = fallback_cloexec_fds L K (owned_fds ms) tr"
  by (induction ms arbitrary: tr)
    (auto simp: fallback_cloexec_fds_append split: prod.split result.split)

lemma cloexec_received_flat: "cloexec_received L K ms tr = cloexec_fds L K (owned_fds ms) tr"
  by (simp add: cloexec_received_def cloexec_fds_def fallback_received_flat)

lemma cloexec_fds_trace:
  "\<exists>ev. snd (cloexec_fds L K fds tr) = tr @ ev \<and> neutral L ev
     \<and> fst (cloexec_fds L K fds tr) \<noteq> Panic"
  using fallback_cloexec_fds_trace [of L K fds tr] by (simp add: cloexec_fds_def)

lemma clamp_nofile_range: "HARD_FLOOR \<le> clamp_nofile L cur \<and> clamp_nofile L cur \<le> HARD_CEILING"
  by (simp add: clamp_nofile_def Let_def HARD_FLOOR_def HARD_CEILING_def)

lemma max_recv_fds_range:
  "HARD_FLOOR \<le> fst (max_recv_fds L K tr) \<and> fst (max_recv_fds L K tr) \<le> HARD_CEILING"
  using clamp_nofile_range
  by (auto simp: max_recv_fds_def fallback_max_recv_fds_def getrlimit_def HARD_FLOOR_def
      HARD_CEILING_def Let_def split: sum.split)

lemma max_recv_fds_trace:
  "\<exists>ev. snd (max_recv_fds L K tr) = tr @ ev \<and> neutral L ev"
  by (auto simp: max_recv_fds_def fallback_max_recv_fds_def getrlimit_def Let_def split: sum.split)

lemma prepare_send_eq:
  "prepare_send L K fd tr =
     (if cfg_cloexec L \<or> \<not> cfg_apple L then (Ok (), tr)
      else let q = sys_setsockopt K tr fd (SOL_SOCKET L) (SO_NOSIGPIPE L) 1 in
        (case q of Inl e \<Rightarrow> Err (Os (if e = EINVAL L then EPIPE L else e)) | Inr _ \<Rightarrow> Ok (),
         tr @ [SysSetsockopt fd (SOL_SOCKET L) (SO_NOSIGPIPE L) 1 q]))"
  by (auto simp: prepare_send_def apple_prepare_send_def setsockopt_def nosigpipe_error_def Let_def
      split: sum.split)

lemma prepare_send_trace:
  "\<exists>ev. snd (prepare_send L K fd tr) = tr @ ev \<and> neutral L ev \<and> sent ev = []
     \<and> fst (prepare_send L K fd tr) \<noteq> Panic"
  by (auto simp: prepare_send_def apple_prepare_send_def setsockopt_def Let_def split: sum.split)

end
