(* ===== verification/Cmsg.thy ===== *)
theory Cmsg
  imports Platform
begin

unbundle bit_operations_syntax

text \<open>
  \<^verbatim>\<open>src/cmsg.rs\<close>: the two system calls with their retry on \<^verbatim>\<open>EINTR\<close> and the receive that
  owns every delivered descriptor as one flat list. The retry loops are
  \<^theory_text>\<open>partial_function\<close>s (a kernel that interrupts for ever makes them diverge, \<open>None\<close>) and
  both are instances of the locale \<open>eintr_loop\<close>, which says exactly when they return and with what.
\<close>

section \<open>Sending\<close>

partial_function (option) send_loop ::
  "libc \<Rightarrow> kernel \<Rightarrow> raw_fd \<Rightarrow> send_hdr \<Rightarrow> trace \<Rightarrow> ((io_error, usize) result \<times> trace) option"
where
  "send_loop L K fd msg tr =
     (let (ret, tr) = sendmsg K fd msg (SEND_FLAGS L) tr in
      case ret of
        Inr n \<Rightarrow> Some (Ok n, tr)
      | Inl err \<Rightarrow>
          if kind_of L (Os err) \<noteq> Interrupted then Some (Err (Os err), tr)
          else send_loop L K fd msg tr)"

text \<open>The casts \<^verbatim>\<open>as _\<close> of the lengths to the fields' types wrap around.\<close>

definition send_header :: "libc \<Rightarrow> byte list list \<Rightarrow> byte list \<Rightarrow> usize \<Rightarrow> send_hdr" where
  "send_header L iov ancillary_buf ancillary_len =
     (let msg = \<lparr> s_iov = iov, s_iovlen = length iov mod 2 ^ iovlen_bits L,
                  s_control = None, s_controllen = 0 \<rparr> in
      if 0 < ancillary_len
      then msg\<lparr>s_control := Some ancillary_buf,
               s_controllen := ancillary_len mod 2 ^ controllen_bits L\<rparr>
      else msg)"

definition sendmsg_vectored ::
  "libc \<Rightarrow> kernel \<Rightarrow> raw_fd \<Rightarrow> byte list list \<Rightarrow> byte list \<Rightarrow> usize \<Rightarrow> trace
     \<Rightarrow> ((io_error, usize) result \<times> trace) option" where
  "sendmsg_vectored L K fd iov ancillary_buf ancillary_len tr =
     (case prepare_send L K fd tr of
        (Ok _, tr) \<Rightarrow> send_loop L K fd (send_header L iov ancillary_buf ancillary_len) tr
      | (Err e, tr) \<Rightarrow> Some (Err e, tr)
      | (Panic, tr) \<Rightarrow> Some (Panic, tr))"

definition send_bytes ::
  "libc \<Rightarrow> kernel \<Rightarrow> raw_fd \<Rightarrow> byte list \<Rightarrow> trace \<Rightarrow> ((io_error, usize) result \<times> trace) option" where
  "send_bytes L K fd data tr = sendmsg_vectored L K fd [data] [] 0 tr"

section \<open>Receiving\<close>

record recv_msg_result =
  bytes_read :: usize
  ancillary_len :: usize
  ancillary_truncated :: bool
  data_truncated :: bool

partial_function (option) recv_loop ::
  "libc \<Rightarrow> kernel \<Rightarrow> raw_fd \<Rightarrow> recv_hdr \<Rightarrow> i32 \<Rightarrow> trace
     \<Rightarrow> ((io_error, recv_reply) result \<times> trace) option"
where
  "recv_loop L K fd msg extra_flags tr =
     (let (ret, tr) = recvmsg K fd msg (RECV_FLAGS L OR extra_flags) tr in
      case ret of
        Inr reply \<Rightarrow> Some (Ok reply, tr)
      | Inl err \<Rightarrow>
          if kind_of L (Os err) \<noteq> Interrupted then Some (Err (Os err), tr)
          else recv_loop L K fd msg extra_flags tr)"

definition recv_header :: "libc \<Rightarrow> byte list list \<Rightarrow> byte list \<Rightarrow> recv_hdr" where
  "recv_header L iov ancillary_buf =
     \<lparr> r_iov = iov, r_iovlen = length iov mod 2 ^ iovlen_bits L,
       r_control = ancillary_buf, r_controllen = length ancillary_buf mod 2 ^ controllen_bits L \<rparr>"

definition recv_result_of :: "libc \<Rightarrow> recv_reply \<Rightarrow> recv_msg_result" where
  "recv_result_of L reply =
     \<lparr> bytes_read = rr_ret reply, ancillary_len = rr_controllen reply,
       ancillary_truncated = (rr_flags reply AND MSG_CTRUNC L \<noteq> 0),
       data_truncated = (rr_flags reply AND MSG_TRUNC L \<noteq> 0) \<rparr>"

text \<open>
  The buffers come back as the kernel left them: unchanged on an error, written on success.
\<close>

definition recvmsg_raw ::
  "libc \<Rightarrow> kernel \<Rightarrow> raw_fd \<Rightarrow> byte list list \<Rightarrow> byte list \<Rightarrow> i32 \<Rightarrow> trace
     \<Rightarrow> ((io_error, recv_msg_result) result \<times> byte list list \<times> byte list \<times> trace) option" where
  "recvmsg_raw L K fd iov ancillary_buf extra_flags tr = do {
     (ret, tr) \<leftarrow> recv_loop L K fd (recv_header L iov ancillary_buf) extra_flags tr;
     Some (case ret of
         Ok reply \<Rightarrow>
           (Ok (recv_result_of L reply),
            scatter iov (rr_data reply), overwrite ancillary_buf (rr_control reply), tr)
       | Err e \<Rightarrow> (Err e, iov, ancillary_buf, tr)
       | Panic \<Rightarrow> (Panic, iov, ancillary_buf, tr)) }"

text \<open>
  \<^verbatim>\<open>recv_fds\<close>: an error of the close-on-exec pass returns early and so drops, that is closes,
  every descriptor of the batch.
\<close>

definition recv_fds ::
  "libc \<Rightarrow> kernel \<Rightarrow> raw_fd \<Rightarrow> byte list list \<Rightarrow> byte list \<Rightarrow> trace
     \<Rightarrow> ((io_error, recv_msg_result \<times> raw_fd list) result \<times> byte list list \<times> trace) option" where
  "recv_fds L K fd iov ancillary_buf tr = do {
     (ret, iov, ancillary_buf, tr) \<leftarrow> recvmsg_raw L K fd iov ancillary_buf 0 tr;
     (case ret of
        Err e \<Rightarrow> Some (Err e, iov, tr)
      | Panic \<Rightarrow> Some (Panic, iov, tr)
      | Ok result \<Rightarrow>
        (case slice ancillary_buf 0 (ancillary_len result) of
           Err e \<Rightarrow> Some (Err e, iov, tr)
         | Panic \<Rightarrow> Some (Panic, iov, tr)
         | Ok bytes \<Rightarrow> do {
             (taken, tr) \<leftarrow> take_fds L bytes tr;
             Some (case taken of
                 Err e \<Rightarrow> (Err e, iov, tr)
               | Panic \<Rightarrow> (Panic, iov, tr)
               | Ok fds \<Rightarrow>
                 (case cloexec_fds L K fds tr of
                    (Ok _, tr) \<Rightarrow> (Ok (result, fds), iov, tr)
                  | (Err e, tr) \<Rightarrow> (Err e, iov, drop_fds fds tr)
                  | (Panic, tr) \<Rightarrow> (Panic, iov, drop_fds fds tr))) })) }"

section \<open>Retry loops\<close>

text \<open>The trace after \<open>n\<close> attempts.\<close>

fun after :: "(trace \<Rightarrow> 'r \<times> trace) \<Rightarrow> nat \<Rightarrow> trace \<Rightarrow> trace" where
  "after attempt 0 tr = tr"
| "after attempt (Suc n) tr = after attempt n (snd (attempt tr))"

text \<open>
  A loop that repeats \<open>attempt\<close> while it is interrupted: its equation, and that it only
  returns by way of that equation.
\<close>

locale eintr_loop =
  fixes attempt :: "trace \<Rightarrow> 'r \<times> trace"
    and interrupted :: "'r \<Rightarrow> bool"
    and finish :: "'r \<Rightarrow> 'b"
    and loop :: "trace \<Rightarrow> ('b \<times> trace) option"
  assumes unfold: "attempt tr = (r, tr1) \<Longrightarrow>
      loop tr = (if interrupted r then loop tr1 else Some (finish r, tr1))"
    and least: "loop tr = Some (b, tr') \<Longrightarrow>
      (\<And>tr r tr1. attempt tr = (r, tr1) \<Longrightarrow> \<not> interrupted r \<Longrightarrow> P tr (finish r) tr1) \<Longrightarrow>
      (\<And>tr r tr1 b tr'. attempt tr = (r, tr1) \<Longrightarrow> interrupted r \<Longrightarrow> P tr1 b tr' \<Longrightarrow> P tr b tr') \<Longrightarrow>
      P tr b tr'"
begin

definition interrupted_at :: "trace \<Rightarrow> nat \<Rightarrow> bool" where
  "interrupted_at tr i \<longleftrightarrow> interrupted (fst (attempt (after attempt i tr)))"

lemma interrupted_at_Suc: "interrupted_at tr (Suc i) = interrupted_at (snd (attempt tr)) i"
  by (simp add: interrupted_at_def)

lemma returns_at:
  assumes "\<forall>i<n. interrupted_at tr i" "\<not> interrupted_at tr n"
  shows "loop tr = Some (finish (fst (attempt (after attempt n tr))), after attempt (Suc n) tr)"
  using assms
proof (induction n arbitrary: tr)
  case 0
  then show ?case
    using unfold [of tr "fst (attempt tr)" "snd (attempt tr)"] by (simp add: interrupted_at_def)
next
  case (Suc n)
  have "interrupted_at tr 0" using Suc.prems(1) by blast
  then have "loop tr = loop (snd (attempt tr))"
    using unfold [of tr "fst (attempt tr)" "snd (attempt tr)"] by (simp add: interrupted_at_def)
  moreover have "\<forall>i<n. interrupted_at (snd (attempt tr)) i"
    using Suc.prems(1) by (auto simp flip: interrupted_at_Suc)
  moreover have "\<not> interrupted_at (snd (attempt tr)) n"
    using Suc.prems(2) by (simp add: interrupted_at_Suc)
  ultimately show ?case using Suc.IH by simp
qed

lemma returned:
  assumes "loop tr = Some (b, tr')"
  shows "\<exists>n. (\<forall>i<n. interrupted_at tr i) \<and> \<not> interrupted_at tr n
    \<and> b = finish (fst (attempt (after attempt n tr))) \<and> tr' = after attempt (Suc n) tr"
  using assms
proof (rule least)
  fix tr r tr1
  assume "attempt tr = (r, tr1)" "\<not> interrupted r"
  then show "\<exists>n. (\<forall>i<n. interrupted_at tr i) \<and> \<not> interrupted_at tr n
    \<and> finish r = finish (fst (attempt (after attempt n tr))) \<and> tr1 = after attempt (Suc n) tr"
    by (intro exI [of _ 0]) (simp add: interrupted_at_def)
next
  fix tr r tr1 b tr'
  assume a: "attempt tr = (r, tr1)" "interrupted r"
    and "\<exists>n. (\<forall>i<n. interrupted_at tr1 i) \<and> \<not> interrupted_at tr1 n
      \<and> b = finish (fst (attempt (after attempt n tr1))) \<and> tr' = after attempt (Suc n) tr1"
  then obtain n where n: "\<forall>i<n. interrupted_at tr1 i" "\<not> interrupted_at tr1 n"
    "b = finish (fst (attempt (after attempt n tr1)))" "tr' = after attempt (Suc n) tr1"
    by blast
  have "\<forall>i<Suc n. interrupted_at tr i"
    using a n(1) by (auto simp: less_Suc_eq_0_disj interrupted_at_def)
  with a n show "\<exists>n. (\<forall>i<n. interrupted_at tr i) \<and> \<not> interrupted_at tr n
    \<and> b = finish (fst (attempt (after attempt n tr))) \<and> tr' = after attempt (Suc n) tr"
    by (intro exI [of _ "Suc n"]) (simp add: interrupted_at_def)
qed

text \<open>Exactly when and with what the loop returns, and exactly when it does not.\<close>

lemma loop_iff:
  "loop tr = Some (b, tr') \<longleftrightarrow>
     (\<exists>n. (\<forall>i<n. interrupted_at tr i) \<and> \<not> interrupted_at tr n
       \<and> b = finish (fst (attempt (after attempt n tr))) \<and> tr' = after attempt (Suc n) tr)"
  using returned returns_at by blast

lemma loop_None_iff: "loop tr = None \<longleftrightarrow> (\<forall>n. interrupted_at tr n)"
proof
  assume none: "loop tr = None"
  show "\<forall>n. interrupted_at tr n"
  proof
    fix n
    show "interrupted_at tr n"
    proof (induction n rule: less_induct)
      case (less n)
      then show ?case using returns_at [of n tr] none by fastforce
    qed
  qed
next
  assume "\<forall>n. interrupted_at tr n"
  then show "loop tr = None" using returned by (cases "loop tr") fastforce+
qed

end

text \<open>
  A loop whose attempts are system calls: each is recorded on the trace as one event, and a
  single answer means an interruption.
\<close>

locale syscall_loop = eintr_loop attempt interrupted finish loop
  for attempt :: "trace \<Rightarrow> 'r \<times> trace" and interrupted :: "'r \<Rightarrow> bool"
    and finish :: "'r \<Rightarrow> 'b" and loop :: "trace \<Rightarrow> ('b \<times> trace) option" +
  fixes answer :: "trace \<Rightarrow> 'r"
    and event :: "'r \<Rightarrow> syscall"
    and intr :: "'r"
  assumes attempt_eq: "attempt tr = (answer tr, tr @ [event (answer tr)])"
    and interrupted_iff: "interrupted r \<longleftrightarrow> r = intr"
begin

lemma after_interrupted:
  "\<forall>i<n. interrupted_at tr i \<Longrightarrow> after attempt n tr = tr @ replicate n (event intr)"
proof (induction n arbitrary: tr)
  case (Suc n)
  have "interrupted_at tr 0" using Suc.prems by blast
  then have s: "snd (attempt tr) = tr @ [event intr]"
    by (simp add: interrupted_at_def attempt_eq interrupted_iff)
  have "\<forall>i<n. interrupted_at (tr @ [event intr]) i"
    using Suc.prems by (auto simp flip: s interrupted_at_Suc)
  from Suc.IH [OF this] s show ?case by simp
qed simp

lemma interrupted_upto:
  "(\<forall>i<n. interrupted_at tr i) \<longleftrightarrow> (\<forall>i<n. answer (tr @ replicate i (event intr)) = intr)"
proof (induction n)
  case (Suc n)
  have "interrupted_at tr n \<longleftrightarrow> answer (tr @ replicate n (event intr)) = intr"
    if "\<forall>i<n. interrupted_at tr i"
    using after_interrupted [OF that] by (simp add: interrupted_at_def attempt_eq interrupted_iff)
  with Suc show ?case by (metis less_Suc_eq)
qed simp

text \<open>The first uninterrupted answer decides, after one recorded event per interruption.\<close>

lemma outcome_iff:
  "loop tr = Some (b, tr') \<longleftrightarrow>
     (\<exists>n q. (\<forall>i<n. answer (tr @ replicate i (event intr)) = intr)
       \<and> q = answer (tr @ replicate n (event intr)) \<and> q \<noteq> intr
       \<and> b = finish q \<and> tr' = tr @ replicate n (event intr) @ [event q])"
proof -
  have "(\<forall>i<n. interrupted_at tr i) \<and> \<not> interrupted_at tr n
      \<and> b = finish (fst (attempt (after attempt n tr))) \<and> tr' = after attempt (Suc n) tr
    \<longleftrightarrow> (\<forall>i<n. answer (tr @ replicate i (event intr)) = intr)
      \<and> answer (tr @ replicate n (event intr)) \<noteq> intr
      \<and> b = finish (answer (tr @ replicate n (event intr)))
      \<and> tr' = tr @ replicate n (event intr) @ [event (answer (tr @ replicate n (event intr)))]" for n
  proof (cases "\<forall>i<n. interrupted_at tr i")
    case True
    have "after attempt (Suc n) tr = snd (attempt (after attempt n tr))" for n tr
      by (induction n arbitrary: tr) simp_all
    then show ?thesis
      using True after_interrupted [OF True] interrupted_upto [of n tr]
      by (simp add: interrupted_at_def attempt_eq interrupted_iff del: after.simps)
  next
    case False
    then show ?thesis using interrupted_upto [of n tr] by blast
  qed
  then show ?thesis unfolding loop_iff by auto
qed

lemma diverges_iff: "loop tr = None \<longleftrightarrow> (\<forall>n. answer (tr @ replicate n (event intr)) = intr)"
  unfolding loop_None_iff by (metis interrupted_upto lessI)

end

definition eintr :: "libc \<Rightarrow> errno + 'a \<Rightarrow> bool" where
  "eintr L r = (case r of Inl e \<Rightarrow> kind_of L (Os e) = Interrupted | Inr _ \<Rightarrow> False)"

definition os_result :: "errno + 'a \<Rightarrow> (io_error, 'a) result" where
  "os_result r = (case r of Inl e \<Rightarrow> Err (Os e) | Inr x \<Rightarrow> Ok x)"

lemma eintr_iff: "eintr L r \<longleftrightarrow> r = Inl (EINTR L)"
  by (auto simp: eintr_def split: sum.split)

lemma os_result_simps [simp]: "os_result (Inl e) = Err (Os e)" "os_result (Inr x) = Ok x"
  by (simp_all add: os_result_def)

interpretation send_retry: eintr_loop "\<lambda>tr. sendmsg K fd msg (SEND_FLAGS L) tr" "eintr L" os_result
  "send_loop L K fd msg" for L K fd msg
proof unfold_locales
  fix tr r tr1
  assume "sendmsg K fd msg (SEND_FLAGS L) tr = (r, tr1)"
  then show "send_loop L K fd msg tr =
      (if eintr L r then send_loop L K fd msg tr1 else Some (os_result r, tr1))"
    by (subst send_loop.simps) (simp add: eintr_def split: sum.split)
next
  fix tr b tr' P
  assume ret: "send_loop L K fd msg tr = Some (b, tr')"
    and base: "\<And>tr r tr1. sendmsg K fd msg (SEND_FLAGS L) tr = (r, tr1) \<Longrightarrow> \<not> eintr L r
      \<Longrightarrow> P tr (os_result r) tr1"
    and step: "\<And>tr r tr1 b tr'. sendmsg K fd msg (SEND_FLAGS L) tr = (r, tr1) \<Longrightarrow> eintr L r
      \<Longrightarrow> P tr1 b tr' \<Longrightarrow> P tr b tr'"
  let ?Q = "\<lambda>L' K' fd' msg' tr x.
    L' = L \<longrightarrow> K' = K \<longrightarrow> fd' = fd \<longrightarrow> msg' = msg \<longrightarrow> P tr (fst x) (snd x)"
  have "?Q L K fd msg tr (b, tr')"
  proof (rule send_loop.raw_induct [where P = ?Q, OF _ ret], intro impI)
    fix f L' K' fd' msg' tr x
    assume IH: "\<And>L' K' fd' msg' tr x. f L' K' fd' msg' tr = Some x \<Longrightarrow> ?Q L' K' fd' msg' tr x"
      and eq: "(let (ret, tr) = sendmsg K' fd' msg' (SEND_FLAGS L') tr in
        case ret of
          Inl err \<Rightarrow> if kind_of L' (Os err) \<noteq> Interrupted then Some (Err (Os err), tr)
                     else f L' K' fd' msg' tr
        | Inr n \<Rightarrow> Some (Ok n, tr)) = Some x"
      and [simp]: "L' = L" "K' = K" "fd' = fd" "msg' = msg"
    obtain r tr1 where s: "sendmsg K fd msg (SEND_FLAGS L) tr = (r, tr1)" by fastforce
    show "P tr (fst x) (snd x)"
    proof (cases "eintr L r")
      case True
      with eq s have "f L K fd msg tr1 = Some x" by (auto simp: eintr_def split: sum.splits)
      then show ?thesis using step [OF s True] IH by blast
    next
      case False
      with eq s have "x = (os_result r, tr1)" by (auto simp: eintr_def split: sum.splits)
      then show ?thesis using base [OF s False] by simp
    qed
  qed
  then show "P tr b tr'" by simp
qed

interpretation recv_retry: eintr_loop "\<lambda>tr. recvmsg K fd msg (RECV_FLAGS L OR fl) tr" "eintr L" os_result
  "recv_loop L K fd msg fl" for L K fd msg fl
proof unfold_locales
  fix tr r tr1
  assume "recvmsg K fd msg (RECV_FLAGS L OR fl) tr = (r, tr1)"
  then show "recv_loop L K fd msg fl tr =
      (if eintr L r then recv_loop L K fd msg fl tr1 else Some (os_result r, tr1))"
    by (subst recv_loop.simps) (simp add: eintr_def split: sum.split)
next
  fix tr b tr' P
  assume ret: "recv_loop L K fd msg fl tr = Some (b, tr')"
    and base: "\<And>tr r tr1. recvmsg K fd msg (RECV_FLAGS L OR fl) tr = (r, tr1) \<Longrightarrow> \<not> eintr L r
      \<Longrightarrow> P tr (os_result r) tr1"
    and step: "\<And>tr r tr1 b tr'. recvmsg K fd msg (RECV_FLAGS L OR fl) tr = (r, tr1) \<Longrightarrow> eintr L r
      \<Longrightarrow> P tr1 b tr' \<Longrightarrow> P tr b tr'"
  let ?Q = "\<lambda>L' K' fd' msg' fl' tr x.
    L' = L \<longrightarrow> K' = K \<longrightarrow> fd' = fd \<longrightarrow> msg' = msg \<longrightarrow> fl' = fl \<longrightarrow> P tr (fst x) (snd x)"
  have "?Q L K fd msg fl tr (b, tr')"
  proof (rule recv_loop.raw_induct [where P = ?Q, OF _ ret], intro impI)
    fix f L' K' fd' msg' fl' tr x
    assume IH: "\<And>L' K' fd' msg' fl' tr x. f L' K' fd' msg' fl' tr = Some x \<Longrightarrow> ?Q L' K' fd' msg' fl' tr x"
      and eq: "(let (ret, tr) = recvmsg K' fd' msg' (RECV_FLAGS L' OR fl') tr in
        case ret of
          Inl err \<Rightarrow> if kind_of L' (Os err) \<noteq> Interrupted then Some (Err (Os err), tr)
                     else f L' K' fd' msg' fl' tr
        | Inr reply \<Rightarrow> Some (Ok reply, tr)) = Some x"
      and [simp]: "L' = L" "K' = K" "fd' = fd" "msg' = msg" "fl' = fl"
    obtain r tr1 where s: "recvmsg K fd msg (RECV_FLAGS L OR fl) tr = (r, tr1)" by fastforce
    show "P tr (fst x) (snd x)"
    proof (cases "eintr L r")
      case True
      with eq s have "f L K fd msg fl tr1 = Some x" by (auto simp: eintr_def split: sum.splits)
      then show ?thesis using step [OF s True] IH by blast
    next
      case False
      with eq s have "x = (os_result r, tr1)" by (auto simp: eintr_def split: sum.splits)
      then show ?thesis using base [OF s False] by simp
    qed
  qed
  then show "P tr b tr'" by simp
qed

interpretation send_calls: syscall_loop "\<lambda>tr. sendmsg K fd msg (SEND_FLAGS L) tr" "eintr L" os_result
  "send_loop L K fd msg" "\<lambda>tr. sys_sendmsg K tr fd msg (SEND_FLAGS L)"
  "SysSendmsg fd msg (SEND_FLAGS L)" "Inl (EINTR L)" for L K fd msg
  by unfold_locales (simp_all add: sendmsg_def Let_def eintr_iff)

interpretation recv_calls: syscall_loop "\<lambda>tr. recvmsg K fd msg (RECV_FLAGS L OR fl) tr" "eintr L"
  os_result "recv_loop L K fd msg fl" "\<lambda>tr. sys_recvmsg K tr fd msg (RECV_FLAGS L OR fl)"
  "SysRecvmsg fd msg (RECV_FLAGS L OR fl)" "Inl (EINTR L)" for L K fd msg fl
  by unfold_locales (simp_all add: recvmsg_def Let_def eintr_iff)

section \<open>What the calls leave on the trace\<close>

lemma send_loop_trace:
  assumes "send_loop L K fd msg tr = Some (r, tr')"
  shows "\<exists>n q. tr' = tr @ replicate n (SysSendmsg fd msg (SEND_FLAGS L) (Inl (EINTR L)))
      @ [SysSendmsg fd msg (SEND_FLAGS L) q]
    \<and> q \<noteq> Inl (EINTR L) \<and> r = os_result q
    \<and> (\<exists>tr0. q = sys_sendmsg K tr0 fd msg (SEND_FLAGS L))"
  using assms unfolding send_calls.outcome_iff by blast

lemma recv_loop_trace:
  assumes "recv_loop L K fd msg fl tr = Some (r, tr')"
  shows "\<exists>n q. tr' = tr @ replicate n (SysRecvmsg fd msg (RECV_FLAGS L OR fl) (Inl (EINTR L)))
      @ [SysRecvmsg fd msg (RECV_FLAGS L OR fl) q]
    \<and> q \<noteq> Inl (EINTR L) \<and> r = os_result q
    \<and> (\<exists>tr0. q = sys_recvmsg K tr0 fd msg (RECV_FLAGS L OR fl))"
  using assms unfolding recv_calls.outcome_iff by blast

lemma neutral_replicate [simp]:
  "neutral L [e] \<Longrightarrow> neutral L (replicate n e)"
  by (induction n) auto

lemma sent_replicate_Inl [simp]: "sent (replicate n (SysSendmsg fd msg fl (Inl e))) = []"
  by (induction n) auto

text \<open>
  A send that returns handed the kernel one message, whose payload is what was accepted; a
  failed one handed it none; neither delivers nor closes a descriptor.
\<close>

lemma sendmsg_vectored_trace:
  assumes "sendmsg_vectored L K fd iov buf len tr = Some (r, tr')"
  shows "\<exists>ev. tr' = tr @ ev \<and> neutral L ev \<and> r \<noteq> Panic
    \<and> (send_contract K \<longrightarrow> (\<forall>n. r = Ok n \<longrightarrow> n \<le> length (concat iov)))
    \<and> sent ev = (case r of
        Ok n \<Rightarrow> [(take n (concat iov), control_bytes (send_header L iov buf len))] | _ \<Rightarrow> [])"
proof -
  obtain p tr1 where p: "prepare_send L K fd tr = (p, tr1)" by fastforce
  then obtain e1 where e1: "tr1 = tr @ e1" "neutral L e1" "sent e1 = []" "p \<noteq> Panic"
    using prepare_send_trace [of L K fd tr] by auto
  have iov: "s_iov (send_header L iov buf len) = iov"
    by (simp add: send_header_def Let_def)
  show ?thesis
  proof (cases p)
    case (Ok x)
    with p assms have "send_loop L K fd (send_header L iov buf len) tr1 = Some (r, tr')"
      by (simp add: sendmsg_vectored_def)
    from send_loop_trace [OF this] obtain n q tr0 where t: "tr' = tr1
        @ replicate n (SysSendmsg fd (send_header L iov buf len) (SEND_FLAGS L) (Inl (EINTR L)))
        @ [SysSendmsg fd (send_header L iov buf len) (SEND_FLAGS L) q]"
      and r: "r = os_result q"
      and q: "q = sys_sendmsg K tr0 fd (send_header L iov buf len) (SEND_FLAGS L)"
      by blast
    have "send_contract K \<longrightarrow> (\<forall>n. r = Ok n \<longrightarrow> n \<le> length (concat iov))"
      using send_contractD [of K tr0 fd "send_header L iov buf len" "SEND_FLAGS L"] q r iov
      by (auto simp: os_result_def split: sum.splits)
    with t r e1 show ?thesis
      by (intro exI [of _ "e1 @ drop (length tr1) tr'"])
        (cases q; auto simp: iov)
  next
    case (Err e)
    with p e1 assms show ?thesis by (auto simp: sendmsg_vectored_def)
  next
    case Panic
    with e1 show ?thesis by simp
  qed
qed

section \<open>Receiving owns what is delivered\<close>

text \<open>The crate on a system that keeps the documented contracts.\<close>

lemma recvmsg_raw_OkD:
  assumes "recvmsg_raw L K fd iov buf fl tr = Some (Ok res, iov', buf', tr')"
  shows "\<exists>reply. recv_loop L K fd (recv_header L iov buf) fl tr = Some (Ok reply, tr')
    \<and> res = recv_result_of L reply
    \<and> iov' = scatter iov (rr_data reply) \<and> buf' = overwrite buf (rr_control reply)"
proof -
  from assms obtain q tr1 where q: "recv_loop L K fd (recv_header L iov buf) fl tr = Some (q, tr1)"
    by (auto simp: recvmsg_raw_def bind_eq_Some_conv)
  with assms show ?thesis by (cases q) (auto simp: recvmsg_raw_def)
qed

lemma recvmsg_raw_failD:
  assumes "recvmsg_raw L K fd iov buf fl tr = Some (r, iov', buf', tr')" "\<forall>res. r \<noteq> Ok res"
  shows "iov' = iov \<and> buf' = buf \<and> (\<exists>q. recv_loop L K fd (recv_header L iov buf) fl tr = Some (q, tr')
    \<and> (\<forall>x. q \<noteq> Ok x) \<and> (\<forall>e. q = Err e \<longrightarrow> r = Err e))"
proof -
  from assms obtain q tr1 where q: "recv_loop L K fd (recv_header L iov buf) fl tr = Some (q, tr1)"
    by (auto simp: recvmsg_raw_def bind_eq_Some_conv)
  with assms show ?thesis by (cases q) (auto simp: recvmsg_raw_def)
qed

locale os_interface = libc_abi +
  fixes K :: kernel
  assumes recv_ok: "recv_contract K"
    and send_ok: "send_contract K"
begin

text \<open>A successful receive: interruptions, then the reply, which the caller's memory now holds.\<close>

lemma recvmsg_raw_reply:
  assumes "recvmsg_raw L K fd iov buf fl tr = Some (Ok res, iov', buf', tr')"
  shows "\<exists>reply n. tr' = tr @ replicate n (SysRecvmsg fd (recv_header L iov buf) (RECV_FLAGS L OR fl)
        (Inl (EINTR L))) @ [SysRecvmsg fd (recv_header L iov buf) (RECV_FLAGS L OR fl) (Inr reply)]
    \<and> res = recv_result_of L reply \<and> rr_ret reply = length (rr_data reply)
    \<and> length (rr_data reply) \<le> length (concat iov) \<and> iov' = scatter iov (rr_data reply)
    \<and> rr_controllen reply = length (rr_control reply) \<and> length (rr_control reply) \<le> length buf
    \<and> length buf' = length buf \<and> take (length (rr_control reply)) buf' = rr_control reply"
proof -
  from recvmsg_raw_OkD [OF assms] obtain reply where
    loop: "recv_loop L K fd (recv_header L iov buf) fl tr = Some (Ok reply, tr')"
    and r: "res = recv_result_of L reply"
    and mem: "iov' = scatter iov (rr_data reply)" "buf' = overwrite buf (rr_control reply)"
    by blast
  from recv_loop_trace [OF loop] obtain n q tr0 where
    t: "tr' = tr @ replicate n (SysRecvmsg fd (recv_header L iov buf) (RECV_FLAGS L OR fl)
        (Inl (EINTR L))) @ [SysRecvmsg fd (recv_header L iov buf) (RECV_FLAGS L OR fl) q]"
    and q: "Ok reply = os_result q"
      "q = sys_recvmsg K tr0 fd (recv_header L iov buf) (RECV_FLAGS L OR fl)"
    by blast
  from q have qr: "q = Inr reply" by (auto simp: os_result_def split: sum.splits)
  with q(2) have "sys_recvmsg K tr0 fd (recv_header L iov buf) (RECV_FLAGS L OR fl) = Inr reply"
    by simp
  note recv_contractD [OF recv_ok this]
  then have c: "rr_controllen reply = length (rr_control reply)"
    "rr_controllen reply \<le> length buf mod 2 ^ controllen_bits L"
    "rr_ret reply = length (rr_data reply)" "length (rr_data reply) \<le> length (concat iov)"
    by (simp_all add: recv_header_def)
  have "rr_controllen reply \<le> length buf"
    using c(2) mod_less_eq_dividend order_trans by blast
  with t qr r c mem show ?thesis
    by (intro exI [of _ reply] exI [of _ n]) (simp add: take_overwrite)
qed

lemma recvmsg_raw_Ok:
  assumes "recvmsg_raw L K fd iov buf fl tr = Some (Ok res, iov', buf', tr')"
  shows "\<exists>ev (reply :: recv_reply). tr' = tr @ ev \<and> closed ev = []
    \<and> delivered L ev = delivered_in L (rr_control reply)
    \<and> bytes_read res = length (rr_data reply) \<and> bytes_read res \<le> length (concat iov)
    \<and> ancillary_len res = length (rr_control reply) \<and> ancillary_len res \<le> length buf
    \<and> iov' = scatter iov (rr_data reply) \<and> take (ancillary_len res) buf' = rr_control reply
    \<and> length buf' = length buf
    \<and> ancillary_truncated res = (rr_flags reply AND MSG_CTRUNC L \<noteq> 0)
    \<and> data_truncated res = (rr_flags reply AND MSG_TRUNC L \<noteq> 0)"
proof -
  from recvmsg_raw_reply [OF assms] obtain reply n where
    t: "tr' = tr @ replicate n (SysRecvmsg fd (recv_header L iov buf) (RECV_FLAGS L OR fl)
        (Inl (EINTR L))) @ [SysRecvmsg fd (recv_header L iov buf) (RECV_FLAGS L OR fl) (Inr reply)]"
    and r: "res = recv_result_of L reply" "rr_ret reply = length (rr_data reply)"
      "length (rr_data reply) \<le> length (concat iov)" "iov' = scatter iov (rr_data reply)"
      "rr_controllen reply = length (rr_control reply)" "length (rr_control reply) \<le> length buf"
      "length buf' = length buf" "take (length (rr_control reply)) buf' = rr_control reply"
    by blast
  have "neutral L (replicate n (SysRecvmsg fd (recv_header L iov buf) (RECV_FLAGS L OR fl)
        (Inl (EINTR L))))" (is "neutral L ?p") by simp
  with t r show ?thesis
    by (intro exI [of _ "?p @ [SysRecvmsg fd (recv_header L iov buf) (RECV_FLAGS L OR fl) (Inr reply)]"]
        exI [of _ reply]) (simp add: neutral_def recv_result_of_def)
qed

lemma recvmsg_raw_other:
  assumes "recvmsg_raw L K fd iov buf fl tr = Some (r, iov', buf', tr')" "\<forall>res. r \<noteq> Ok res"
  shows "\<exists>ev. tr' = tr @ ev \<and> neutral L ev \<and> replies ev = [] \<and> iov' = iov \<and> buf' = buf
    \<and> (\<exists>e. r = Err (Os e) \<and> e \<noteq> EINTR L)"
proof -
  from recvmsg_raw_failD [OF assms] obtain q0 where
    loop: "recv_loop L K fd (recv_header L iov buf) fl tr = Some (q0, tr')"
    and q0: "\<forall>x. q0 \<noteq> Ok x" "\<forall>e. q0 = Err e \<longrightarrow> r = Err e"
    and mem: "iov' = iov" "buf' = buf"
    by blast
  from recv_loop_trace [OF loop] obtain n q tr0 where
    t: "tr' = tr @ replicate n (SysRecvmsg fd (recv_header L iov buf) (RECV_FLAGS L OR fl)
        (Inl (EINTR L))) @ [SysRecvmsg fd (recv_header L iov buf) (RECV_FLAGS L OR fl) q]"
    and q: "q \<noteq> Inl (EINTR L)" "q0 = os_result q"
    by blast
  from q(2) q0(1) obtain e where e: "q = Inl e" by (cases q) auto
  then have "r = Err (Os e)" using q(2) q0(2) by simp
  with t q(1) e mem show ?thesis by (intro exI conjI) auto
qed

end

interpretation linux64_loopback: os_interface linux64 "loopback linux64"
  by unfold_locales (simp_all add: reference_contracts)

interpretation linux64_interrupting: os_interface linux64 "interrupting linux64 n (loopback linux64)"
  for n
  by unfold_locales (simp_all add: reference_contracts)

interpretation linux64_short: os_interface linux64 "short_writes n (loopback linux64)" for n
  by unfold_locales (simp_all add: reference_contracts)

interpretation linux32be_loopback: os_interface linux32be "loopback linux32be"
  by unfold_locales (simp_all add: reference_contracts)

interpretation darwin64_loopback: os_interface darwin64 "loopback darwin64"
  by unfold_locales (simp_all add: reference_contracts)

fun fds_of :: "('e, 'a \<times> raw_fd list) result \<Rightarrow> raw_fd list" where
  "fds_of (Ok (x, fds)) = fds"
| "fds_of (Err e) = []"
| "fds_of Panic = []"

context os_interface begin

text \<open>
  What both receive layers do with a reply: close its pidfds, set close-on-exec on the rest. They
  own the rest, or close it all when that fails.
\<close>

lemma reply_accounts:
  assumes raw: "recvmsg_raw L K fd iov buf fl tr = Some (Ok res, iov1, buf1, tr1)"
    and ms: "ms = messages_in L (take (ancillary_len res) buf1)"
    and cl: "cloexec_fds L K (rights_in L ms) (drop_fds (pidfds_in L ms) tr1) = (cr, tr3)"
  shows "accounted L tr [] tr3 (rights_in L ms)"
    and "accounted L tr [] (drop_fds (rights_in L ms) tr3) []"
    and "cr \<noteq> Panic"
proof -
  from recvmsg_raw_Ok [OF raw] obtain ev and reply :: recv_reply where
    t: "tr1 = tr @ ev" "closed ev = []" "delivered L ev = delivered_in L (rr_control reply)"
      "take (ancillary_len res) buf1 = rr_control reply"
    by blast
  obtain ev' where ev': "tr3 = drop_fds (pidfds_in L ms) tr1 @ ev'" "neutral L ev'" "cr \<noteq> Panic"
    using cloexec_fds_trace [of L K "rights_in L ms" "drop_fds (pidfds_in L ms) tr1"] cl by auto
  have "accounted L tr [] tr1 (pidfds_in L ms @ rights_in L ms)"
    by (rule accounted_deliver [OF t(1,2)]) (simp add: t(3,4) ms delivered_in_def)
  also have "accounted L tr1 (pidfds_in L ms @ rights_in L ms) (drop_fds (pidfds_in L ms) tr1) (rights_in L ms)"
    by (rule accounted_drop)
  also have "accounted L (drop_fds (pidfds_in L ms) tr1) (rights_in L ms) tr3 (rights_in L ms)"
    unfolding ev'(1) by (rule accounted_neutral [OF ev'(2)])
  finally show a: "accounted L tr [] tr3 (rights_in L ms)" .
  show "accounted L tr [] (drop_fds (rights_in L ms) tr3) []"
    using accounted_trans [OF a accounted_drop [of L tr3 "rights_in L ms" "[]", simplified]] .
  show "cr \<noteq> Panic" by (rule ev'(3))
qed

lemma recv_fds_cases:
  assumes "recv_fds L K fd iov buf tr = Some (r, iov', tr')"
  shows "accounted L tr [] tr' (fds_of r) \<and> r \<noteq> Panic \<and> map length iov' = map length iov
    \<and> (\<forall>res fds. r = Ok (res, fds) \<longrightarrow> bytes_read res \<le> length (concat iov))"
proof -
  from assms obtain ret iov1 buf1 tr1 where
    raw: "recvmsg_raw L K fd iov buf 0 tr = Some (ret, iov1, buf1, tr1)"
    by (auto simp: recv_fds_def bind_eq_Some_conv)
  show ?thesis
  proof (cases "\<exists>res. ret = Ok res")
    case False
    then obtain ev e where o: "tr1 = tr @ ev" "neutral L ev" "iov1 = iov" "ret = Err (Os e)"
      using recvmsg_raw_other [OF raw] by blast
    with raw assms have "r = Err (Os e)" "iov' = iov" "tr' = tr @ ev"
      by (simp_all add: recv_fds_def)
    then show ?thesis using accounted_neutral [OF o(2), of tr "[]"] by simp
  next
    case True
    then obtain res where ret: "ret = Ok res" by blast
    note b = recvmsg_raw_Ok [OF raw [unfolded ret]]
    define ms where "ms = messages_in L (take (ancillary_len res) buf1)"
    obtain cr tr3 where cl: "cloexec_fds L K (rights_in L ms) (drop_fds (pidfds_in L ms) tr1) = (cr, tr3)"
      by fastforce
    note a = reply_accounts [OF raw [unfolded ret] ms_def cl]
    show ?thesis
      using assms raw ret b cl a
      by (cases cr) (auto simp: recv_fds_def slice_def take_fds_eq ms_def)
  qed
qed

lemma recv_fds_owning:
  "owning_op L (\<lambda>tr. map_option (\<lambda>(r, iov', tr'). (r, tr')) (recv_fds L K fd iov buf tr)) fds_of"
  by unfold_locales (auto dest: recv_fds_cases)

end

text \<open>
  \<^verbatim>\<open>recv_fds\<close> is an owning operation on every system that keeps the contracts; on the
  reference kernel without further assumptions.
\<close>

interpretation loopback_recv_fds: owning_op linux64
  "\<lambda>tr. map_option (\<lambda>(r, iov', tr'). (r, tr'))
     (recv_fds linux64 (loopback linux64) fd iov buf tr)" fds_of
  for fd iov buf
  by (rule linux64_loopback.recv_fds_owning)

end
