(* ===== verification/Builder.thy ===== *)
theory Builder
  imports Wire
begin

text \<open>
  Building a send in a \<open>socket_ancillary\<close>: exact success conditions of \<open>reserve_cmsg\<close>,
  \<open>add_rights\<close> and \<open>add_credentials\<close>, atomicity on error, the invariant that the used part
  of the buffer is the encoding of the messages added, and what parsing it gives back.
\<close>

definition rights_message :: "libc \<Rightarrow> raw_fd list \<Rightarrow> raw_message" where
  "rights_message L fds = \<lparr> m_level = SOL_SOCKET L, m_kind = SCM_RIGHTS L,
     m_data = concat (map (to_ne_bytes (big_endian L)) fds) \<rparr>"

definition credentials_message :: "libc \<Rightarrow> scm_credentials \<Rightarrow> raw_message" where
  "credentials_message L c = \<lparr> m_level = SOL_SOCKET L, m_kind = SCM_CREDENTIALS L,
     m_data = ucred_bytes (big_endian L) (to_ucred c) \<rparr>"

lemma length_rights_data [simp]: "length (m_data (rights_message L fds)) = 4 * length fds"
  by (simp add: rights_message_def fd_codec.length_concat_enc)

lemma length_credentials_data [simp]: "length (m_data (credentials_message L c)) = ucred_SIZE"
  by (simp add: credentials_message_def)

lemma rights_of_rights_message:
  "rights L (rights_message L fds) = filter (\<lambda>fd. 0 \<le> sint fd) fds"
  using fd_codec.decode_array [of "[]" "big_endian L" fds]
  by (simp add: rights_def rights_message_def)

text \<open>A descriptor message cut after \<open>n\<close> payload bytes yields the descriptors that fit.\<close>

lemma rights_of_cut_message:
  "rights L ((rights_message L fds)\<lparr>m_data := take n (m_data (rights_message L fds))\<rparr>)
     = filter (\<lambda>fd. 0 \<le> sint fd) (take (n div 4) fds)"
  using fd_codec.decode_array_cut [of "big_endian L" n fds]
  by (simp add: rights_def rights_message_def)

lemma credentials_of_credentials_message:
  "credentials_of L (credentials_message L c) = Some c"
  using ucred_codec.dec_enc [of "big_endian L" "to_ucred c"]
  by (simp add: credentials_of_def credentials_message_def ucred_SIZE_def)

section \<open>One reservation\<close>

text \<open>The used length lies inside the buffer: what every operation relies on and keeps.\<close>

definition anc_wf :: "libc \<Rightarrow> socket_ancillary \<Rightarrow> bool" where
  "anc_wf L a \<longleftrightarrow> anc_length a \<le> length (buffer a) \<and> length (buffer a) < 2 ^ usize_bits L"

text \<open>The bytes a send would hand to the kernel.\<close>

definition used :: "socket_ancillary \<Rightarrow> byte list" where
  "used a = take (anc_length a) (buffer a)"

definition fits :: "libc \<Rightarrow> socket_ancillary \<Rightarrow> nat \<Rightarrow> bool" where
  "fits L a n = (case cmsg_space L n of
     None \<Rightarrow> False | Some s \<Rightarrow> anc_length a + s \<le> length (buffer a))"

text \<open>Writing message \<open>m\<close> at the end of the used part.\<close>

definition push_cmsg :: "libc \<Rightarrow> raw_message \<Rightarrow> socket_ancillary \<Rightarrow> socket_ancillary" where
  "push_cmsg L m a =
     a\<lparr>anc_length := anc_length a + length (encode_cmsg L m),
       buffer := patch (buffer a) (anc_length a) (encode_cmsg L m)\<rparr>"

lemma fill_fds_patch:
  "i + 4 * length fds \<le> j \<Longrightarrow> j \<le> length buf \<Longrightarrow>
     fill_fds be buf i j fds = patch buf i (concat (map (to_ne_bytes be) fds))"
proof (induction fds arbitrary: i buf)
  case Nil
  then show ?case by (simp add: patch_def)
next
  case (Cons fd fds)
  let ?r = "concat (map (to_ne_bytes be) fds)"
  have l: "length ?r = 4 * length fds" by (simp add: fd_codec.length_concat_enc)
  have "patch (patch buf i (to_ne_bytes be fd)) (i + 4) ?r
      = patch buf i (to_ne_bytes be fd @ ?r)"
    using Cons.prems patch_adjacent [of i "to_ne_bytes be fd" buf ?r] by simp
  with Cons show ?case by (simp add: byte_simps)
qed

context libc_abi begin

text \<open>
  \<^verbatim>\<open>reserve_cmsg\<close> succeeds exactly when the buffer is not in receive mode and the message
  fits; it then returns the payload's place in the new message, and otherwise changes nothing.
\<close>

lemma reserve_cmsg_cases:
  assumes wf: "anc_wf L a"
  shows "reserve_cmsg L level k n a =
    (if receive_mode a \<or> \<not> fits L a n then (Err AncillaryError, a)
     else let s = the (cmsg_space L n) in
       (Ok (anc_length a + header_len L, anc_length a + (header_len L + n)),
        a\<lparr>anc_length := anc_length a + s,
          buffer := patch (buffer a) (anc_length a)
            (write_header L level k (header_len L + n) (replicate s 0))\<rparr>))"
proof (cases "receive_mode a \<or> \<not> fits L a n")
  case True
  then show ?thesis
    by (auto simp: reserve_cmsg_def fits_def checked_add_def split: option.splits)
next
  case False
  then obtain s where s: "cmsg_space L n = Some s"
    and fit: "anc_length a + s \<le> length (buffer a)" and r: "\<not> receive_mode a"
    by (auto simp: fits_def split: option.splits)
  note bounds = cmsg_space_bounds [OF s]
  have "checked_add (usize_bits L) (anc_length a) s = Some (anc_length a + s)"
    using fit wf by (simp add: checked_add_def anc_wf_def)
  moreover have "checked_add (usize_bits L) (header_len L) n = Some (header_len L + n)"
    using bounds usize_lower by (simp add: checked_add_def)
  moreover have "header_len L + n < 256 ^ len_size L"
    using bounds len_field_lower by linarith
  moreover have "length (write_header L level k (header_len L + n) (replicate s 0)) = s"
    using bounds cmsghdr_le_header by (simp add: length_write_header)
  ultimately show ?thesis
    using False s fit r bounds
    by (simp add: reserve_cmsg_def slice_def Let_def add.assoc)
qed

lemma length_encode_cmsg:
  assumes "cmsg_space L (length (m_data m)) = Some s"
  shows "length (encode_cmsg L m) = s"
  using cmsg_space_bounds(1) [OF assms] cmsghdr_le_header
  by (simp add: encode_cmsg_def assms length_patch length_write_header)

text \<open>A header written in place and then its payload: the encoding, written in place.\<close>

lemma patch_encode_cmsg:
  assumes s: "cmsg_space L (length (m_data m)) = Some s" and fit: "p + s \<le> length xs"
  shows "patch (patch xs p (write_header L (m_level m) (m_kind m)
      (header_len L + length (m_data m)) (replicate s 0))) (p + header_len L) (m_data m)
    = patch xs p (encode_cmsg L m)"
proof -
  have "length (write_header L (m_level m) (m_kind m) (header_len L + length (m_data m))
      (replicate s 0)) = s"
    using cmsg_space_bounds(1) [OF s] cmsghdr_le_header by (simp add: length_write_header)
  then show ?thesis
    using fit cmsg_space_bounds(1) [OF s] by (simp add: encode_cmsg_def s patch_inside)
qed

text \<open>The three ways a call of \<^verbatim>\<open>add_rights\<close> ends.\<close>

lemma add_rights_cases:
  assumes wf: "anc_wf L a"
  shows "add_rights L fds a =
    (if receive_mode a then (Err AncillaryError, a)
     else if fds = [] then (Ok (), a)
     else if fits L a (4 * length fds) then (Ok (), push_cmsg L (rights_message L fds) a)
     else (Err AncillaryError, a))"
proof (cases "receive_mode a \<or> fds = [] \<or> \<not> fits L a (4 * length fds)")
  case True
  then show ?thesis
    using wf by (auto simp: add_rights_def reserve_cmsg_cases checked_mul_def mult.commute
        split: option.splits)
next
  case False
  let ?m = "rights_message L fds"
  from False obtain s where s: "cmsg_space L (4 * length fds) = Some s"
    and fit: "anc_length a + s \<le> length (buffer a)"
    by (auto simp: fits_def split: option.splits)
  note bounds = cmsg_space_bounds [OF s]
  let ?h = "write_header L (SOL_SOCKET L) (SCM_RIGHTS L) (header_len L + 4 * length fds) (replicate s 0)"
  have m: "m_level ?m = SOL_SOCKET L" "m_kind ?m = SCM_RIGHTS L"
    "m_data ?m = concat (map (to_ne_bytes (big_endian L)) fds)"
    by (simp_all add: rights_message_def)
  have mul: "checked_mul (usize_bits L) (length fds) 4 = Some (4 * length fds)"
    using bounds usize_lower by (simp add: checked_mul_def)
  have h: "length ?h = s" using bounds cmsghdr_le_header by (simp add: length_write_header)
  have "fill_fds (big_endian L) (patch (buffer a) (anc_length a) ?h) (anc_length a + header_len L)
      (anc_length a + (header_len L + 4 * length fds)) fds
    = patch (patch (buffer a) (anc_length a) ?h) (anc_length a + header_len L) (m_data ?m)"
    using fit bounds h by (simp add: fill_fds_patch length_patch m(3))
  also have "\<dots> = patch (buffer a) (anc_length a) (encode_cmsg L ?m)"
    using patch_encode_cmsg [of ?m s "anc_length a" "buffer a"] s fit m(1,2) by simp
  finally show ?thesis
    using False wf s mul length_encode_cmsg [of ?m s]
    by (simp add: add_rights_def reserve_cmsg_cases push_cmsg_def Let_def)
qed

lemma add_credentials_cases:
  assumes wf: "anc_wf L a"
  shows "add_credentials L c a =
    (if receive_mode a \<or> \<not> fits L a ucred_SIZE then (Err AncillaryError, a)
     else (Ok (), push_cmsg L (credentials_message L c) a))"
proof (cases "receive_mode a \<or> \<not> fits L a ucred_SIZE")
  case True
  then show ?thesis using wf by (auto simp: add_credentials_def reserve_cmsg_cases)
next
  case False
  let ?m = "credentials_message L c"
  from False obtain s where s: "cmsg_space L ucred_SIZE = Some s"
    and fit: "anc_length a + s \<le> length (buffer a)"
    by (auto simp: fits_def split: option.splits)
  have m: "m_level ?m = SOL_SOCKET L" "m_kind ?m = SCM_CREDENTIALS L"
    "ucred_bytes (big_endian L) (to_ucred c) = m_data ?m"
    by (simp_all add: credentials_message_def)
  show ?thesis
    using False wf s fit m(1,2) length_encode_cmsg [of ?m s]
      patch_encode_cmsg [of ?m s "anc_length a" "buffer a"]
    by (simp add: add_credentials_def reserve_cmsg_cases push_cmsg_def m(3) Let_def)
qed

section \<open>The builder invariant\<close>

lemma used_push:
  assumes "fits L a (length (m_data m))"
  shows "used (push_cmsg L m a) = used a @ encode_cmsg L m"
    and "length (buffer (push_cmsg L m a)) = length (buffer a)"
    and "drop (anc_length (push_cmsg L m a)) (buffer (push_cmsg L m a))
      = drop (anc_length (push_cmsg L m a)) (buffer a)"
proof -
  from assms obtain s where s: "cmsg_space L (length (m_data m)) = Some s"
    and fit: "anc_length a + s \<le> length (buffer a)"
    by (auto simp: fits_def split: option.splits)
  note e = length_encode_cmsg [OF s]
  show "used (push_cmsg L m a) = used a @ encode_cmsg L m"
    using fit e by (simp add: used_def push_cmsg_def patch_def)
  show "length (buffer (push_cmsg L m a)) = length (buffer a)"
    using fit e by (simp add: push_cmsg_def byte_simps)
  show "drop (anc_length (push_cmsg L m a)) (buffer (push_cmsg L m a))
      = drop (anc_length (push_cmsg L m a)) (buffer a)"
    using fit e by (simp add: push_cmsg_def byte_simps)
qed

lemma push_wf:
  assumes "anc_wf L a" "fits L a (length (m_data m))"
  shows "anc_wf L (push_cmsg L m a)"
proof -
  from assms(2) obtain s where s: "cmsg_space L (length (m_data m)) = Some s"
    and fit: "anc_length a + s \<le> length (buffer a)"
    by (auto simp: fits_def split: option.splits)
  then show ?thesis
    using assms used_push(2) [OF assms(2)] length_encode_cmsg [OF s]
    by (simp add: anc_wf_def push_cmsg_def)
qed

end

section \<open>Sequences of additions\<close>

datatype addition = AddFds "raw_fd list" | AddCredentials scm_credentials

fun apply_addition ::
  "libc \<Rightarrow> addition \<Rightarrow> socket_ancillary \<Rightarrow> (ancillary_error, unit) result \<times> socket_ancillary" where
  "apply_addition L (AddFds fds) a = add_fds L fds a"
| "apply_addition L (AddCredentials c) a = add_credentials L c a"

text \<open>A client that stops at the first error, as \<^verbatim>\<open>?\<close> does.\<close>

fun build :: "libc \<Rightarrow> addition list \<Rightarrow> socket_ancillary
     \<Rightarrow> (ancillary_error, unit) result \<times> socket_ancillary" where
  "build L [] a = (Ok (), a)"
| "build L (x # xs) a =
     (case apply_addition L x a of
        (Ok _, a) \<Rightarrow> build L xs a
      | (Err e, a) \<Rightarrow> (Err e, a)
      | (Panic, a) \<Rightarrow> (Panic, a))"

text \<open>The messages an addition puts on the wire: an empty descriptor list writes none.\<close>

fun addition_messages :: "libc \<Rightarrow> addition \<Rightarrow> raw_message list" where
  "addition_messages L (AddFds fds) = (if fds = [] then [] else [rights_message L fds])"
| "addition_messages L (AddCredentials c) = [credentials_message L c]"

definition added_messages :: "libc \<Rightarrow> addition list \<Rightarrow> raw_message list" where
  "added_messages L xs = concat (map (addition_messages L) xs)"

lemma added_messages_simps [simp]:
  "added_messages L [] = []"
  "added_messages L (x # xs) = addition_messages L x @ added_messages L xs"
  by (simp_all add: added_messages_def)

text \<open>An addition is refused in receive mode or when a message of it does not fit.\<close>

definition refused :: "libc \<Rightarrow> addition \<Rightarrow> socket_ancillary \<Rightarrow> bool" where
  "refused L x a \<longleftrightarrow> receive_mode a \<or> (\<exists>m\<in>set (addition_messages L x). \<not> fits L a (length (m_data m)))"

context libc_abi begin

lemma fits_payload: "fits L a n \<Longrightarrow> n \<le> max_payload"
  by (auto simp: fits_def cmsg_space_eq split: option.splits if_splits)

lemma apply_addition_cases:
  assumes "anc_wf L a"
  shows "(apply_addition L x a = (Err AncillaryError, a))
    \<or> (apply_addition L x a = (Ok (), a) \<and> addition_messages L x = [])
    \<or> (\<exists>m. addition_messages L x = [m] \<and> fits L a (length (m_data m))
         \<and> apply_addition L x a = (Ok (), push_cmsg L m a))"
  using assms
  by (cases x) (auto simp: add_fds_def add_rights_cases add_credentials_cases)

text \<open>An addition as one equation: refused without a change, or its messages pushed.\<close>

lemma addition_eq:
  assumes "anc_wf L a"
  shows "apply_addition L x a =
    (if refused L x a then (Err AncillaryError, a) else (Ok (), fold (push_cmsg L) (addition_messages L x) a))"
  using assms
  by (cases x) (auto simp: refused_def add_fds_def add_rights_cases add_credentials_cases)

lemma push_messages:
  assumes "anc_wf L a" "\<not> refused L x a"
  shows "anc_wf L (fold (push_cmsg L) (addition_messages L x) a)
    \<and> length (buffer (fold (push_cmsg L) (addition_messages L x) a)) = length (buffer a)
    \<and> used (fold (push_cmsg L) (addition_messages L x) a)
      = used a @ concat (map (encode_cmsg L) (addition_messages L x))"
  using assms by (cases x) (auto simp: refused_def used_push push_wf split: if_splits)

text \<open>
  Whatever happens, the used bytes are the encodings of the messages that were added, in
  order: all of them on success, a prefix when an addition failed.
\<close>

lemma build_invariant:
  assumes "anc_wf L a" "used a = concat (map (encode_cmsg L) ms)"
    and "\<forall>m\<in>set ms. length (m_data m) \<le> max_payload"
    and "build L xs a = (r, a')"
  shows "\<exists>ys. used a' = concat (map (encode_cmsg L) (ms @ added_messages L ys))
    \<and> (\<forall>m\<in>set (ms @ added_messages L ys). length (m_data m) \<le> max_payload)
    \<and> anc_wf L a' \<and> (r = Ok () \<and> ys = xs \<or> r = Err AncillaryError \<and> (\<exists>zs. xs = ys @ zs))"
  using assms
proof (induction xs arbitrary: a ms)
  case Nil
  then show ?case by (intro exI [of _ "[]"]) auto
next
  case (Cons x xs)
  from apply_addition_cases [OF Cons.prems(1), of x] consider
      (err) "apply_addition L x a = (Err AncillaryError, a)"
    | (same) "apply_addition L x a = (Ok (), a)" "addition_messages L x = []"
    | (push) m where "addition_messages L x = [m]" "fits L a (length (m_data m))"
        "apply_addition L x a = (Ok (), push_cmsg L m a)"
    by blast
  then show ?case
  proof cases
    case err
    with Cons.prems show ?thesis by (intro exI [of _ "[]"]) auto
  next
    case same
    with Cons.prems Cons.IH [of a ms] obtain ys where
      "used a' = concat (map (encode_cmsg L) (ms @ added_messages L ys))"
      "\<forall>m\<in>set (ms @ added_messages L ys). length (m_data m) \<le> max_payload"
      "anc_wf L a'" "r = Ok () \<and> ys = xs \<or> r = Err AncillaryError \<and> (\<exists>zs. xs = ys @ zs)"
      by auto
    with same show ?thesis by (intro exI [of _ "x # ys"]) auto
  next
    case (push m)
    have "used (push_cmsg L m a) = concat (map (encode_cmsg L) (ms @ [m]))"
      using used_push(1) [OF push(2)] Cons.prems(2) by simp
    moreover have "\<forall>m\<in>set (ms @ [m]). length (m_data m) \<le> max_payload"
      using Cons.prems(3) fits_payload [OF push(2)] by simp
    moreover have "build L xs (push_cmsg L m a) = (r, a')"
      using Cons.prems(4) push(3) by simp
    ultimately obtain ys where
      "used a' = concat (map (encode_cmsg L) ((ms @ [m]) @ added_messages L ys))"
      "\<forall>m'\<in>set ((ms @ [m]) @ added_messages L ys). length (m_data m') \<le> max_payload"
      "anc_wf L a'" "r = Ok () \<and> ys = xs \<or> r = Err AncillaryError \<and> (\<exists>zs. xs = ys @ zs)"
      using Cons.IH [OF push_wf [OF Cons.prems(1) push(2)]] by blast
    with push(1) show ?thesis by (intro exI [of _ "x # ys"]) auto
  qed
qed

lemma build_keeps:
  "build L xs a = (r, a') \<Longrightarrow> anc_wf L a
    \<Longrightarrow> receive_mode a' = receive_mode a \<and> length (buffer a') = length (buffer a)"
proof (induction xs arbitrary: a)
  case (Cons x xs)
  from apply_addition_cases [OF Cons.prems(2), of x] consider
      (err) "apply_addition L x a = (Err AncillaryError, a)"
    | (none) "apply_addition L x a = (Ok (), a)"
    | (push) m where "fits L a (length (m_data m))" "apply_addition L x a = (Ok (), push_cmsg L m a)"
    by blast
  then show ?case
  proof cases
    case push
    then have "receive_mode a' = receive_mode (push_cmsg L m a)
        \<and> length (buffer a') = length (buffer (push_cmsg L m a))"
      using Cons.prems Cons.IH [of "push_cmsg L m a"] push_wf [of a m] by simp
    moreover have "length (buffer (push_cmsg L m a)) = length (buffer a)"
      by (rule used_push(2)) (rule push(1))
    ultimately show ?thesis by (simp add: push_cmsg_def)
  qed (use Cons in auto)
qed simp

end

lemma new_ancillary_wf:
  "length buf < 2 ^ usize_bits L \<Longrightarrow> anc_wf L (new_ancillary buf)"
  by (simp add: anc_wf_def new_ancillary_def)

lemma used_new [simp]: "used (new_ancillary buf) = []"
  by (simp add: used_def new_ancillary_def)

end
