(* ===== verification/Roundtrip.thy ===== *)
theory Roundtrip
  imports Builder Ownership
begin

text \<open>
  Parsing and building as the crate's users see them: the parser is total on any bytes, it
  recovers the messages of a buffer a kernel laid out, cut ones included, and what the
  builder wrote; the flat and the structured receive own the same descriptors.
\<close>

section \<open>Parsing\<close>

context libc_abi begin

lemma message_kinds [simp]:
  "is_rights L (rights_message L fds)" "\<not> is_rights L (credentials_message L c)"
  "\<not> is_pidfd L (rights_message L fds)" "\<not> is_pidfd L (credentials_message L c)"
  using rights_not_pidfd credentials_not_pidfd rights_not_credentials
  by (simp_all add: is_rights_def is_pidfd_def rights_message_def credentials_message_def
      SCM_PIDFD_def eq_commute)

lemma fuzz_parse_eq: "fuzz_parse L bs = Some (Ok (), length (messages_in L bs))"
proof -
  have "fold (\<lambda>m n. n + 1) ms n = n + length ms" for ms :: "raw_message list" and n :: nat
    by (induction ms arbitrary: n) auto
  moreover have "for_messages L (fuzz_message L) bs 0 = Some (Ok (), fold (\<lambda>m n. n + 1) (messages_in L bs) 0)"
    by (rule for_messages_fold)
      (simp add: fuzz_message_def rights_count_def list_all_iff chunks_exact_lengths credentials_eq)
  ultimately show ?thesis by (simp add: fuzz_parse_def)
qed

lemma cut_rights_message:
  assumes "4 * length fds \<le> max_payload" "n \<le> 4 * length fds"
  shows "is_cut_cmsg L ((rights_message L fds)\<lparr>m_data := take n (m_data (rights_message L fds))\<rparr>)
    (take (header_len L + n) (encode_cmsg L (rights_message L fds)))"
proof -
  let ?m = "rights_message L fds" let ?e = "encode_cmsg L ?m"
  let ?b = "take (header_len L + n) ?e"
  have c: "is_cmsg L ?m ?e" using assms(1) encode_is_cmsg [of ?m] by simp
  then have len: "header_len L + 4 * length fds \<le> length ?e"
    using cmsg_space_bounds(1) by (simp add: is_cmsg_def)
  have b: "?b @ drop (header_len L + n) ?e = ?e" by simp
  have hdr: "cmsghdr_size L \<le> length ?b" using len assms(2) cmsghdr_le_header by simp
  note r = read_append [OF hdr, of "drop (header_len L + n) ?e", unfolded b]
  have "sub ?b (header_len L) n = take n (sub ?e (header_len L) (4 * length fds))"
    using assms(2) by (simp add: sub_def drop_take min_def)
  then have d: "sub ?b (header_len L) n = take n (m_data ?m)" using c by (simp add: is_cmsg_def)
  have l: "length ?b = header_len L + n" "read_len L ?b = header_len L + 4 * length fds"
    using len assms(2) r(1) c by (simp_all add: is_cmsg_def)
  have "\<forall>s. cmsg_space L n = Some s \<longrightarrow> length ?b \<le> s"
    unfolding l(1) using cmsg_space_bounds(1) by blast
  then show ?thesis
    using d l assms(2) r(2,3) c by (simp add: is_cut_cmsg_def is_cmsg_def min_def)
qed

lemma parse_cut:
  assumes "4 * length fds \<le> max_payload" "n \<le> 4 * length fds"
  shows "take_fds L (take (header_len L + n) (encode_cmsg L (rights_message L fds))) tr
      = Some (Ok (filter (\<lambda>fd. 0 \<le> sint fd) (take (n div 4) fds)), tr)"
    and "take_received_into L (take (header_len L + n) (encode_cmsg L (rights_message L fds))) rs tr
      = Some (Ok (), rs @ [Rights (filter (\<lambda>fd. 0 \<le> sint fd) (take (n div 4) fds))], tr)"
proof -
  let ?m = "(rights_message L fds)\<lparr>m_data := take n (m_data (rights_message L fds))\<rparr>"
  have m: "messages_in L (take (header_len L + n) (encode_cmsg L (rights_message L fds))) = [?m]"
    by (rule wire_parse [OF wire_cut [OF cut_rights_message [OF assms]]])
  have k: "is_rights L ?m" "\<not> is_pidfd L ?m" "credentials_of L ?m = None"
    using rights_not_pidfd rights_not_credentials
    by (auto simp: is_rights_def is_pidfd_def credentials_of_def rights_message_def SCM_PIDFD_def)
  show "take_fds L (take (header_len L + n) (encode_cmsg L (rights_message L fds))) tr
      = Some (Ok (filter (\<lambda>fd. 0 \<le> sint fd) (take (n div 4) fds)), tr)"
    using m k by (simp add: take_fds_eq rights_of_cut_message)
  show "take_received_into L (take (header_len L + n) (encode_cmsg L (rights_message L fds))) rs tr
      = Some (Ok (), rs @ [Rights (filter (\<lambda>fd. 0 \<le> sint fd) (take (n div 4) fds))], tr)"
    using m k by (simp add: take_received_into_eq rights_of_cut_message received_of_def)
qed

end

context libc_abi begin

lemma fuzz_offsets_Ok:
  "\<forall>i\<in>set offsets. i \<le> length data \<Longrightarrow> fuzz_offsets L data offsets = Some (Ok ())"
  by (induction offsets) (simp_all add: slice_def fuzz_parse_eq)

end

text \<open>
  C17: On any bytes whatever the parser behind every receive returns: it does not panic, it
  does not loop, its raw reads stay inside the bytes, and it yields at most one message per
  header-sized piece of the buffer. The fuzz target, which runs it at every alignment and on every
  message counts the descriptors and reads the credentials, never crashes.
\<close>
theorem fuzz_parse_total:
  assumes "libc_abi L"
  shows "(\<exists>n. fuzz_parse L buf = Some (Ok (), n) \<and> n * header_len L \<le> length buf)
    \<and> fuzz_target L buf = Some (Ok ())"
proof
  show "\<exists>n. fuzz_parse L buf = Some (Ok (), n) \<and> n * header_len L \<le> length buf"
    using libc_abi.fuzz_parse_eq [OF assms] libc_abi.messages_in_bound [OF assms] by blast
  show "fuzz_target L buf = Some (Ok ())"
    unfolding fuzz_target_def by (rule libc_abi.fuzz_offsets_Ok [OF assms]) auto
qed

theorem fuzz_parse_total_witness:
  "\<exists>n. fuzz_parse darwin64 [20, 0, 0, 0, 255, 255, 0, 0, 1, 0, 0, 0, 7, 0] = Some (Ok (), n)
     \<and> n * header_len darwin64 \<le> 14"
  using fuzz_parse_total [OF darwin64.libc_abi_axioms,
      of "[20, 0, 0, 0, 255, 255, 0, 0, 1, 0, 0, 0, 7, 0]", THEN conjunct1]
  by (simp add: eval_nat_numeral)

text \<open>
  C8: Parsing recovers exactly the messages of every buffer a kernel lays out, including a
  last message that lacks its padding or whose payload was cut short of the length its header
  announces: the structured receive appends their contents in order and closes the
  descriptors of the messages it does not hand out.
\<close>
theorem wire_roundtrip:
  assumes "libc_abi L" and "wire L ms bs"
  shows "take_received_into L bs rs tr
      = Some (Ok (), rs @ concat (map (received_of L) ms), drop_fds (pidfds_in L ms) tr)
    \<and> take_fds L bs tr = Some (Ok (rights_in L ms), drop_fds (pidfds_in L ms) tr)
    \<and> fuzz_parse L bs = Some (Ok (), length ms)"
  by (simp add: libc_abi.take_received_into_eq [OF assms(1)] libc_abi.take_fds_eq [OF assms(1)]
      libc_abi.fuzz_parse_eq [OF assms(1)] libc_abi.wire_parse [OF assms])

theorem wire_roundtrip_witness:
  "take_fds linux64 (encode_cmsg linux64 (rights_message linux64 [3, 4])) []
     = Some (Ok [3, 4], [])"
proof -
  let ?m = "rights_message linux64 [3, 4]"
  have "is_cmsg linux64 ?m (encode_cmsg linux64 ?m)"
    by (rule linux64.encode_is_cmsg) (simp add: max_payload_def)
  then have "wire linux64 [?m] (encode_cmsg linux64 ?m)"
    using linux64.wire_concat [of "[?m]" "[encode_cmsg linux64 ?m]"] by simp
  note wire_roundtrip [OF linux64.libc_abi_axioms this, THEN conjunct2, THEN conjunct1, of "[]"]
  then show ?thesis by (simp add: rights_of_rights_message)
qed

text \<open>
  C31: When a kernel cuts a descriptor message after \<open>n\<close> payload bytes but leaves the full length
  in its header, as Darwin does, exactly the descriptors whose four bytes arrived are owned.
\<close>
theorem cut_message_owned:
  assumes "libc_abi L" and "4 * length fds \<le> max_payload" "n \<le> 4 * length fds"
  shows "take_fds L (take (header_len L + n) (encode_cmsg L (rights_message L fds))) tr
    = Some (Ok (filter (\<lambda>fd. 0 \<le> sint fd) (take (n div 4) fds)), tr)"
  by (rule libc_abi.parse_cut(1) [OF assms])

theorem cut_message_owned_witness:
  "take_fds darwin64 (take (header_len darwin64 + 10)
     (encode_cmsg darwin64 (rights_message darwin64 [5, 6, 7]))) [] = Some (Ok [5, 6], [])"
  using cut_message_owned [OF darwin64.libc_abi_axioms, of "[5, 6, 7]" 10 "[]"]
  by (simp add: max_payload_def)

section \<open>The flat and the structured receive\<close>

text \<open>
  C36: The flat receive of the convenience layer and the structured one of the low-level layer
  own the same descriptors of any buffer, in the same order, and close the same others; the
  first counting pass gives exactly the number of descriptors the second one owns.
\<close>
theorem flat_structured_agree:
  assumes "libc_abi L"
  shows "\<exists>fds ms tr'. take_fds L bs tr = Some (Ok fds, tr')
    \<and> take_received_into L bs [] tr = Some (Ok (), ms, tr')
    \<and> owned_fds ms = fds \<and> take_fds_count L bs = Some (Ok (), length fds)"
  by (simp add: libc_abi.take_fds_eq [OF assms] libc_abi.take_received_into_eq [OF assms]
      libc_abi.take_fds_count_eq [OF assms])

theorem flat_structured_agree_witness:
  "\<exists>fds ms tr'. take_fds linux32be [0, 0, 0, 16, 0, 0, 0, 1, 0, 0, 0, 1, 0, 0, 0, 9] [] = Some (Ok fds, tr')
    \<and> take_received_into linux32be [0, 0, 0, 16, 0, 0, 0, 1, 0, 0, 0, 1, 0, 0, 0, 9] [] []
        = Some (Ok (), ms, tr')
    \<and> owned_fds ms = fds
    \<and> take_fds_count linux32be [0, 0, 0, 16, 0, 0, 0, 1, 0, 0, 0, 1, 0, 0, 0, 9]
        = Some (Ok (), length fds)"
  by (rule flat_structured_agree [OF linux32be.libc_abi_axioms])

section \<open>Building\<close>

text \<open>What a receiver gets of an addition.\<close>

fun addition_received :: "addition \<Rightarrow> received_message list" where
  "addition_received (AddFds fds) = (if fds = [] then [] else [Rights fds])"
| "addition_received (AddCredentials c) = [Credentials c]"

fun addition_valid :: "addition \<Rightarrow> bool" where
  "addition_valid (AddFds fds) \<longleftrightarrow> list_all (\<lambda>fd. 0 \<le> sint fd) fds"
| "addition_valid (AddCredentials c) \<longleftrightarrow> True"

context libc_abi begin

lemma received_rights_message:
  "received_of L (rights_message L fds) = [Rights (filter (\<lambda>fd. 0 \<le> sint fd) fds)]"
proof -
  have "credentials_of L (rights_message L fds) = None"
    using rights_not_credentials by (auto simp: credentials_of_def rights_message_def)
  then show ?thesis by (simp add: received_of_def rights_of_rights_message)
qed

lemma received_credentials_message:
  assumes "cfg_linux L"
  shows "received_of L (credentials_message L c) = [Credentials c]"
  using assms by (simp add: received_of_def credentials_of_credentials_message)

lemma received_added:
  assumes "cfg_linux L" "list_all addition_valid xs"
  shows "concat (map (received_of L) (added_messages L xs)) = concat (map addition_received xs)"
  using assms(2)
proof (induction xs)
  case (Cons x xs)
  have "concat (map (received_of L) (addition_messages L x)) = addition_received x"
    using Cons.prems assms(1)
    by (cases x) (auto simp: received_rights_message received_credentials_message list_all_iff
        filter_id_conv)
  with Cons show ?case by simp
qed simp

lemma pidfds_added: "pidfds_in L (added_messages L xs) = []"
proof (induction xs)
  case (Cons x xs)
  have "pidfds_in L (addition_messages L x) = []" by (cases x) simp_all
  with Cons show ?case by (simp add: pidfds_in_def)
qed simp

lemma build_parse:
  assumes "length buf < 2 ^ usize_bits L" and "build L xs (new_ancillary buf) = (Ok (), a)"
  shows "messages_in L (used a) = added_messages L xs"
  using build_invariant [of "new_ancillary buf" "[]" xs "Ok ()" a] new_ancillary_wf [OF assms(1)]
    assms(2) parse_encode by (auto simp del: used_new simp: used_new)

end

text \<open>A list of two descriptors and a set of credentials fit 64 bytes.\<close>

lemma pair_built:
  "\<exists>a. build linux64 [AddFds [3, 4], AddCredentials (new_credentials 1 2 3)]
       (new_ancillary (replicate 64 0)) = (Ok (), a)"
proof -
  let ?a0 = "new_ancillary (replicate 64 0)"
  have wf: "anc_wf linux64 ?a0" by (simp add: new_ancillary_wf linux64_def)
  have space: "cmsg_space linux64 8 = Some 24" "cmsg_space linux64 12 = Some 32"
    by (simp_all add: cmsg_space_eq max_payload_def linux64_def aligned_space_def align_up_def)
  define a1 where "a1 = push_cmsg linux64 (rights_message linux64 [3, 4]) ?a0"
  have f0: "fits linux64 ?a0 8" by (simp add: fits_def space new_ancillary_def)
  then have a1: "add_rights linux64 [3, 4] ?a0 = (Ok (), a1)" "anc_wf linux64 a1"
    using linux64.push_wf [OF wf, of "rights_message linux64 [3, 4]"]
    by (simp_all add: linux64.add_rights_cases [OF wf] a1_def) (simp add: new_ancillary_def)
  have "length (encode_cmsg linux64 (rights_message linux64 [3, 4])) = 24"
    by (rule linux64.length_encode_cmsg) (simp add: space)
  then have "anc_length a1 = 24" "length (buffer a1) = 64" "\<not> receive_mode a1"
    using linux64.used_push(2) [of ?a0 "rights_message linux64 [3, 4]"] f0
    by (simp_all add: a1_def push_cmsg_def new_ancillary_def)
  then show ?thesis
    using a1 by (simp add: add_fds_def linux64.add_credentials_cases fits_def space ucred_SIZE_def)
qed

text \<open>
  C9: On Linux, what was added to a storage of any size, with every addition accepted, is what
  a receiver of its used bytes gets: the same descriptor lists and credentials in the same
  order, and nothing is closed on the way.
\<close>
theorem build_roundtrip:
  assumes "libc_abi L" and "cfg_linux L" and "length buf < 2 ^ usize_bits L"
    and "build L xs (new_ancillary buf) = (Ok (), a)" and "list_all addition_valid xs"
  shows "take_received_into L (used a) [] tr = Some (Ok (), concat (map addition_received xs), tr)"
  by (simp add: libc_abi.take_received_into_eq [OF assms(1)] libc_abi.build_parse [OF assms(1,3,4)]
      libc_abi.received_added [OF assms(1,2,5)] libc_abi.pidfds_added [OF assms(1)])

theorem build_roundtrip_witness:
  "\<exists>a. build linux64 [AddFds [3, 4], AddCredentials (new_credentials 1 2 3)]
       (new_ancillary (replicate 64 0)) = (Ok (), a)
     \<and> take_received_into linux64 (used a) [] []
       = Some (Ok (), [Rights [3, 4], Credentials (new_credentials 1 2 3)], [])"
proof -
  obtain a where b: "build linux64 [AddFds [3, 4], AddCredentials (new_credentials 1 2 3)]
      (new_ancillary (replicate 64 0)) = (Ok (), a)" using pair_built by blast
  from build_roundtrip [OF linux64.libc_abi_axioms linux64.on_linux _ b, of "[]"] b
  show ?thesis by (auto simp: linux64_def)
qed

text \<open>
  C29: An addition fails exactly when the storage holds a receive or the message it would write
  does not fit, and then changes nothing; it never panics and never writes beyond the buffer,
  and on success appends exactly the encoding of its message to the used bytes.
\<close>
theorem addition_outcome:
  assumes "libc_abi L" and "anc_wf L a" and "apply_addition L x a = (r, a')"
  shows "anc_wf L a' \<and> r \<noteq> Panic \<and> length (buffer a') = length (buffer a)
    \<and> ((\<exists>e. r = Err e) \<longleftrightarrow> refused L x a)
    \<and> (case r of
         Ok _ \<Rightarrow> used a' = used a @ concat (map (encode_cmsg L) (addition_messages L x))
       | _ \<Rightarrow> a' = a)"
  using libc_abi.addition_eq [OF assms(1,2), of x] libc_abi.push_messages [OF assms(1,2), of x] assms(2,3)
  by (auto split: if_splits)

theorem addition_outcome_witness:
  "apply_addition linux64 (AddFds [7]) (new_ancillary (replicate 20 0))
     = (Err AncillaryError, new_ancillary (replicate 20 0))"
proof -
  obtain r a' where run: "apply_addition linux64 (AddFds [7]) (new_ancillary (replicate 20 0)) = (r, a')"
    by fastforce
  have "refused linux64 (AddFds [7]) (new_ancillary (replicate 20 0))"
    by (simp add: refused_def fits_def cmsg_space_eq max_payload_def linux64_def aligned_space_def align_up_def
        new_ancillary_def)
  with addition_outcome [OF linux64.libc_abi_axioms _ run]
  have "(\<exists>e. r = Err e) \<and> a' = new_ancillary (replicate 20 0)"
    by (auto simp: new_ancillary_wf linux64_def split: result.splits)
  with run show ?thesis by (auto intro: ancillary_error.exhaust)
qed

end
