(* ===== verification/Syscalls.thy ===== *)
theory Syscalls
  imports Cmsg Roundtrip
begin

unbundle bit_operations_syntax

text \<open>
  Properties of the system-call layer: exactly when the retry loops return and with what, the
  close-on-exec guarantee of every received descriptor on every platform, the suppression of
  \<^verbatim>\<open>SIGPIPE\<close>, the receive budget and the credentials option.
\<close>

section \<open>The reference kernel\<close>

lemma loopback_os_interface: "libc_abi L \<Longrightarrow> os_interface L (loopback L)"
  by (simp add: os_interface_def os_interface_axioms_def reference_contracts)

lemma offered_cloexec_fds:
  assumes "offers L K sock iov p c t"
  shows "\<exists>tr'. cloexec_fds L K fds tr = (Ok (), tr') \<and> closed tr' = closed tr"
proof (cases "cfg_cloexec L")
  case True
  then show ?thesis by (simp add: cloexec_fds_def)
next
  case False
  have get: "\<exists>fl. sys_getfd K tr fd = Inr fl" and set: "sys_setfd K tr fd fl = Inr ()" for tr fd fl
    using assms False by (simp_all add: offers_def)
  have each: "\<exists>tr'. set_cloexec L K fd tr = (Ok (), tr')" for fd tr
    using get [of tr fd] by (auto simp: set_cloexec_def syscall_defs set Let_def)
  have "\<exists>tr'. fallback_cloexec_fds L K fds tr = (Ok (), tr')"
  proof (induction fds arbitrary: tr)
    case (Cons fd fds)
    obtain tr1 where "set_cloexec L K fd tr = (Ok (), tr1)" using each by blast
    with Cons.IH [of tr1] show ?case by simp
  qed simp
  then have "\<exists>tr'. cloexec_fds L K fds tr = (Ok (), tr')" by (simp add: cloexec_fds_def)
  then obtain tr' where "cloexec_fds L K fds tr = (Ok (), tr')" by blast
  with cloexec_fds_trace [of L K fds tr] show ?thesis by (auto simp: neutral_def)
qed

text \<open>A pending message with room for all of it is received whole.\<close>

lemma offered_recv_loop:
  assumes "offers L K sock iov p c tr"
    and "length p \<le> length (concat iov)" "length c \<le> length buf" "length buf < 2 ^ controllen_bits L"
  shows "recv_loop L K sock (recv_header L iov buf) fl tr
    = Some (Ok (whole_reply p c),
        tr @ [SysRecvmsg sock (recv_header L iov buf) (RECV_FLAGS L OR fl) (Inr (whole_reply p c))])"
  using assms
  by (subst recv_loop.simps)
    (simp add: recvmsg_def offers_def deliver_def recv_header_def whole_reply_def Let_def length_concat)

lemma offered_recv_messages:
  assumes abi: "libc_abi L" and offer: "offers L K sock iov p c tr"
    and own: "rights_in L (messages_in L c) = fds" "pidfds_in L (messages_in L c) = []"
    and room: "length p \<le> length (concat iov)" "length c \<le> length buf" "length buf < 2 ^ 32"
  shows "\<exists>res tr'. recv_fds L K sock iov buf tr = Some (Ok (res, fds), scatter iov p, tr')
    \<and> bytes_read res = length p \<and> \<not> ancillary_truncated res \<and> \<not> data_truncated res
    \<and> closed tr' = closed tr \<and> (cfg_cloexec L \<longrightarrow> tr' = tr @ [SysRecvmsg sock (recv_header L iov buf) (RECV_FLAGS L) (Inr (whole_reply p c))])"
proof -
  have "length buf < 2 ^ controllen_bits L"
    using libc_abi.controllen_lower [OF abi] room(3) by linarith
  note r = offered_recv_loop [OF offer room(1,2) this, of 0]
  obtain tr2 where "cloexec_fds L K fds
      (tr @ [SysRecvmsg sock (recv_header L iov buf) (RECV_FLAGS L OR 0)
        (Inr (whole_reply p c))]) = (Ok (), tr2)" "closed tr2 = closed tr"
    using offered_cloexec_fds [OF offer] by fastforce
  moreover from this have "cfg_cloexec L \<Longrightarrow> tr2 = tr @ [SysRecvmsg sock (recv_header L iov buf) (RECV_FLAGS L OR 0)
      (Inr (whole_reply p c))]"
    by (simp add: cloexec_fds_def)
  ultimately show ?thesis
    using r room(2) own
    by (auto simp: recv_fds_def recvmsg_raw_def recv_result_of_def slice_def take_overwrite whole_reply_def
        libc_abi.take_fds_eq [OF abi])
qed

lemma owned_rights_message:
  assumes "libc_abi L" "list_all (\<lambda>fd. 0 \<le> sint fd) fds"
  shows "rights_in L [rights_message L fds] = fds" "pidfds_in L [rights_message L fds] = []"
  using assms(2) libc_abi.message_kinds [OF assms(1)]
  by (simp_all add: rights_of_rights_message filter_id_conv list_all_iff)

lemma loopback_recv_fds:
  assumes abi: "libc_abi L" and q: "queue L tr = (p, fds_control_bytes) # q"
    and c: "fds_control_bytes = encode_cmsg L (rights_message L fds)" "4 * length fds \<le> max_payload"
    and room: "length p \<le> length (concat iov)" "length fds_control_bytes \<le> length buf"
      "length buf < 2 ^ 32"
    and nonneg: "list_all (\<lambda>fd. 0 \<le> sint fd) fds"
  shows "\<exists>res tr'. recv_fds L (loopback L) sock iov buf tr = Some (Ok (res, fds), scatter iov p, tr')
    \<and> bytes_read res = length p \<and> \<not> ancillary_truncated res \<and> \<not> data_truncated res"
proof -
  have "messages_in L fds_control_bytes = [rights_message L fds]"
    using libc_abi.parse_encode [OF abi, of "[rights_message L fds]"] c by simp
  with offered_recv_messages [OF abi loopback_offers [OF q] _ _ room, of fds sock]
    owned_rights_message [OF abi nonneg]
  show ?thesis by auto
qed

text \<open>A pending message as it stands after a send of the same process.\<close>

lemma queue_sent: "queue L [SysSendmsg fd h fl (Inr n)] = [(take n (concat (s_iov h)), control_bytes h)]"
  by (simp add: queue_def)

section \<open>Interrupted calls\<close>

text \<open>
  A send answers with the kernel's first answer that is not an interruption, as its number
  of bytes or its error, after one attempt per interruption with unchanged arguments, and it
  runs for ever exactly when the kernel interrupts every attempt.
\<close>
theorem send_retries_interruptions:
  "(send_loop L K fd msg tr = Some (r, tr') \<longleftrightarrow>
      (\<exists>n q. (\<forall>i<n. sys_sendmsg K (tr @ replicate i (SysSendmsg fd msg (SEND_FLAGS L) (Inl (EINTR L))))
            fd msg (SEND_FLAGS L) = Inl (EINTR L))
        \<and> q = sys_sendmsg K (tr @ replicate n (SysSendmsg fd msg (SEND_FLAGS L) (Inl (EINTR L))))
            fd msg (SEND_FLAGS L)
        \<and> q \<noteq> Inl (EINTR L) \<and> r = os_result q
        \<and> tr' = tr @ replicate n (SysSendmsg fd msg (SEND_FLAGS L) (Inl (EINTR L)))
            @ [SysSendmsg fd msg (SEND_FLAGS L) q]))
   \<and> (send_loop L K fd msg tr = None \<longleftrightarrow>
      (\<forall>n. sys_sendmsg K (tr @ replicate n (SysSendmsg fd msg (SEND_FLAGS L) (Inl (EINTR L))))
        fd msg (SEND_FLAGS L) = Inl (EINTR L)))"
  using send_calls.outcome_iff [of L K fd msg tr r tr'] send_calls.diverges_iff [of L K fd msg tr]
  by blast

theorem send_retries_interruptions_witness:
  "let h = \<lparr> s_iov = [[1, 2]], s_iovlen = 1, s_control = None, s_controllen = 0 \<rparr>;
       e = SysSendmsg 5 h (SEND_FLAGS linux64) (Inl (EINTR linux64))
   in send_loop linux64 (interrupting linux64 2 (loopback linux64)) 5 h []
        = Some (Ok 2, [e, e, SysSendmsg 5 h (SEND_FLAGS linux64) (Inr 2)])"
proof -
  let ?h = "\<lparr> s_iov = [[1, 2]], s_iovlen = 1, s_control = None, s_controllen = 0 \<rparr>"
  show ?thesis
    unfolding Let_def
    by (rule send_retries_interruptions [THEN conjunct1, THEN iffD2])
      (rule exI [of _ 2], simp add: interrupting_def interruptions_def less_2_cases_iff
        numeral_2_eq_2)
qed

text \<open>
  A receive does the same with its own flags, the peek included, and its answer carries the
  kernel's reply.
\<close>
theorem recv_retries_interruptions:
  "(recv_loop L K fd msg fl tr = Some (r, tr') \<longleftrightarrow>
      (\<exists>n q. (\<forall>i<n. sys_recvmsg K (tr @ replicate i (SysRecvmsg fd msg (RECV_FLAGS L OR fl) (Inl (EINTR L))))
            fd msg (RECV_FLAGS L OR fl) = Inl (EINTR L))
        \<and> q = sys_recvmsg K (tr @ replicate n (SysRecvmsg fd msg (RECV_FLAGS L OR fl) (Inl (EINTR L))))
            fd msg (RECV_FLAGS L OR fl)
        \<and> q \<noteq> Inl (EINTR L) \<and> r = os_result q
        \<and> tr' = tr @ replicate n (SysRecvmsg fd msg (RECV_FLAGS L OR fl) (Inl (EINTR L)))
            @ [SysRecvmsg fd msg (RECV_FLAGS L OR fl) q]))
   \<and> (recv_loop L K fd msg fl tr = None \<longleftrightarrow>
      (\<forall>n. sys_recvmsg K (tr @ replicate n (SysRecvmsg fd msg (RECV_FLAGS L OR fl) (Inl (EINTR L))))
        fd msg (RECV_FLAGS L OR fl) = Inl (EINTR L)))"
  using recv_calls.outcome_iff [of L K fd msg fl tr r tr'] recv_calls.diverges_iff [of L K fd msg fl tr]
  by blast

theorem recv_retries_interruptions_witness:
  "let h = recv_header linux64 [[0, 0]] [];
       e = SysRecvmsg 5 h (RECV_FLAGS linux64 OR 0) (Inl (EINTR linux64))
   in recv_loop linux64 (interrupting linux64 1 (loopback linux64)) 5 h 0 []
        = Some (Err (Os 11), [e, SysRecvmsg 5 h (RECV_FLAGS linux64 OR 0) (Inl 11)])"
  unfolding Let_def
  by (rule recv_retries_interruptions [THEN conjunct1, THEN iffD2])
    (rule exI [of _ 1], simp add: interrupting_def interruptions_def queue_def)

text \<open>
  C33: Sends and receives hide interruptions and nothing else: each answers with the kernel's first
  answer that is not an interruption, as its value or its error, after one attempt per interruption
  with unchanged arguments and flags, and runs for ever exactly when every attempt is interrupted.
\<close>
theorem calls_retry_interruptions:
  "(send_loop L K fd msg tr = Some (r, tr') \<longleftrightarrow>
      (\<exists>n q. (\<forall>i<n. sys_sendmsg K (tr @ replicate i (SysSendmsg fd msg (SEND_FLAGS L) (Inl (EINTR L))))
            fd msg (SEND_FLAGS L) = Inl (EINTR L))
        \<and> q = sys_sendmsg K (tr @ replicate n (SysSendmsg fd msg (SEND_FLAGS L) (Inl (EINTR L))))
            fd msg (SEND_FLAGS L)
        \<and> q \<noteq> Inl (EINTR L) \<and> r = os_result q
        \<and> tr' = tr @ replicate n (SysSendmsg fd msg (SEND_FLAGS L) (Inl (EINTR L)))
            @ [SysSendmsg fd msg (SEND_FLAGS L) q]))
   \<and> (send_loop L K fd msg tr = None \<longleftrightarrow>
      (\<forall>n. sys_sendmsg K (tr @ replicate n (SysSendmsg fd msg (SEND_FLAGS L) (Inl (EINTR L))))
        fd msg (SEND_FLAGS L) = Inl (EINTR L)))
   \<and> (recv_loop L K fd rmsg fl tr = Some (rr, tr') \<longleftrightarrow>
      (\<exists>n q. (\<forall>i<n. sys_recvmsg K (tr @ replicate i (SysRecvmsg fd rmsg (RECV_FLAGS L OR fl) (Inl (EINTR L))))
            fd rmsg (RECV_FLAGS L OR fl) = Inl (EINTR L))
        \<and> q = sys_recvmsg K (tr @ replicate n (SysRecvmsg fd rmsg (RECV_FLAGS L OR fl) (Inl (EINTR L))))
            fd rmsg (RECV_FLAGS L OR fl)
        \<and> q \<noteq> Inl (EINTR L) \<and> rr = os_result q
        \<and> tr' = tr @ replicate n (SysRecvmsg fd rmsg (RECV_FLAGS L OR fl) (Inl (EINTR L)))
            @ [SysRecvmsg fd rmsg (RECV_FLAGS L OR fl) q]))
   \<and> (recv_loop L K fd rmsg fl tr = None \<longleftrightarrow>
      (\<forall>n. sys_recvmsg K (tr @ replicate n (SysRecvmsg fd rmsg (RECV_FLAGS L OR fl) (Inl (EINTR L))))
        fd rmsg (RECV_FLAGS L OR fl) = Inl (EINTR L)))"
  using send_retries_interruptions [of L K fd msg tr r tr'] recv_retries_interruptions [of L K fd rmsg fl tr rr tr']
  by blast

theorem calls_retry_interruptions_witness:
  "let h = \<lparr> s_iov = [[1, 2]], s_iovlen = 1, s_control = None, s_controllen = 0 \<rparr>;
       e = SysSendmsg 5 h (SEND_FLAGS linux64) (Inl (EINTR linux64))
   in send_loop linux64 (interrupting linux64 2 (loopback linux64)) 5 h []
        = Some (Ok 2, [e, e, SysSendmsg 5 h (SEND_FLAGS linux64) (Inr 2)])"
  unfolding Let_def
  by (rule calls_retry_interruptions [THEN conjunct1, THEN iffD2])
    (rule exI [of _ 2], simp add: interrupting_def interruptions_def less_2_cases_iff numeral_2_eq_2)

section \<open>Close-on-exec\<close>

lemma fallback_cloexec_sets:
  assumes "fallback_cloexec_fds L K fds tr = (Ok u, tr')"
  shows "\<exists>ev. tr' = tr @ ev \<and> (\<forall>fd\<in>set fds. \<exists>fl. SysSetfd fd (fl OR FD_CLOEXEC L) (Inr ()) \<in> set ev)"
  using assms
proof (induction fds arbitrary: tr)
  case (Cons fd fds)
  then obtain u1 tr1 where s: "set_cloexec L K fd tr = (Ok u1, tr1)"
    and r: "fallback_cloexec_fds L K fds tr1 = (Ok u, tr')"
    by (auto split: prod.splits result.splits)
  from s set_cloexec_trace [of L K fd tr] obtain fl where
    "tr1 = tr @ [SysGetfd fd (Inr fl), SysSetfd fd (fl OR FD_CLOEXEC L) (Inr ())]" by auto
  moreover from Cons.IH [OF r] obtain ev where "tr' = tr1 @ ev"
    "\<forall>fd\<in>set fds. \<exists>fl. SysSetfd fd (fl OR FD_CLOEXEC L) (Inr ()) \<in> set ev" by blast
  ultimately show ?case by auto
qed simp

lemma recvmsg_raw_flags:
  assumes "recvmsg_raw L K sock iov buf fl tr = Some (r, iov', buf', tr')"
  shows "\<exists>ev. tr' = tr @ ev
    \<and> (\<forall>e\<in>set ev. \<exists>h q. e = SysRecvmsg sock h (RECV_FLAGS L OR fl) q)"
proof -
  from assms obtain q tr1 where q: "recv_loop L K sock (recv_header L iov buf) fl tr = Some (q, tr1)"
    by (auto simp: recvmsg_raw_def bind_eq_Some_conv)
  with assms have "tr' = tr1" by (cases q) (simp_all add: recvmsg_raw_def)
  with recv_loop_trace [OF q] show ?thesis by fastforce
qed

text \<open>The new events of a receive that hands out \<open>fds\<close>: each is closed by a later \<^verbatim>\<open>exec\<close>.\<close>

definition exec_safe :: "libc \<Rightarrow> raw_fd list \<Rightarrow> trace \<Rightarrow> bool" where
  "exec_safe L fds ev \<longleftrightarrow>
     (if cfg_cloexec L
      then list_all (\<lambda>e. case e of SysRecvmsg sock h fl q \<Rightarrow> fl AND MSG_CMSG_CLOEXEC L = MSG_CMSG_CLOEXEC L
          | _ \<Rightarrow> True) ev
      else \<forall>fd\<in>set fds. \<exists>fl. SysSetfd fd (fl OR FD_CLOEXEC L) (Inr ()) \<in> set ev)"

lemma exec_safe_compose:
  assumes "cloexec_fds L K fds (drop_fds closed_fds (tr @ ev1)) = (Ok u, tr')"
    and "\<forall>e\<in>set ev1. \<exists>h q. e = SysRecvmsg sock h (RECV_FLAGS L OR fl) q"
  shows "\<exists>ev. tr' = tr @ ev \<and> exec_safe L fds ev"
proof (cases "cfg_cloexec L")
  case True
  have "(MSG_CMSG_CLOEXEC L OR fl) AND MSG_CMSG_CLOEXEC L = MSG_CMSG_CLOEXEC L"
    by (simp add: bit_eq_iff bit_simps)
  with True assms show ?thesis
    by (intro exI [of _ "ev1 @ map SysClose closed_fds"])
      (auto simp: cloexec_fds_def drop_fds_def exec_safe_def RECV_FLAGS_def list_all_iff
        split: syscall.splits)
next
  case False
  with assms(1) have "fallback_cloexec_fds L K fds (drop_fds closed_fds (tr @ ev1)) = (Ok u, tr')"
    by (simp add: cloexec_fds_def)
  from fallback_cloexec_sets [OF this] obtain ev where
    "tr' = tr @ (ev1 @ map SysClose closed_fds @ ev)"
    "\<forall>fd\<in>set fds. \<exists>fl. SysSetfd fd (fl OR FD_CLOEXEC L) (Inr ()) \<in> set ev"
    by (auto simp: drop_fds_def)
  with False show ?thesis by (intro exI conjI) (assumption, auto simp: exec_safe_def)
qed

context libc_abi begin

lemma recv_fds_exec_safe:
  assumes "recv_fds L K sock iov buf tr = Some (Ok (res, fds), iov', tr')"
  shows "\<exists>ev. tr' = tr @ ev \<and> exec_safe L fds ev"
proof -
  from assms obtain ret iov1 buf1 tr1 where
    raw: "recvmsg_raw L K sock iov buf 0 tr = Some (ret, iov1, buf1, tr1)"
    by (auto simp: recv_fds_def bind_eq_Some_conv)
  from recvmsg_raw_flags [OF raw] obtain ev1 where ev1: "tr1 = tr @ ev1"
    "\<forall>e\<in>set ev1. \<exists>h q. e = SysRecvmsg sock h (RECV_FLAGS L OR 0) q" by blast
  obtain res1 where "ret = Ok res1" using assms raw by (cases ret) (auto simp: recv_fds_def)
  with assms raw obtain cl u where "cloexec_fds L K fds (drop_fds cl tr1) = (Ok u, tr')"
    by (auto simp: recv_fds_def slice_def take_fds_eq split: if_splits prod.splits result.splits)
  from exec_safe_compose [OF this [unfolded ev1(1)] ev1(2)] show ?thesis .
qed

end

text \<open>
  Every descriptor a convenience receive hands out is closed by a later \<^verbatim>\<open>exec\<close>: either
  every \<^verbatim>\<open>recvmsg\<close> it made carried \<^verbatim>\<open>MSG_CMSG_CLOEXEC\<close>, or the flag was set on each of them
  by a successful \<^verbatim>\<open>F_SETFD\<close> that kept the other flags; there is no third way to succeed.
\<close>
theorem received_fds_exec_safe:
  assumes "libc_abi L"
    and "recv_fds L K sock iov buf tr = Some (Ok (res, fds), iov', tr')"
  shows "\<exists>ev. tr' = tr @ ev \<and> exec_safe L fds ev"
  by (rule libc_abi.recv_fds_exec_safe [OF assms])

theorem received_fds_exec_safe_witness:
  "\<exists>tr res iov' tr' ev. recv_fds darwin64 (loopback darwin64) 6 [[0]] (replicate 16 0) tr
       = Some (Ok (res, [7]), iov', tr')
     \<and> tr' = tr @ ev \<and> (\<exists>fl. SysSetfd 7 (fl OR 1) (Inr ()) \<in> set ev)"
proof -
  let ?c = "encode_cmsg darwin64 (rights_message darwin64 [7])"
  let ?h = "\<lparr> s_iov = [[9]], s_iovlen = 1, s_control = Some ?c, s_controllen = length ?c \<rparr>"
  let ?tr = "[SysSendmsg 5 ?h 0 (Inr 1)]"
  have l: "length ?c = 16"
    by (rule darwin64.length_encode_cmsg)
      (simp add: cmsg_space_eq max_payload_def darwin64_def aligned_space_def align_up_def)
  have "queue darwin64 ?tr = ([9], ?c) # []"
    by (simp add: queue_sent control_bytes_def)
  from loopback_recv_fds [OF darwin64.libc_abi_axioms this refl, of "[[0]]" "replicate 16 0" 6]
  obtain res tr' where run: "recv_fds darwin64 (loopback darwin64) 6 [[0]] (replicate 16 0) ?tr
      = Some (Ok (res, [7]), scatter [[0]] [9], tr')"
    by (auto simp: l max_payload_def)
  from received_fds_exec_safe [OF darwin64.libc_abi_axioms this] obtain ev where
    "tr' = ?tr @ ev" "exec_safe darwin64 [7] ev" by blast
  with run show ?thesis by (fastforce simp: exec_safe_def)
qed

section \<open>SIGPIPE\<close>

text \<open>
  C37: No send can raise \<^verbatim>\<open>SIGPIPE\<close> on the systems the crate covers: every \<^verbatim>\<open>sendmsg\<close> carries \<^verbatim>\<open>MSG_NOSIGNAL\<close> where the system has
  it; on Apple systems the socket option is set first, and when that fails nothing is sent and
  the error is reported, \<^verbatim>\<open>EINVAL\<close> (the peer has closed) as \<^verbatim>\<open>EPIPE\<close>.
\<close>
theorem sends_suppress_sigpipe:
  assumes "sendmsg_vectored L K fd iov buf len tr = Some (r, tr')"
  shows "if cfg_cloexec L
     then \<exists>ev. tr' = tr @ ev \<and> list_all (\<lambda>e. \<exists>h q. e = SysSendmsg fd h (MSG_NOSIGNAL L) q) ev
     else cfg_apple L \<longrightarrow>
       (\<exists>ev. tr' = tr @ SysSetsockopt fd (SOL_SOCKET L) (SO_NOSIGPIPE L) 1 (Inr ()) # ev)
       \<or> (\<exists>e. tr' = tr @ [SysSetsockopt fd (SOL_SOCKET L) (SO_NOSIGPIPE L) 1 (Inl e)]
           \<and> r = Err (Os (if e = EINVAL L then EPIPE L else e)))"
proof (cases "prepare_send L K fd tr")
  case (Pair p tr1)
  show ?thesis
  proof (cases p)
    case (Ok u)
    with assms Pair have "send_loop L K fd (send_header L iov buf len) tr1 = Some (r, tr')"
      by (simp add: sendmsg_vectored_def)
    from send_loop_trace [OF this] Pair Ok show ?thesis
      by (auto simp: prepare_send_eq SEND_FLAGS_def list_all_iff Let_def split: if_splits sum.splits)
  qed (use assms Pair in \<open>auto simp: sendmsg_vectored_def prepare_send_eq Let_def
      split: if_splits sum.splits\<close>)
qed

theorem sends_suppress_sigpipe_witness:
  "sendmsg_vectored darwin64 ((loopback darwin64)\<lparr>sys_setsockopt := \<lambda>tr fd l opt v. Inl 22\<rparr>)
       4 [[1]] [] 0 [] = Some (Err (Os 32), [SysSetsockopt 4 (SOL_SOCKET darwin64) (SO_NOSIGPIPE darwin64) 1 (Inl 22)])"
proof -
  let ?K = "(loopback darwin64)\<lparr>sys_setsockopt := \<lambda>tr fd l opt v. Inl 22\<rparr>"
  obtain r tr' where run: "sendmsg_vectored darwin64 ?K 4 [[1]] [] 0 [] = Some (r, tr')"
    by (simp add: sendmsg_vectored_def prepare_send_def apple_prepare_send_def setsockopt_def Let_def)
  moreover have "hd tr' = SysSetsockopt 4 (SOL_SOCKET darwin64) (SO_NOSIGPIPE darwin64) 1 (Inl 22)"
    using run by (auto simp: sendmsg_vectored_def prepare_send_def apple_prepare_send_def
        setsockopt_def Let_def)
  ultimately show ?thesis using sends_suppress_sigpipe [OF run] by auto
qed

section \<open>The receive budget\<close>

text \<open>
  The number of descriptors a receive makes room for is always between 253 and \<open>2 ^ 20\<close>, is
  253 without a system call where the kernel caps a message itself, and elsewhere is the
  process's descriptor limit whenever that lies in the range.
\<close>
theorem receive_budget:
  assumes "libc_abi L"
  shows "253 \<le> fst (max_recv_fds L K tr) \<and> fst (max_recv_fds L K tr) \<le> 2 ^ 20
    \<and> (cfg_cloexec L \<longrightarrow> max_recv_fds L K tr = (253, tr))
    \<and> (\<not> cfg_cloexec L \<longrightarrow> (\<forall>cur. sys_getrlimit K tr = Inr cur \<longrightarrow> cur \<noteq> RLIM_INFINITY L \<longrightarrow>
         253 \<le> cur \<longrightarrow> cur \<le> 2 ^ 20 \<longrightarrow> int (fst (max_recv_fds L K tr)) = cur))"
proof -
  have u: "(2 :: int) ^ 32 \<le> 2 ^ usize_bits L"
    using libc_abi.usize_width [OF assms] by auto
  show ?thesis
    using max_recv_fds_range [of L K tr] u
    by (auto simp: HARD_FLOOR_def HARD_CEILING_def max_recv_fds_def fallback_max_recv_fds_def
        getrlimit_def clamp_nofile_def Let_def)
qed

theorem receive_budget_witness:
  "fst (max_recv_fds darwin64 (loopback darwin64) []) = 1024"
  using receive_budget [OF darwin64.libc_abi_axioms, of "loopback darwin64" "[]"]
  by simp

section \<open>Credentials\<close>

text \<open>Documented behaviour of socket options: reading one gives the value set last.\<close>

definition passcred_law :: "libc \<Rightarrow> kernel \<Rightarrow> bool" where
  "passcred_law L K \<longleftrightarrow> (\<forall>tr sock v.
     sys_getsockopt K (tr @ [SysSetsockopt sock (SOL_SOCKET L) (SO_PASSCRED L) v (Inr ())]) sock
       (SOL_SOCKET L) (SO_PASSCRED L) = Inr v)"

text \<open>
  Once \<^verbatim>\<open>set_passcred\<close> has succeeded, \<^verbatim>\<open>passcred\<close> reads back what was set.
\<close>
theorem passcred_roundtrip:
  assumes "passcred_law L K" and "set_passcred L K sock on tr = (Ok u, tr1)"
  shows "fst (passcred L K sock tr1) = Ok on"
  using assms
  by (auto simp: passcred_law_def set_passcred_def passcred_def syscall_defs Let_def
      split: sum.splits if_splits)

theorem passcred_roundtrip_witness:
  "passcred_law linux64 (loopback linux64)
     \<and> fst (passcred linux64 (loopback linux64) 3
         (snd (set_passcred linux64 (loopback linux64) 3 True []))) = Ok True"
proof -
  have law: "passcred_law linux64 (loopback linux64)"
    by (simp add: passcred_law_def)
  have "set_passcred linux64 (loopback linux64) 3 True []
      = (Ok (), snd (set_passcred linux64 (loopback linux64) 3 True []))"
    by (simp add: set_passcred_def syscall_defs Let_def)
  from passcred_roundtrip [OF law this] law show ?thesis by simp
qed

end
