(* ===== verification/Lowlevel.thy ===== *)
theory Lowlevel
  imports Syscalls
begin

text \<open>
  \<^verbatim>\<open>src/lib.rs\<close>: the low-level \<^verbatim>\<open>cmsg_sendmsg\<close>, \<^verbatim>\<open>cmsg_recvmsg\<close> and \<^verbatim>\<open>cmsg_recvmsg_peek\<close> over a
  caller's \<open>socket_ancillary\<close>. A receive closes what the buffer still owned, then owns
  everything the kernel delivered, on every way it can end.
\<close>

record recv_result =
  rr_bytes_read :: usize
  rr_truncated :: bool
  rr_data_truncated :: bool

definition cmsg_sendmsg ::
  "libc \<Rightarrow> kernel \<Rightarrow> raw_fd \<Rightarrow> byte list list \<Rightarrow> socket_ancillary \<Rightarrow> trace
     \<Rightarrow> ((io_error, usize) result \<times> trace) option" where
  "cmsg_sendmsg L K fd iov ancillary tr =
     (if receive_mode ancillary
      then Some (Err (Custom InvalidInput
             (Text ''clear the receive buffer before building a send'')), tr)
      else sendmsg_vectored L K fd iov (buffer ancillary) (anc_length ancillary) tr)"

definition recv_into_ancillary ::
  "libc \<Rightarrow> kernel \<Rightarrow> raw_fd \<Rightarrow> byte list list \<Rightarrow> socket_ancillary \<Rightarrow> i32 \<Rightarrow> trace
     \<Rightarrow> ((io_error, recv_result) result \<times> byte list list \<times> socket_ancillary \<times> trace) option" where
  "recv_into_ancillary L K fd iov ancillary extra_flags tr =
     (let (ancillary, tr) = clear ancillary tr;
          ancillary = ancillary\<lparr>receive_mode := True\<rparr>
      in do {
       (ret, iov, buf, tr) \<leftarrow> recvmsg_raw L K fd iov (buffer ancillary) extra_flags tr;
       let ancillary = ancillary\<lparr>buffer := buf\<rparr> in
       (case ret of
          Err e \<Rightarrow> Some (Err e, iov, ancillary, tr)
        | Panic \<Rightarrow> Some (Panic, iov, ancillary, tr)
        | Ok res \<Rightarrow>
          (case slice (buffer ancillary) 0 (ancillary_len res) of
             Err e \<Rightarrow> Some (Err e, iov, ancillary, tr)
           | Panic \<Rightarrow> Some (Panic, iov, ancillary, tr)
           | Ok bytes \<Rightarrow> do {
               (taken, msgs, tr) \<leftarrow> take_received_into L bytes (received ancillary) tr;
               let ancillary = ancillary\<lparr>received := msgs\<rparr> in
               Some (case taken of
                   Err e \<Rightarrow> (Err e, iov, ancillary, tr)
                 | Panic \<Rightarrow> (Panic, iov, ancillary, tr)
                 | Ok _ \<Rightarrow>
                   (case cloexec_received L K (received ancillary) tr of
                      (Err err, tr) \<Rightarrow>
                        (Err err, iov, ancillary\<lparr>received := []\<rparr>,
                         drop_messages (received ancillary) tr)
                    | (Panic, tr) \<Rightarrow> (Panic, iov, ancillary, tr)
                    | (Ok _, tr) \<Rightarrow>
                        (Ok \<lparr> rr_bytes_read = bytes_read res,
                              rr_truncated = ancillary_truncated res,
                              rr_data_truncated = data_truncated res \<rparr>, iov,
                         ancillary\<lparr>anc_length := ancillary_len res,
                                   truncated := ancillary_truncated res\<rparr>, tr))) })) })"

definition cmsg_recvmsg ::
  "libc \<Rightarrow> kernel \<Rightarrow> raw_fd \<Rightarrow> byte list list \<Rightarrow> socket_ancillary \<Rightarrow> trace
     \<Rightarrow> ((io_error, recv_result) result \<times> byte list list \<times> socket_ancillary \<times> trace) option" where
  "cmsg_recvmsg L K fd iov ancillary tr = recv_into_ancillary L K fd iov ancillary 0 tr"

definition cmsg_recvmsg_peek ::
  "libc \<Rightarrow> kernel \<Rightarrow> raw_fd \<Rightarrow> byte list list \<Rightarrow> socket_ancillary \<Rightarrow> trace
     \<Rightarrow> ((io_error, recv_result) result \<times> byte list list \<times> socket_ancillary \<times> trace) option" where
  "cmsg_recvmsg_peek L K fd iov ancillary tr =
     recv_into_ancillary L K fd iov ancillary (MSG_PEEK L) tr"

section \<open>Ownership across a low-level receive\<close>

text \<open>What the storage owns, as one list.\<close>

definition anc_fds :: "socket_ancillary \<Rightarrow> raw_fd list" where
  "anc_fds a = owned_fds (received a)"

lemma clear_eq:
  "clear a tr = (a\<lparr>received := [], anc_length := 0, truncated := False, receive_mode := False\<rparr>,
     drop_fds (anc_fds a) tr)"
  by (simp add: clear_def drop_messages_def anc_fds_def)

context os_interface begin

lemma recv_into_ancillary_run:
  assumes "recv_into_ancillary L K fd iov a fl tr = Some (r, iov', a', tr')"
  shows "accounted L tr (anc_fds a) tr' (anc_fds a') \<and> r \<noteq> Panic
    \<and> (receive_mode a' \<and> length (buffer a') = length (buffer a) \<and> map length iov' = map length iov)
    \<and> (\<forall>e. r = Err e \<longrightarrow> received a' = [] \<and> anc_length a' = 0 \<and> \<not> truncated a')
    \<and> (\<forall>res. r = Ok res \<longrightarrow> anc_length a' \<le> length (buffer a')
      \<and> received a' = concat (map (received_of L) (messages_in L (used a')))
      \<and> truncated a' = rr_truncated res \<and> rr_bytes_read res \<le> length (concat iov))"
proof -
  let ?tr0 = "drop_fds (anc_fds a) tr"
  have a0: "accounted L tr (anc_fds a) ?tr0 []"
    using accounted_drop [of L tr "anc_fds a" "[]"] by simp
  from assms obtain ret iov1 buf1 tr1 where
    raw: "recvmsg_raw L K fd iov (buffer a) fl ?tr0 = Some (ret, iov1, buf1, tr1)"
    by (auto simp: recv_into_ancillary_def clear_eq bind_eq_Some_conv)
  show ?thesis
  proof (cases "\<exists>res. ret = Ok res")
    case False
    then obtain ev e where o: "tr1 = ?tr0 @ ev" "neutral L ev" "iov1 = iov" "buf1 = buffer a"
        "ret = Err (Os e)"
      using recvmsg_raw_other [OF raw] by blast
    with raw assms have "r = Err (Os e)" "iov' = iov" "tr' = ?tr0 @ ev"
      "a' = a\<lparr>received := [], anc_length := 0, truncated := False, receive_mode := True\<rparr>"
      by (simp_all add: recv_into_ancillary_def clear_eq)
    then show ?thesis
      using accounted_trans [OF a0 accounted_neutral [OF o(2)]]
      by (simp add: clear_eq anc_fds_def)
  next
    case True
    then obtain res where ret: "ret = Ok res" by blast
    from recvmsg_raw_Ok [OF raw [unfolded ret]] obtain ev and reply :: recv_reply where
      t: "tr1 = ?tr0 @ ev" "closed ev = []" "delivered L ev = delivered_in L (rr_control reply)"
      and b: "bytes_read res \<le> length (concat iov)" "ancillary_len res \<le> length (buffer a)"
        "length buf1 = length (buffer a)" "take (ancillary_len res) buf1 = rr_control reply"
        "iov1 = scatter iov (rr_data reply)"
      by blast
    define ms where "ms = messages_in L (take (ancillary_len res) buf1)"
    obtain cr tr3 where cl: "cloexec_fds L K (rights_in L ms) (drop_fds (pidfds_in L ms) tr1) = (cr, tr3)"
      by fastforce
    note acc = reply_accounts [OF raw [unfolded ret] ms_def cl]
    show ?thesis
      using assms raw ret b cl acc(3) accounted_trans [OF a0 acc(1)] accounted_trans [OF a0 acc(2)]
      by (cases cr) (auto simp: recv_into_ancillary_def clear_eq slice_def take_received_into_eq
          cloexec_received_flat drop_messages_def anc_fds_def used_def ms_def)
  qed
qed

lemma recv_into_ancillary_cases:
  assumes "recv_into_ancillary L K fd iov a fl tr = Some (r, iov', a', tr')"
  shows "accounted L tr (anc_fds a) tr' (anc_fds a')"
    and "r \<noteq> Panic"
    and "receive_mode a' \<and> length (buffer a') = length (buffer a) \<and> map length iov' = map length iov"
    and "\<forall>e. r = Err e \<longrightarrow> received a' = [] \<and> anc_length a' = 0 \<and> \<not> truncated a'"
    and "\<forall>res. r = Ok res \<longrightarrow> anc_length a' \<le> length (buffer a')
      \<and> received a' = concat (map (received_of L) (messages_in L (used a')))
      \<and> truncated a' = rr_truncated res \<and> rr_bytes_read res \<le> length (concat iov)"
  using recv_into_ancillary_run [OF assms] by blast+

end

context libc_abi begin

lemma recv_into_ancillary_exec_safe:
  assumes "recv_into_ancillary L K sock iov a fl tr = Some (Ok res, iov', a', tr')"
  shows "\<exists>ev. tr' = drop_fds (anc_fds a) tr @ ev \<and> exec_safe L (anc_fds a') ev"
proof -
  let ?tr0 = "drop_fds (anc_fds a) tr"
  from assms obtain ret iov1 buf1 tr1 where
    raw: "recvmsg_raw L K sock iov (buffer a) fl ?tr0 = Some (ret, iov1, buf1, tr1)"
    by (auto simp: recv_into_ancillary_def clear_eq bind_eq_Some_conv)
  from recvmsg_raw_flags [OF raw] obtain ev1 where ev1: "tr1 = ?tr0 @ ev1"
    "\<forall>e\<in>set ev1. \<exists>h q. e = SysRecvmsg sock h (RECV_FLAGS L OR fl) q" by blast
  obtain res1 where "ret = Ok res1" using assms raw
    by (cases ret) (auto simp: recv_into_ancillary_def clear_eq)
  with assms raw obtain cl u where "cloexec_fds L K (anc_fds a') (drop_fds cl tr1) = (Ok u, tr')"
    by (auto simp: recv_into_ancillary_def clear_eq Let_def slice_def take_received_into_eq
        cloexec_received_flat anc_fds_def split: if_splits prod.splits result.splits)
  from exec_safe_compose [OF this [unfolded ev1(1)] ev1(2)] show ?thesis .
qed

end

section \<open>Properties\<close>

text \<open>A receive from an empty reference socket, and one that gets descriptors.\<close>

lemma empty_recv:
  "\<exists>a' tr'. recv_into_ancillary linux64 (loopback linux64) 3 [[0]] (new_ancillary (replicate 32 0)) 0 []
     = Some (Err (Os 11), [[0]], a', tr')"
proof -
  have "recv_loop linux64 (loopback linux64) 3 (recv_header linux64 [[0]] (replicate 32 0)) 0 []
      = Some (Err (Os 11), [SysRecvmsg 3 (recv_header linux64 [[0]] (replicate 32 0))
          (RECV_FLAGS linux64 OR 0) (Inl 11)])"
    by (subst recv_loop.simps) (simp add: recvmsg_def queue_def Let_def)
  then show ?thesis
    by (simp add: recv_into_ancillary_def recvmsg_raw_def clear_eq new_ancillary_def anc_fds_def)
qed

text \<open>
  A message that fits is received whole into any storage, which first closes what it owned; what it
  then yields are the messages in the control bytes.
\<close>

lemma offered_recv_into:
  assumes abi: "libc_abi L" and offer: "offers L K sock iov p c (drop_fds (anc_fds a) tr)"
    and own: "pidfds_in L (messages_in L c) = []"
    and room: "length p \<le> length (concat iov)" "length c \<le> length (buffer a)" "length (buffer a) < 2 ^ 32"
  shows "\<exists>tr'. recv_into_ancillary L K sock iov a fl tr
      = Some (Ok \<lparr> rr_bytes_read = length p, rr_truncated = False, rr_data_truncated = False \<rparr>, scatter iov p,
          a\<lparr>buffer := overwrite (buffer a) c, anc_length := length c, truncated := False,
            received := concat (map (received_of L) (messages_in L c)), receive_mode := True\<rparr>, tr')
    \<and> closed tr' = closed tr @ anc_fds a
    \<and> (cfg_cloexec L \<longrightarrow> tr' = drop_fds (anc_fds a) tr
        @ [SysRecvmsg sock (recv_header L iov (buffer a)) (RECV_FLAGS L OR fl) (Inr (whole_reply p c))])"
proof -
  let ?ms = "messages_in L c" let ?tr = "drop_fds (anc_fds a) tr"
  have "length (buffer a) < 2 ^ controllen_bits L"
    using libc_abi.controllen_lower [OF abi] room(3) by linarith
  note r = offered_recv_loop [OF offer room(1,2) this, of fl]
  obtain tr2 where "cloexec_fds L K (rights_in L ?ms)
      (?tr @ [SysRecvmsg sock (recv_header L iov (buffer a)) (RECV_FLAGS L OR fl)
        (Inr (whole_reply p c))]) = (Ok (), tr2)" "closed tr2 = closed ?tr"
    using offered_cloexec_fds [OF offer] by fastforce
  moreover from this have "cfg_cloexec L \<Longrightarrow> tr2 = ?tr @ [SysRecvmsg sock (recv_header L iov (buffer a))
      (RECV_FLAGS L OR fl) (Inr (whole_reply p c))]"
    by (simp add: cloexec_fds_def)
  ultimately show ?thesis
    using r room(2) own
    by (auto simp: recv_into_ancillary_def recvmsg_raw_def recv_result_of_def slice_def take_overwrite whole_reply_def
        clear_eq cloexec_received_flat Let_def libc_abi.take_received_into_eq [OF abi])
qed

lemma loopback_recv_into:
  assumes abi: "libc_abi L" and q: "queue L tr = (p, bs) # q"
    and c: "bs = encode_cmsg L (rights_message L fds)" "4 * length fds \<le> max_payload"
    and room: "length p \<le> length (concat iov)" "length bs \<le> length buf" "length buf < 2 ^ 32"
    and nonneg: "list_all (\<lambda>fd. 0 \<le> sint fd) fds"
  shows "\<exists>res a' tr'. recv_into_ancillary L (loopback L) sock iov (new_ancillary buf) fl tr
      = Some (Ok res, scatter iov p, a', tr')
    \<and> received a' = [Rights fds] \<and> rr_bytes_read res = length p \<and> \<not> rr_truncated res"
proof -
  have "messages_in L bs = [rights_message L fds]"
    using libc_abi.parse_encode [OF abi, of "[rights_message L fds]"] c by simp
  moreover have "received_of L (rights_message L fds) = [Rights fds]"
    "rights L (rights_message L fds) = fds"
    using nonneg libc_abi.received_rights_message [OF abi] rights_of_rights_message [of L fds]
    by (simp_all add: filter_id_conv list_all_iff)
  moreover have "anc_fds (new_ancillary buf) = []" "buffer (new_ancillary buf) = buf"
    by (simp_all add: new_ancillary_def anc_fds_def)
  ultimately show ?thesis
    using offered_recv_into [OF abi, of "loopback L" sock iov p bs "new_ancillary buf" tr fl] room
      loopback_offers [OF q, of sock iov] libc_abi.message_kinds [OF abi]
    by auto
qed

text \<open>A one-byte message with descriptor 7, pending on the reference kernel.\<close>

definition pending :: "libc \<Rightarrow> trace" where
  "pending L = (let c = encode_cmsg L (rights_message L [7]) in
     [SysSendmsg 5 \<lparr> s_iov = [[9]], s_iovlen = 1, s_control = Some c, s_controllen = length c \<rparr> 0 (Inr 1)])"

lemma queue_pending: "queue L (pending L) = [([9], encode_cmsg L (rights_message L [7]))]"
  by (simp add: pending_def queue_sent control_bytes_def Let_def)

lemma length_pending: "length (encode_cmsg linux64 (rights_message linux64 [7])) = 24"
    "length (encode_cmsg darwin64 (rights_message darwin64 [7])) = 16"
   by (rule linux64.length_encode_cmsg darwin64.length_encode_cmsg,
      simp add: cmsg_space_eq max_payload_def target_defs aligned_space_def align_up_def)+

text \<open>
  C6: A low-level receive accounts for every descriptor: what the storage owned before and what
  the kernel delivered is, however the call ends, what the storage owns after it and what was
  closed, each exactly once. On success the storage owns exactly the messages its used bytes
  hold; on an error it owns nothing, is empty and not truncated; it never panics and never
  changes the size of the storage.
\<close>
theorem recvmsg_accounts:
  assumes "os_interface L K"
    and "recv_into_ancillary L K fd iov a fl tr = Some (r, iov', a', tr')"
  shows "accounted L tr (anc_fds a) tr' (anc_fds a') \<and> r \<noteq> Panic
    \<and> receive_mode a' \<and> length (buffer a') = length (buffer a)
    \<and> (\<forall>e. r = Err e \<longrightarrow> received a' = [] \<and> anc_length a' = 0 \<and> \<not> truncated a')
    \<and> (\<forall>res. r = Ok res \<longrightarrow> anc_length a' \<le> length (buffer a')
      \<and> received a' = concat (map (received_of L) (messages_in L (used a')))
      \<and> truncated a' = rr_truncated res \<and> rr_bytes_read res \<le> length (concat iov))"
  using os_interface.recv_into_ancillary_cases [OF assms] by blast

theorem recvmsg_accounts_witness:
  "\<exists>a' tr'. recv_into_ancillary linux64 (loopback linux64) 3 [[0]] (new_ancillary (replicate 32 0)) 0 []
       = Some (Err (Os 11), [[0]], a', tr')
     \<and> receive_mode a' \<and> anc_length a' = 0 \<and> received a' = []"
proof -
  obtain a' tr' where run: "recv_into_ancillary linux64 (loopback linux64) 3 [[0]]
      (new_ancillary (replicate 32 0)) 0 [] = Some (Err (Os 11), [[0]], a', tr')"
    using empty_recv by blast
  from recvmsg_accounts [OF linux64_loopback.os_interface_axioms this] run show ?thesis by blast
qed

text \<open>
  The descriptors a low-level receive leaves in the storage are closed by a later \<^verbatim>\<open>exec\<close>,
  whether the kernel or the crate set the flag, whatever extra flags the receive has.
\<close>
theorem recvmsg_exec_safe:
  assumes "libc_abi L"
    and "recv_into_ancillary L K sock iov a fl tr = Some (Ok res, iov', a', tr')"
  shows "\<exists>ev. tr' = drop_fds (anc_fds a) tr @ ev \<and> exec_safe L (anc_fds a') ev"
  by (rule libc_abi.recv_into_ancillary_exec_safe [OF assms])

theorem recvmsg_exec_safe_witness:
  "\<exists>res iov' a' tr'. recv_into_ancillary darwin64 (loopback darwin64) 6 [[0]]
       (new_ancillary (replicate 16 0)) 0 (pending darwin64) = Some (Ok res, iov', a', tr')
     \<and> received a' = [Rights [7]] \<and> (\<exists>fl. SysSetfd 7 (fl OR 1) (Inr ()) \<in> set tr')"
proof -
  from loopback_recv_into [OF darwin64.libc_abi_axioms queue_pending refl,
      of "[[0]]" "replicate 16 0" 6 0]
  obtain res a' tr' where run: "recv_into_ancillary darwin64 (loopback darwin64) 6 [[0]]
      (new_ancillary (replicate 16 0)) 0 (pending darwin64) = Some (Ok res, scatter [[0]] [9], a', tr')"
    and a': "received a' = [Rights [7]]"
    by (auto simp: length_pending max_payload_def)
  from recvmsg_exec_safe [OF darwin64.libc_abi_axioms run] obtain ev where
    "tr' = pending darwin64 @ ev" "exec_safe darwin64 (anc_fds a') ev"
    by (auto simp: anc_fds_def new_ancillary_def)
  with run a' show ?thesis by (fastforce simp: exec_safe_def anc_fds_def)
qed

text \<open>
  C18: Every descriptor the crate hands out is closed by a later \<^verbatim>\<open>exec\<close>, those of the convenience
  receives and those a low-level receive or peek leaves in the storage: either every \<^verbatim>\<open>recvmsg\<close>
  carried \<^verbatim>\<open>MSG_CMSG_CLOEXEC\<close>, or the flag was set on each of them by a successful \<^verbatim>\<open>F_SETFD\<close> that
  kept the other flags; there is no third way to succeed.
\<close>
theorem receives_exec_safe:
  assumes "libc_abi L"
  shows "(recv_fds L K sock iov buf tr = Some (Ok (res, fds), iov', tr') \<longrightarrow>
      (\<exists>ev. tr' = tr @ ev \<and> exec_safe L fds ev))
    \<and> (recv_into_ancillary L K sock iov a fl tr = Some (Ok info, iov', a', tr') \<longrightarrow>
      (\<exists>ev. tr' = drop_fds (anc_fds a) tr @ ev \<and> exec_safe L (anc_fds a') ev))"
  using received_fds_exec_safe [OF assms] recvmsg_exec_safe [OF assms] by blast

theorem receives_exec_safe_witness:
  "\<exists>res iov' a' tr'. recv_into_ancillary darwin64 (loopback darwin64) 6 [[0]]
       (new_ancillary (replicate 16 0)) 0 (pending darwin64) = Some (Ok res, iov', a', tr')
     \<and> received a' = [Rights [7]] \<and> (\<exists>fl. SysSetfd 7 (fl OR 1) (Inr ()) \<in> set tr')"
proof -
  from loopback_recv_into [OF darwin64.libc_abi_axioms queue_pending refl,
      of "[[0]]" "replicate 16 0" 6 0]
  obtain res a' tr' where run: "recv_into_ancillary darwin64 (loopback darwin64) 6 [[0]]
      (new_ancillary (replicate 16 0)) 0 (pending darwin64) = Some (Ok res, scatter [[0]] [9], a', tr')"
    and a': "received a' = [Rights [7]]"
    by (auto simp: length_pending max_payload_def)
  from receives_exec_safe [OF darwin64.libc_abi_axioms, THEN conjunct2, rule_format, OF run] obtain ev where
    "tr' = pending darwin64 @ ev" "exec_safe darwin64 (anc_fds a') ev"
    by (auto simp: anc_fds_def new_ancillary_def)
  with run a' show ?thesis by (fastforce simp: exec_safe_def anc_fds_def)
qed

text \<open>
  C38: After a receive, however it ended, the storage cannot be sent or added to: a send is
  refused without a system call, an addition changes nothing. Clearing it closes what it owned
  and makes it an empty storage that can be built in again.
\<close>
theorem receive_then_send_refused:
  assumes "os_interface L K"
    and "recv_into_ancillary L K fd iov a fl tr = Some (r, iov', a', tr')"
  shows "(\<exists>m. cmsg_sendmsg L K' fd2 iov2 a' tr2 = Some (Err (Custom InvalidInput m), tr2))
    \<and> add_fds L fds a' = (Err AncillaryError, a')
    \<and> add_credentials L c a' = (Err AncillaryError, a')
    \<and> (\<exists>b. clear a' tr2 = (b, drop_fds (anc_fds a') tr2)
        \<and> anc_fds b = [] \<and> used b = [] \<and> \<not> receive_mode b \<and> buffer b = buffer a')"
proof -
  have m: "receive_mode a'" using os_interface.recv_into_ancillary_cases(3) [OF assms] by blast
  show ?thesis
    using m by (simp add: cmsg_sendmsg_def add_fds_def add_rights_def add_credentials_def
        reserve_cmsg_def clear_eq anc_fds_def used_def)
qed

theorem receive_then_send_refused_witness:
  "\<exists>r iov' a' tr'. recv_into_ancillary linux64 (loopback linux64) 3 [[0]]
       (new_ancillary (replicate 32 0)) 0 [] = Some (r, iov', a', tr')
     \<and> add_fds linux64 [5] a' = (Err AncillaryError, a')"
proof -
  obtain r iov' a' tr' where run: "recv_into_ancillary linux64 (loopback linux64) 3 [[0]]
      (new_ancillary (replicate 32 0)) 0 [] = Some (r, iov', a', tr')"
    using empty_recv by blast
  from receive_then_send_refused [OF linux64_loopback.os_interface_axioms this] run show ?thesis
    by blast
qed

end
