(* ===== verification/Ext.thy ===== *)
theory Ext
  imports Lowlevel
begin

text \<open>
  \<^verbatim>\<open>src/ext.rs\<close>: the convenience sends and receives and the extension traits of
  \<^verbatim>\<open>UnixStream\<close> and \<^verbatim>\<open>UnixDatagram\<close>. \<open>recv_core\<close> is the policy every convenience receive shares
  (truncation is an error, surplus descriptors are closed, an exact count is checked);
  \<open>send_fds_all\<close> attaches the descriptors to the first send and then completes the payload.
\<close>

definition DEFAULT_STREAM_BUF :: usize where
  "DEFAULT_STREAM_BUF = 4096"

definition DEFAULT_DATAGRAM_BUF :: usize where
  "DEFAULT_DATAGRAM_BUF = 65536"

datatype socket_kind = Stream | Datagram

datatype count_mode = UpTo usize | Exact usize

fun mode_count :: "count_mode \<Rightarrow> usize" where
  "mode_count (UpTo n) = n"
| "mode_count (Exact n) = n"

record received_fds =
  rf_data :: "byte list"
  rf_fds :: "raw_fd list"
  rf_surplus_closed :: usize

section \<open>Sending\<close>

definition payload_error :: io_error where
  "payload_error = Custom InvalidInput
     (Text ''SCM_RIGHTS over a Unix stream requires at least one payload byte'')"

definition validate_stream_send :: "byte list \<Rightarrow> usize \<Rightarrow> (io_error, unit) result" where
  "validate_stream_send data fd_count =
     (if data = [] \<and> fd_count \<noteq> 0 then Err payload_error else Ok ())"

definition send_fds_vectored_impl ::
  "libc \<Rightarrow> kernel \<Rightarrow> raw_fd \<Rightarrow> byte list list \<Rightarrow> raw_fd list \<Rightarrow> trace
     \<Rightarrow> ((io_error, usize) result \<times> trace) option" where
  "send_fds_vectored_impl L K fd iov fds tr =
     (if fds = [] then sendmsg_vectored L K fd iov [] 0 tr
      else case buffer_size_for_rights L (length fds) of
        Err e \<Rightarrow> Some (Err e, tr)
      | Panic \<Rightarrow> Some (Panic, tr)
      | Ok sz \<Rightarrow> with_control sz (\<lambda>buf.
          let ancillary = new_ancillary buf in
          (case add_rights L fds ancillary of
             (Err e, ancillary) \<Rightarrow> Some (Err (Custom InvalidInput AncillaryMsg), tr)
           | (Panic, ancillary) \<Rightarrow> Some (Panic, tr)
           | (Ok _, ancillary) \<Rightarrow>
               sendmsg_vectored L K fd iov (buffer ancillary) (anc_length ancillary) tr)))"

definition send_fds_impl ::
  "libc \<Rightarrow> kernel \<Rightarrow> raw_fd \<Rightarrow> byte list \<Rightarrow> raw_fd list \<Rightarrow> trace
     \<Rightarrow> ((io_error, usize) result \<times> trace) option" where
  "send_fds_impl L K fd data fds tr = send_fds_vectored_impl L K fd [data] fds tr"

definition iov_len :: "byte list list \<Rightarrow> usize" where
  "iov_len iov = sum_list (map length iov)"

section \<open>Receiving\<close>

definition control_size :: "libc \<Rightarrow> usize \<Rightarrow> (io_error, usize) result" where
  "control_size L cap =
     and_then (buffer_size_for_rights L cap) (\<lambda>sz.
       if cfg_linux L
       then and_then (buffer_size_for_credentials L) (\<lambda>c.
         ok_or (Custom InvalidInput (Text ''ancillary buffer size overflow''))
           (checked_add (usize_bits L) sz c))
       else Ok sz)"

text \<open>
  The checks of \<^verbatim>\<open>recv_core\<close> on what a receive returned: the descriptors to keep and
  to close are exactly the two halves of every branch.
\<close>

definition settle ::
  "socket_kind \<Rightarrow> count_mode \<Rightarrow> recv_msg_result \<Rightarrow> raw_fd list \<Rightarrow> trace
     \<Rightarrow> (io_error, usize \<times> raw_fd list \<times> usize) result \<times> trace" where
  "settle kind mode res fds tr =
     (if ancillary_truncated res
      then (Err (Custom InvalidData
             (Text ''ancillary data truncated; discard the incomplete message'')), drop_fds fds tr)
      else if kind = Datagram \<and> data_truncated res
      then (Err (Custom InvalidData
             (Text ''datagram payload truncated before it fit the receive buffer'')),
            drop_fds fds tr)
      else case mode of
        UpTo n \<Rightarrow>
          let surplus = length fds - n
          in (Ok (bytes_read res, take n fds, surplus), drop_fds (drop n fds) tr)
      | Exact n \<Rightarrow>
          if length fds \<noteq> n
          then (Err (Custom InvalidData (CountMismatch n (length fds))), drop_fds fds tr)
          else (Ok (bytes_read res, fds, 0), tr))"

definition recv_core ::
  "libc \<Rightarrow> kernel \<Rightarrow> raw_fd \<Rightarrow> byte list list \<Rightarrow> socket_kind \<Rightarrow> count_mode \<Rightarrow> trace
     \<Rightarrow> ((io_error, usize \<times> raw_fd list \<times> usize) result \<times> byte list list \<times> trace) option" where
  "recv_core L K fd iov kind mode tr =
     (let (budget, tr) = max_recv_fds L K tr; cap = max (mode_count mode) budget in
      case control_size L cap of
        Err e \<Rightarrow> Some (Err e, iov, tr)
      | Panic \<Rightarrow> Some (Panic, iov, tr)
      | Ok sz \<Rightarrow> do {
          (ret, iov, tr) \<leftarrow> with_control sz (\<lambda>buf. recv_fds L K fd iov buf tr);
          Some (case ret of
              Err e \<Rightarrow> (Err e, iov, tr)
            | Panic \<Rightarrow> (Panic, iov, tr)
            | Ok (res, fds) \<Rightarrow>
                (let (r, tr) = settle kind mode res fds tr in (r, iov, tr))) })"

definition recv_fds_into_vectored_impl ::
  "libc \<Rightarrow> kernel \<Rightarrow> raw_fd \<Rightarrow> byte list list \<Rightarrow> socket_kind \<Rightarrow> count_mode \<Rightarrow> trace
     \<Rightarrow> ((io_error, usize \<times> raw_fd list) result \<times> byte list list \<times> trace) option" where
  "recv_fds_into_vectored_impl L K fd iov kind mode tr = do {
     (ret, iov, tr) \<leftarrow> recv_core L K fd iov kind mode tr;
     Some (and_then ret (\<lambda>(bytes, fds, _). Ok (bytes, fds)), iov, tr) }"

text \<open>The caller's single buffer comes back as the kernel left it.\<close>

definition recv_fds_into_impl ::
  "libc \<Rightarrow> kernel \<Rightarrow> raw_fd \<Rightarrow> byte list \<Rightarrow> socket_kind \<Rightarrow> count_mode \<Rightarrow> trace
     \<Rightarrow> ((io_error, usize \<times> raw_fd list) result \<times> byte list \<times> trace) option" where
  "recv_fds_into_impl L K fd data_buf kind mode tr = do {
     (ret, iov, tr) \<leftarrow> recv_fds_into_vectored_impl L K fd [data_buf] kind mode tr;
     Some (ret, concat iov, tr) }"

text \<open>
  \<^verbatim>\<open>recv_owned_impl\<close> moves the buffer into the result (\<^verbatim>\<open>mem::take\<close> leaves it empty); on an
  error it stays in place.
\<close>

definition recv_owned_impl ::
  "libc \<Rightarrow> kernel \<Rightarrow> raw_fd \<Rightarrow> byte list \<Rightarrow> socket_kind \<Rightarrow> count_mode \<Rightarrow> trace
     \<Rightarrow> ((io_error, received_fds) result \<times> byte list \<times> trace) option" where
  "recv_owned_impl L K fd data_buf kind mode tr = do {
     (ret, iov, tr) \<leftarrow> recv_core L K fd [data_buf] kind mode tr;
     let data_buf = concat iov in
     Some (case ret of
         Err e \<Rightarrow> (Err e, data_buf, tr)
       | Panic \<Rightarrow> (Panic, data_buf, tr)
       | Ok (bytes, fds, surplus) \<Rightarrow>
           (Ok \<lparr> rf_data = take bytes data_buf, rf_fds = fds, rf_surplus_closed = surplus \<rparr>,
            [], tr)) }"

section \<open>UnixStream\<close>

definition stream_send_fds ::
  "libc \<Rightarrow> kernel \<Rightarrow> raw_fd \<Rightarrow> byte list \<Rightarrow> raw_fd list \<Rightarrow> trace
     \<Rightarrow> ((io_error, usize) result \<times> trace) option" where
  "stream_send_fds L K self data fds tr =
     (case validate_stream_send data (length fds) of
        Err e \<Rightarrow> Some (Err e, tr)
      | Panic \<Rightarrow> Some (Panic, tr)
      | Ok _ \<Rightarrow> send_fds_impl L K self data fds tr)"

definition stream_send_fds_vectored ::
  "libc \<Rightarrow> kernel \<Rightarrow> raw_fd \<Rightarrow> byte list list \<Rightarrow> raw_fd list \<Rightarrow> trace
     \<Rightarrow> ((io_error, usize) result \<times> trace) option" where
  "stream_send_fds_vectored L K self iov fds tr =
     (if fds \<noteq> [] \<and> iov_len iov = 0 then Some (Err payload_error, tr)
      else send_fds_vectored_impl L K self iov fds tr)"

definition stream_recv_fds_vectored ::
  "libc \<Rightarrow> kernel \<Rightarrow> raw_fd \<Rightarrow> usize \<Rightarrow> byte list list \<Rightarrow> trace
     \<Rightarrow> ((io_error, usize \<times> raw_fd list) result \<times> byte list list \<times> trace) option" where
  "stream_recv_fds_vectored L K self N iov tr =
     recv_fds_into_vectored_impl L K self iov Stream (UpTo N) tr"

partial_function (option) send_rest ::
  "libc \<Rightarrow> kernel \<Rightarrow> raw_fd \<Rightarrow> byte list \<Rightarrow> usize \<Rightarrow> trace
     \<Rightarrow> ((io_error, unit) result \<times> trace) option" where
  "send_rest L K self data sent_n tr =
     (if sent_n < length data
      then (case slice data sent_n (length data) of
          Err e \<Rightarrow> Some (Err e, tr)
        | Panic \<Rightarrow> Some (Panic, tr)
        | Ok rest \<Rightarrow> do {
            (ret, tr) \<leftarrow> send_bytes L K self rest tr;
            (case ret of
               Err e \<Rightarrow> Some (Err e, tr)
             | Panic \<Rightarrow> Some (Panic, tr)
             | Ok n \<Rightarrow>
                 if n = 0 then Some (Err (Custom WriteZero (Text ''short write'')), tr)
                 else (case checked_add (usize_bits L) sent_n n of
                     None \<Rightarrow> Some (Panic, tr)
                   | Some sent_n \<Rightarrow> send_rest L K self data sent_n tr)) })
      else Some (Ok (), tr))"

definition stream_send_fds_all ::
  "libc \<Rightarrow> kernel \<Rightarrow> raw_fd \<Rightarrow> byte list \<Rightarrow> raw_fd list \<Rightarrow> trace
     \<Rightarrow> ((io_error, unit) result \<times> trace) option" where
  "stream_send_fds_all L K self data fds tr =
     (case validate_stream_send data (length fds) of
        Err e \<Rightarrow> Some (Err e, tr)
      | Panic \<Rightarrow> Some (Panic, tr)
      | Ok _ \<Rightarrow>
        if fds = [] then send_rest L K self data 0 tr
        else do {
          (ret, tr) \<leftarrow> send_fds_impl L K self data fds tr;
          (case ret of
             Err e \<Rightarrow> Some (Err e, tr)
           | Panic \<Rightarrow> Some (Panic, tr)
           | Ok first \<Rightarrow>
               if first = 0
               then Some (Err (Custom WriteZero (Text ''failed to send fd payload byte'')), tr)
               else send_rest L K self data first tr) })"

definition stream_recv_fds ::
  "libc \<Rightarrow> kernel \<Rightarrow> raw_fd \<Rightarrow> usize \<Rightarrow> trace
     \<Rightarrow> ((io_error, received_fds) result \<times> trace) option" where
  "stream_recv_fds L K self N tr = do {
     (ret, _, tr) \<leftarrow>
       recv_owned_impl L K self (replicate DEFAULT_STREAM_BUF 0) Stream (UpTo N) tr;
     Some (ret, tr) }"

definition stream_recv_fds_into ::
  "libc \<Rightarrow> kernel \<Rightarrow> raw_fd \<Rightarrow> usize \<Rightarrow> byte list \<Rightarrow> trace
     \<Rightarrow> ((io_error, usize \<times> raw_fd list) result \<times> byte list \<times> trace) option" where
  "stream_recv_fds_into L K self N data_buf tr =
     recv_fds_into_impl L K self data_buf Stream (UpTo N) tr"

definition stream_recv_fds_exact ::
  "libc \<Rightarrow> kernel \<Rightarrow> raw_fd \<Rightarrow> usize \<Rightarrow> trace
     \<Rightarrow> ((io_error, received_fds) result \<times> trace) option" where
  "stream_recv_fds_exact L K self N tr = do {
     (ret, _, tr) \<leftarrow>
       recv_owned_impl L K self (replicate DEFAULT_STREAM_BUF 0) Stream (Exact N) tr;
     Some (ret, tr) }"

definition stream_recv_fds_exact_into ::
  "libc \<Rightarrow> kernel \<Rightarrow> raw_fd \<Rightarrow> usize \<Rightarrow> byte list \<Rightarrow> trace
     \<Rightarrow> ((io_error, usize \<times> raw_fd list) result \<times> byte list \<times> trace) option" where
  "stream_recv_fds_exact_into L K self N data_buf tr =
     recv_fds_into_impl L K self data_buf Stream (Exact N) tr"

section \<open>UnixDatagram\<close>

definition datagram_send_fds_vectored ::
  "libc \<Rightarrow> kernel \<Rightarrow> raw_fd \<Rightarrow> byte list list \<Rightarrow> raw_fd list \<Rightarrow> trace
     \<Rightarrow> ((io_error, usize) result \<times> trace) option" where
  "datagram_send_fds_vectored L K self iov fds tr = send_fds_vectored_impl L K self iov fds tr"

definition datagram_recv_fds_vectored ::
  "libc \<Rightarrow> kernel \<Rightarrow> raw_fd \<Rightarrow> usize \<Rightarrow> byte list list \<Rightarrow> trace
     \<Rightarrow> ((io_error, usize \<times> raw_fd list) result \<times> byte list list \<times> trace) option" where
  "datagram_recv_fds_vectored L K self N iov tr =
     recv_fds_into_vectored_impl L K self iov Datagram (UpTo N) tr"

definition datagram_send_fds ::
  "libc \<Rightarrow> kernel \<Rightarrow> raw_fd \<Rightarrow> byte list \<Rightarrow> raw_fd list \<Rightarrow> trace
     \<Rightarrow> ((io_error, usize) result \<times> trace) option" where
  "datagram_send_fds L K self data fds tr = send_fds_impl L K self data fds tr"

definition datagram_recv_fds ::
  "libc \<Rightarrow> kernel \<Rightarrow> raw_fd \<Rightarrow> usize \<Rightarrow> trace
     \<Rightarrow> ((io_error, received_fds) result \<times> trace) option" where
  "datagram_recv_fds L K self N tr = do {
     (ret, _, tr) \<leftarrow>
       recv_owned_impl L K self (replicate DEFAULT_DATAGRAM_BUF 0) Datagram (UpTo N) tr;
     Some (ret, tr) }"

definition datagram_recv_fds_into ::
  "libc \<Rightarrow> kernel \<Rightarrow> raw_fd \<Rightarrow> usize \<Rightarrow> byte list \<Rightarrow> trace
     \<Rightarrow> ((io_error, usize \<times> raw_fd list) result \<times> byte list \<times> trace) option" where
  "datagram_recv_fds_into L K self N data_buf tr =
     recv_fds_into_impl L K self data_buf Datagram (UpTo N) tr"

definition datagram_recv_fds_exact ::
  "libc \<Rightarrow> kernel \<Rightarrow> raw_fd \<Rightarrow> usize \<Rightarrow> trace
     \<Rightarrow> ((io_error, received_fds) result \<times> trace) option" where
  "datagram_recv_fds_exact L K self N tr = do {
     (ret, _, tr) \<leftarrow>
       recv_owned_impl L K self (replicate DEFAULT_DATAGRAM_BUF 0) Datagram (Exact N) tr;
     Some (ret, tr) }"

definition datagram_recv_fds_exact_into ::
  "libc \<Rightarrow> kernel \<Rightarrow> raw_fd \<Rightarrow> usize \<Rightarrow> byte list \<Rightarrow> trace
     \<Rightarrow> ((io_error, usize \<times> raw_fd list) result \<times> byte list \<times> trace) option" where
  "datagram_recv_fds_exact_into L K self N data_buf tr =
     recv_fds_into_impl L K self data_buf Datagram (Exact N) tr"

end
