(* ===== verification/Seqpacket.thy ===== *)
theory Seqpacket
  imports Ext
begin

text \<open>\<^verbatim>\<open>src/seqpacket.rs\<close>: the same operations as free functions over a seqpacket socket.\<close>

definition DEFAULT_BUF :: usize where
  "DEFAULT_BUF = DEFAULT_DATAGRAM_BUF"

definition seqpacket_send_fds ::
  "libc \<Rightarrow> kernel \<Rightarrow> raw_fd \<Rightarrow> byte list \<Rightarrow> raw_fd list \<Rightarrow> trace
     \<Rightarrow> ((io_error, usize) result \<times> trace) option" where
  "seqpacket_send_fds L K sock data fds tr = send_fds_impl L K sock data fds tr"

definition seqpacket_recv_fds ::
  "libc \<Rightarrow> kernel \<Rightarrow> raw_fd \<Rightarrow> usize \<Rightarrow> trace
     \<Rightarrow> ((io_error, received_fds) result \<times> trace) option" where
  "seqpacket_recv_fds L K sock N tr = do {
     (ret, _, tr) \<leftarrow> recv_owned_impl L K sock (replicate DEFAULT_BUF 0) Datagram (UpTo N) tr;
     Some (ret, tr) }"

definition seqpacket_recv_fds_into ::
  "libc \<Rightarrow> kernel \<Rightarrow> raw_fd \<Rightarrow> usize \<Rightarrow> byte list \<Rightarrow> trace
     \<Rightarrow> ((io_error, usize \<times> raw_fd list) result \<times> byte list \<times> trace) option" where
  "seqpacket_recv_fds_into L K sock N data_buf tr =
     recv_fds_into_impl L K sock data_buf Datagram (UpTo N) tr"

definition seqpacket_recv_fds_exact_into ::
  "libc \<Rightarrow> kernel \<Rightarrow> raw_fd \<Rightarrow> usize \<Rightarrow> byte list \<Rightarrow> trace
     \<Rightarrow> ((io_error, usize \<times> raw_fd list) result \<times> byte list \<times> trace) option" where
  "seqpacket_recv_fds_exact_into L K sock N data_buf tr =
     recv_fds_into_impl L K sock data_buf Datagram (Exact N) tr"

end
