(* ===== verification/Convenience.thy ===== *)
theory Convenience
  imports Seqpacket
begin

unbundle bit_operations_syntax

text \<open>
  Facts on the convenience layer: what one send hands to the kernel, the completion loop of
  \<^verbatim>\<open>send_fds_all\<close> (what it sent, that it returns), and the receive policy of \<^verbatim>\<open>recv_core\<close>
  with its balance of owned descriptors.
\<close>

section \<open>One send\<close>

lemma with_control_eq: "with_control sz f = f (replicate sz 0)"
  by (auto simp: with_control_def with_control_on_def patch_def STACK_CONTROL_def)

lemma buffer_size_for_rights_eq:
  assumes "max_payload < 2 ^ usize_bits L"
  shows "(buffer_size_for_rights L n :: ('e, usize) result) =
     (if 4 * n \<le> max_payload then Ok (unat (CMSG_SPACE L (word_of_nat (4 * n)))) else Panic)"
  using assms
  by (auto simp: buffer_size_for_rights_def checked_mul_def cmsg_space_eq mult.commute)

text \<open>The control bytes of a send of \<open>fds\<close>: none, or one descriptor message.\<close>

definition fds_control :: "libc \<Rightarrow> raw_fd list \<Rightarrow> byte list" where
  "fds_control L fds = (if fds = [] then [] else encode_cmsg L (rights_message L fds))"

context libc_abi begin

lemma max_payload_usize: "max_payload < 2 ^ usize_bits L"
  using usize_lower by (simp add: max_payload_def)

lemma control_bytes_header:
  "len \<le> length buf \<Longrightarrow> len < 2 ^ 32 \<Longrightarrow> control_bytes (send_header L iov buf len) = take len buf"
  using controllen_lower by (auto simp: send_header_def control_bytes_def Let_def)

text \<open>Storage of the computed size is filled exactly by the descriptors it was computed for.\<close>

lemma exact_storage:
  assumes fds: "fds \<noteq> []" and small: "4 * length fds \<le> max_payload"
  obtains s where "(buffer_size_for_rights L (length fds) :: (io_error, usize) result) = Ok s"
    "s < 2 ^ 32" "header_len L + 4 * length fds \<le> s" "length (encode_cmsg L (rights_message L fds)) = s"
    "add_rights L fds (new_ancillary (replicate s 0)) = (Ok (), \<lparr> buffer = encode_cmsg L (rights_message L fds),
       anc_length = s, truncated = False, received = [], receive_mode = False \<rparr>)"
proof -
  let ?m = "rights_message L fds" let ?n = "4 * length fds"
  obtain s where s: "cmsg_space L ?n = Some s" using small by (simp add: cmsg_space_eq)
  then have s': "s = unat (CMSG_SPACE L (word_of_nat ?n))"
    using small by (simp add: cmsg_space_eq)
  have len: "length (encode_cmsg L ?m) = s" using length_encode_cmsg [of ?m s] s by simp
  have wf: "anc_wf L (new_ancillary (replicate s 0))"
    using cmsg_space_bounds(3) [OF s] usize_lower by (simp add: anc_wf_def new_ancillary_def)
  have "fits L (new_ancillary (replicate s 0)) ?n"
    by (simp add: fits_def s new_ancillary_def)
  then have "add_rights L fds (new_ancillary (replicate s 0))
      = (Ok (), push_cmsg L ?m (new_ancillary (replicate s 0)))"
    using fds by (simp add: add_rights_cases [OF wf]) (simp add: new_ancillary_def)
  then show thesis
    using that [of s] len cmsg_space_bounds(1,3) [OF s] small s'
    by (simp add: buffer_size_for_rights_eq max_payload_usize push_cmsg_def new_ancillary_def patch_def)
qed

text \<open>A send with descriptors is one \<^verbatim>\<open>sendmsg\<close> whose control bytes encode exactly them.\<close>

lemma send_fds_vectored_impl_eq:
  assumes fds: "fds \<noteq> []" and small: "4 * length fds \<le> max_payload"
  shows "send_fds_vectored_impl L K fd iov fds tr =
    (let e = encode_cmsg L (rights_message L fds) in sendmsg_vectored L K fd iov e (length e) tr)"
proof -
  from exact_storage [OF assms] obtain s where s:
    "(buffer_size_for_rights L (length fds) :: (io_error, usize) result) = Ok s"
    "length (encode_cmsg L (rights_message L fds)) = s"
    "add_rights L fds (new_ancillary (replicate s 0)) = (Ok (), \<lparr> buffer = encode_cmsg L (rights_message L fds),
       anc_length = s, truncated = False, received = [], receive_mode = False \<rparr>)" .
  show ?thesis
    unfolding send_fds_vectored_impl_def with_control_eq using fds by (simp add: s Let_def)
qed

lemma send_fds_vectored_impl_trace:
  assumes small: "4 * length fds \<le> max_payload"
    and run: "send_fds_vectored_impl L K fd iov fds tr = Some (r, tr')"
  shows "\<exists>ev. tr' = tr @ ev \<and> neutral L ev \<and> r \<noteq> Panic
    \<and> (send_contract K \<longrightarrow> (\<forall>n. r = Ok n \<longrightarrow> n \<le> length (concat iov)))
    \<and> sent ev = (case r of Ok n \<Rightarrow> [(take n (concat iov), fds_control L fds)] | _ \<Rightarrow> [])"
proof (cases "fds = []")
  case True
  with run have "sendmsg_vectored L K fd iov [] 0 tr = Some (r, tr')"
    by (simp add: send_fds_vectored_impl_def)
  note t = sendmsg_vectored_trace [OF this]
  have c: "control_bytes (send_header L iov [] 0) = fds_control L fds"
    using True by (simp add: fds_control_def control_bytes_header)
  show ?thesis using t unfolding c .
next
  case False
  let ?e = "encode_cmsg L (rights_message L fds)"
  obtain s where s: "cmsg_space L (4 * length fds) = Some s" using small by (simp add: cmsg_space_eq)
  then have "length ?e < 2 ^ 32"
    using length_encode_cmsg [of "rights_message L fds" s] cmsg_space_bounds(3) [OF s] by simp
  then have c: "control_bytes (send_header L iov ?e (length ?e)) = fds_control L fds"
    using False by (simp add: fds_control_def control_bytes_header)
  have "sendmsg_vectored L K fd iov ?e (length ?e) tr = Some (r, tr')"
    using run by (simp add: send_fds_vectored_impl_eq [OF False small] Let_def)
  note t = sendmsg_vectored_trace [OF this]
  show ?thesis using t unfolding c .
qed

end

section \<open>The completion loop\<close>

text \<open>Unfolding once, with the impossible branches of the slice removed.\<close>

lemma send_rest_unfold:
  "send_rest L K self data pos tr =
     (if pos < length data
      then Option.bind (send_bytes L K self (drop pos data) tr) (\<lambda>(ret, tr).
        case ret of
          Err e \<Rightarrow> Some (Err e, tr)
        | Panic \<Rightarrow> Some (Panic, tr)
        | Ok n \<Rightarrow>
            if n = 0 then Some (Err (Custom WriteZero (Text ''short write'')), tr)
            else (case checked_add (usize_bits L) pos n of
                None \<Rightarrow> Some (Panic, tr)
              | Some pos' \<Rightarrow> send_rest L K self data pos' tr))
      else Some (Ok (), tr))"
  by (subst send_rest.simps) (simp add: slice_def)

text \<open>
  What a run of sends put on the wire: \<open>payload\<close> in order, and the control bytes of each.
\<close>

definition payload :: "trace \<Rightarrow> byte list" where
  "payload ev = concat (map fst (sent ev))"

definition controls :: "trace \<Rightarrow> byte list list" where
  "controls ev = map snd (sent ev)"

lemma payload_append [simp]: "payload (e @ e') = payload e @ payload e'"
  by (simp add: payload_def)

lemma controls_append [simp]: "controls (e @ e') = controls e @ controls e'"
  by (simp add: controls_def)

text \<open>A call that hands the kernel at most one message, a prefix of \<open>d\<close> with control bytes \<open>c\<close>.\<close>

definition sends ::
  "libc \<Rightarrow> byte list \<Rightarrow> byte list \<Rightarrow> trace \<Rightarrow> (io_error, usize) result \<Rightarrow> trace \<Rightarrow> bool" where
  "sends L d c tr r tr' \<longleftrightarrow> (\<exists>ev. tr' = tr @ ev \<and> neutral L ev \<and> r \<noteq> Panic
     \<and> (\<forall>n. r = Ok n \<longrightarrow> n \<le> length d)
     \<and> sent ev = (case r of Ok n \<Rightarrow> [(take n d, c)] | _ \<Rightarrow> []))"

text \<open>What a whole transfer of \<open>d\<close> with control bytes \<open>c\<close> may put on the wire, however it ends.\<close>

definition transfers ::
  "libc \<Rightarrow> byte list \<Rightarrow> byte list \<Rightarrow> trace \<Rightarrow> (io_error, unit) result \<Rightarrow> trace \<Rightarrow> bool" where
  "transfers L d c tr r tr' \<longleftrightarrow> (\<exists>ev k. tr' = tr @ ev \<and> neutral L ev \<and> payload ev = take k d
     \<and> r \<noteq> Panic \<and> (controls ev = [] \<or> (\<exists>rest. controls ev = c # rest \<and> set rest \<subseteq> {[]}))
     \<and> (r = Ok () \<longrightarrow> payload ev = d))"

lemma transfers_refused: "r = Err e \<Longrightarrow> tr' = tr \<Longrightarrow> transfers L d c tr r tr'"
  unfolding transfers_def
  by (intro exI [of _ "[]"] exI [of _ 0]) (simp add: payload_def controls_def)

text \<open>
  A loop that completes a payload by repeated partial sends: its equation, and what one send
  from a position does.
\<close>

locale completion_loop =
  fixes L :: libc
    and data :: "byte list"
    and step :: "usize \<Rightarrow> trace \<Rightarrow> ((io_error, usize) result \<times> trace) option"
    and loop :: "usize \<Rightarrow> trace \<Rightarrow> ((io_error, unit) result \<times> trace) option"
  assumes unfold: "pos < length data \<Longrightarrow> loop pos tr =
      Option.bind (step pos tr) (\<lambda>(ret, tr).
        case ret of
          Err e \<Rightarrow> Some (Err e, tr)
        | Panic \<Rightarrow> Some (Panic, tr)
        | Ok n \<Rightarrow>
            if n = 0 then Some (Err (Custom WriteZero (Text ''short write'')), tr)
            else (case checked_add (usize_bits L) pos n of
                None \<Rightarrow> Some (Panic, tr) | Some pos' \<Rightarrow> loop pos' tr))"
    and finished: "\<not> pos < length data \<Longrightarrow> loop pos tr = Some (Ok (), tr)"
    and step_sends: "pos < length data \<Longrightarrow> step pos tr = Some (r, tr') \<Longrightarrow>
      sends L (drop pos data) [] tr r tr'"
begin

lemma step_trace:
  assumes "pos < length data" "step pos tr = Some (r, tr')"
  shows "\<exists>ev. tr' = tr @ ev \<and> neutral L ev \<and> r \<noteq> Panic \<and> (\<forall>n. r = Ok n \<longrightarrow> pos + n \<le> length data)
    \<and> sent ev = (case r of Ok n \<Rightarrow> [(take n (drop pos data), [])] | _ \<Rightarrow> [])"
  using step_sends [OF assms] assms(1) unfolding sends_def by fastforce

text \<open>One turn of the loop, as a case distinction.\<close>

lemma loop_cases:
  assumes run: "loop pos tr = Some (r, tr')"
    and pos: "pos < length data" and size: "length data < 2 ^ usize_bits L"
  obtains (fail) ev e where "tr' = tr @ ev" "neutral L ev" "sent ev = [] \<or> sent ev = [([], [])]"
      "r = Err e"
  | (more) ev n where "neutral L ev" "0 < n" "pos + n \<le> length data"
      "sent ev = [(take n (drop pos data), [])]" "loop (pos + n) (tr @ ev) = Some (r, tr')"
proof -
  from run pos obtain ret tr1 where s: "step pos tr = Some (ret, tr1)"
    by (auto simp: unfold bind_eq_Some_conv)
  from step_trace [OF pos s] obtain ev where ev: "tr1 = tr @ ev" "neutral L ev" "ret \<noteq> Panic"
    "\<forall>n. ret = Ok n \<longrightarrow> pos + n \<le> length data"
    "sent ev = (case ret of Ok n \<Rightarrow> [(take n (drop pos data), [])] | _ \<Rightarrow> [])"
    by blast
  show thesis
  proof (cases ret)
    case (Err e)
    with run pos s ev(1) have "r = Err e" "tr' = tr @ ev" by (simp_all add: unfold)
    with fail ev Err show thesis by simp
  next
    case Panic
    with ev(3) show thesis by simp
  next
    case (Ok n)
    show thesis
    proof (cases "n = 0")
      case True
      with run pos s ev(1) Ok have "r = Err (Custom WriteZero (Text ''short write''))" "tr' = tr @ ev"
        by (simp_all add: unfold)
      with fail ev Ok True show thesis by simp
    next
      case False
      have n: "pos + n \<le> length data" using ev(4) Ok by simp
      then have "checked_add (usize_bits L) pos n = Some (pos + n)"
        using size by (simp add: checked_add_def)
      then have "loop (pos + n) (tr @ ev) = Some (r, tr')"
        using run pos s Ok False ev(1) by (simp add: unfold)
      with more ev Ok False n show thesis by simp
    qed
  qed
qed

text \<open>
  The bytes put on the wire are a prefix of what remained, all of it on success, and no
  further descriptors are attached.
\<close>

lemma loop_trace:
  assumes "loop pos tr = Some (r, tr')"
    and "pos \<le> length data" and "length data < 2 ^ usize_bits L"
  shows "\<exists>ev k. tr' = tr @ ev \<and> neutral L ev \<and> payload ev = take k (drop pos data)
    \<and> set (controls ev) \<subseteq> {[]} \<and> r \<noteq> Panic \<and> (r = Ok () \<longrightarrow> payload ev = drop pos data)"
  using assms
proof (induction "length data - pos" arbitrary: pos tr rule: less_induct)
  case less
  show ?case
  proof (cases "pos < length data")
    case False
    with less.prems finished [of pos tr] have "r = Ok ()" "tr' = tr" "drop pos data = []" by simp_all
    then show ?thesis
      by (intro exI [of _ "[]"] exI [of _ 0]) (simp add: payload_def controls_def)
  next
    case True
    from less.prems(1) True less.prems(3) show ?thesis
    proof (cases rule: loop_cases)
      case (fail ev e)
      then show ?thesis
        by (intro exI [of _ ev] exI [of _ 0]) (auto simp: payload_def controls_def)
    next
      case (more ev n)
      have "length data - (pos + n) < length data - pos" using more True by simp
      from less.hyps [OF this more(5) more(3) less.prems(3)] obtain ev' k where
        ev': "tr' = (tr @ ev) @ ev'" "neutral L ev'" "payload ev' = take k (drop (pos + n) data)"
        "set (controls ev') \<subseteq> {[]}" "r \<noteq> Panic" "r = Ok () \<longrightarrow> payload ev' = drop (pos + n) data"
        by blast
      have p: "payload ev = take n (drop pos data)" "controls ev = [[]]"
        using more(4) by (simp_all add: payload_def controls_def)
      have d: "drop (pos + n) data = drop n (drop pos data)" by (simp add: add.commute)
      have "payload (ev @ ev') = take (n + k) (drop pos data)"
        unfolding payload_append p(1) ev'(3) d by (rule take_add [symmetric])
      moreover have "r = Ok () \<longrightarrow> payload (ev @ ev') = drop pos data"
        unfolding payload_append p(1) using ev'(6) d by (metis append_take_drop_id)
      moreover have "tr' = tr @ (ev @ ev')" "neutral L (ev @ ev')" "set (controls (ev @ ev')) \<subseteq> {[]}"
        using ev' more(1) p by simp_all
      ultimately show ?thesis using ev'(5) by blast
    qed
  qed
qed

text \<open>A first send with control bytes \<open>c\<close>, completed by the loop.\<close>

lemma first_then_rest:
  assumes first: "neutral L ev" "sent ev = [(take n data, c)]" "n \<le> length data"
    and rest: "loop n (tr @ ev) = Some (r, tr')" and size: "length data < 2 ^ usize_bits L"
  shows "\<exists>ev k. tr' = tr @ ev \<and> neutral L ev \<and> payload ev = take k data \<and> r \<noteq> Panic
    \<and> (\<exists>rest. controls ev = c # rest \<and> set rest \<subseteq> {[]}) \<and> (r = Ok () \<longrightarrow> payload ev = data)"
proof -
  from loop_trace [OF rest first(3) size] obtain ev' k where
    e: "tr' = (tr @ ev) @ ev'" "neutral L ev'" "payload ev' = take k (drop n data)"
    "set (controls ev') \<subseteq> {[]}" "r \<noteq> Panic" "r = Ok () \<longrightarrow> payload ev' = drop n data"
    by blast
  have p: "payload ev = take n data" "controls ev = [c]"
    using first(2) by (simp_all add: payload_def controls_def)
  have "payload (ev @ ev') = take (n + k) data"
    using p e(3) by (simp add: take_add)
  moreover have "r = Ok () \<longrightarrow> payload (ev @ ev') = data"
    unfolding payload_append p(1) using e(6) by (metis append_take_drop_id)
  ultimately show ?thesis
    using e first(1) p by (intro exI [of _ "ev @ ev'"] exI [of _ "n + k"]) simp
qed

text \<open>The loop returns when each of its sends does: every turn shortens what remains.\<close>

lemma loop_returns:
  assumes steps: "\<And>pos tr. \<exists>r tr'. step pos tr = Some (r, tr')"
    and size: "length data < 2 ^ usize_bits L" and "pos \<le> length data"
  shows "\<exists>r tr'. loop pos tr = Some (r, tr')"
  using assms(3)
proof (induction "length data - pos" arbitrary: pos tr rule: less_induct)
  case less
  show ?case
  proof (cases "pos < length data")
    case False
    then show ?thesis by (simp add: finished)
  next
    case True
    obtain ret tr1 where s: "step pos tr = Some (ret, tr1)" using steps by blast
    from step_trace [OF True s] have n: "\<forall>n. ret = Ok n \<longrightarrow> pos + n \<le> length data" by auto
    show ?thesis
    proof (cases "\<exists>n. ret = Ok n \<and> n \<noteq> 0")
      case False
      with True s show ?thesis by (cases ret) (simp_all add: unfold)
    next
      case t: True
      then obtain m where m: "ret = Ok m" "m \<noteq> 0" by blast
      with n have le: "pos + m \<le> length data" by simp
      then have "\<exists>r tr'. loop (pos + m) tr1 = Some (r, tr')"
        using less.hyps [of "pos + m" tr1] m True by simp
      then show ?thesis using True s m le size by (simp add: unfold checked_add_def)
    qed
  qed
qed

end

text \<open>
  \<^verbatim>\<open>send_fds_all\<close>, blocking or not: validate, attach the descriptors to a first send, complete
  the payload with the loop.
\<close>

locale attached_send = completion_loop +
  fixes fds :: "raw_fd list"
    and first :: "trace \<Rightarrow> ((io_error, usize) result \<times> trace) option"
    and whole :: "trace \<Rightarrow> ((io_error, unit) result \<times> trace) option"
  assumes whole_eq: "whole tr =
      (if data = [] \<and> fds \<noteq> [] then Some (Err payload_error, tr)
       else if fds = [] then loop 0 tr
       else Option.bind (first tr) (\<lambda>(ret, tr).
         case ret of
           Err e \<Rightarrow> Some (Err e, tr)
         | Panic \<Rightarrow> Some (Panic, tr)
         | Ok n \<Rightarrow>
             if n = 0 then Some (Err (Custom WriteZero (Text ''failed to send fd payload byte'')), tr)
             else loop n tr))"
    and first_sends: "fds \<noteq> [] \<Longrightarrow> first tr = Some (r, tr') \<Longrightarrow> sends L data (fds_control L fds) tr r tr'"
begin

lemma plain_transfers:
  assumes "fds = []" and run: "loop 0 tr = Some (r, tr')" and size: "length data < 2 ^ usize_bits L"
  shows "transfers L data (fds_control L fds) tr r tr'"
proof -
  from loop_trace [OF run _ size, unfolded drop_0] obtain ev k where
    e: "tr' = tr @ ev" "neutral L ev" "payload ev = take k data" "set (controls ev) \<subseteq> {[]}"
      "r \<noteq> Panic" "r = Ok () \<longrightarrow> payload ev = data"
    by blast
  have "controls ev = [] \<or> (\<exists>rest. controls ev = fds_control L fds # rest \<and> set rest \<subseteq> {[]})"
    using e(4) assms(1) by (cases "controls ev") (auto simp: fds_control_def)
  with e show ?thesis unfolding transfers_def by blast
qed

lemma whole_transfers:
  assumes run: "whole tr = Some (r, tr')" and size: "length data < 2 ^ usize_bits L"
  shows "transfers L data (fds_control L fds) tr r tr'"
proof (cases "fds = [] \<or> data = []")
  case True
  then show ?thesis
    using run plain_transfers [OF _ _ size] transfers_refused by (fastforce simp: whole_eq split: if_splits)
next
  case False
  with run obtain r1 tr1 where s: "first tr = Some (r1, tr1)" by (auto simp: whole_eq bind_eq_Some_conv)
  from first_sends [OF _ s] False obtain ev where ev: "tr1 = tr @ ev" "neutral L ev" "r1 \<noteq> Panic"
    "\<forall>n. r1 = Ok n \<longrightarrow> n \<le> length data"
    "sent ev = (case r1 of Ok n \<Rightarrow> [(take n data, fds_control L fds)] | _ \<Rightarrow> [])"
    unfolding sends_def by blast
  show ?thesis
  proof (cases "\<exists>n. r1 = Ok n \<and> n \<noteq> 0")
    case f: False
    have "\<exists>e. r = Err e \<and> tr' = tr @ ev"
      using False f run s ev(1,3) by (cases r1) (auto simp: whole_eq)
    moreover have "payload ev = take 0 data" "controls ev = [] \<or> controls ev = [fds_control L fds]"
      using f ev(5) by (cases r1; simp add: payload_def controls_def)+
    ultimately show ?thesis using ev(2) unfolding transfers_def by fastforce
  next
    case True
    then obtain n where n: "r1 = Ok n" "n \<noteq> 0" by blast
    then have "loop n (tr @ ev) = Some (r, tr')" using False run s ev(1) by (simp add: whole_eq)
    moreover have "n \<le> length data" "sent ev = [(take n data, fds_control L fds)]"
      using n(1) ev(4,5) by simp_all
    ultimately show ?thesis
      using first_then_rest [OF ev(2) _ _ _ size] unfolding transfers_def by blast
  qed
qed

lemma whole_returns:
  assumes steps: "\<And>pos tr. \<exists>r tr'. step pos tr = Some (r, tr')"
    and one: "\<And>tr. fds \<noteq> [] \<Longrightarrow> \<exists>r tr'. first tr = Some (r, tr')"
    and size: "length data < 2 ^ usize_bits L"
  shows "\<exists>r tr'. whole tr = Some (r, tr')"
proof (cases "fds = [] \<or> data = []")
  case True
  then show ?thesis using loop_returns [OF steps size, of 0 tr] by (auto simp: whole_eq)
next
  case False
  then obtain r1 tr1 where s: "first tr = Some (r1, tr1)" using one by blast
  with first_sends False have "r1 = Ok n \<Longrightarrow> n \<le> length data" for n unfolding sends_def by blast
  then show ?thesis
    using False s loop_returns [OF steps size, of _ tr1] by (cases r1) (auto simp: whole_eq)
qed

end

context os_interface begin

lemma send_bytes_sends:
  assumes "send_bytes L K fd data tr = Some (r, tr')"
  shows "sends L data [] tr r tr'"
proof -
  have c: "control_bytes (send_header L [data] [] 0) = []" "concat [data] = data"
    by (simp_all add: control_bytes_header)
  show ?thesis
    using sendmsg_vectored_trace [OF assms [unfolded send_bytes_def]] send_ok
    unfolding sends_def c by simp
qed

lemma send_fds_sends:
  assumes small: "4 * length fds \<le> max_payload" and run: "send_fds_impl L K fd data fds tr = Some (r, tr')"
  shows "sends L data (fds_control L fds) tr r tr'"
proof -
  have c: "concat [data] = data" by simp
  show ?thesis
    using send_fds_vectored_impl_trace [OF small run [unfolded send_fds_impl_def]] send_ok
    unfolding sends_def c by blast
qed

lemma send_rest_completion:
  "completion_loop L data (\<lambda>pos. send_bytes L K fd (drop pos data)) (send_rest L K fd data)"
proof
  fix pos tr r tr'
  assume "send_bytes L K fd (drop pos data) tr = Some (r, tr')"
  then show "sends L (drop pos data) [] tr r tr'" by (rule send_bytes_sends)
qed (subst send_rest_unfold, simp)+

lemma send_fds_all_attached:
  assumes "4 * length fds \<le> max_payload"
  shows "attached_send L data (\<lambda>pos. send_bytes L K fd (drop pos data)) (send_rest L K fd data)
    fds (send_fds_impl L K fd data fds) (stream_send_fds_all L K fd data fds)"
proof (rule attached_send.intro [OF send_rest_completion attached_send_axioms.intro])
  fix tr r tr'
  assume "send_fds_impl L K fd data fds tr = Some (r, tr')"
  from send_fds_sends [OF assms this] show "sends L data (fds_control L fds) tr r tr'" .
qed (auto simp: stream_send_fds_all_def validate_stream_send_def)

end

interpretation loopback_rest: completion_loop linux64 data
  "\<lambda>pos. send_bytes linux64 (loopback linux64) fd (drop pos data)"
  "send_rest linux64 (loopback linux64) fd data" for fd data
  by (rule linux64_loopback.send_rest_completion)

interpretation loopback_one: attached_send linux64 data
  "\<lambda>pos. send_bytes linux64 (loopback linux64) fd (drop pos data)"
  "send_rest linux64 (loopback linux64) fd data" "[x]"
  "send_fds_impl linux64 (loopback linux64) fd data [x]"
  "stream_send_fds_all linux64 (loopback linux64) fd data [x]" for fd data x
  by (rule linux64_loopback.send_fds_all_attached) (simp add: max_payload_def)

section \<open>When the loops return\<close>

text \<open>The kernel interrupts a given send only finitely often.\<close>

definition send_progress :: "libc \<Rightarrow> kernel \<Rightarrow> bool" where
  "send_progress L K \<longleftrightarrow> (\<forall>tr fd msg. \<exists>n. sys_sendmsg K
     (tr @ replicate n (SysSendmsg fd msg (SEND_FLAGS L) (Inl (EINTR L)))) fd msg (SEND_FLAGS L)
     \<noteq> Inl (EINTR L))"

lemma send_loop_returns:
  "send_progress L K \<Longrightarrow> \<exists>x. send_loop L K fd msg tr = Some x"
  using send_calls.diverges_iff [of L K fd msg tr] unfolding send_progress_def
  by (cases "send_loop L K fd msg tr") auto

lemma sendmsg_vectored_returns:
  assumes "send_progress L K"
  shows "\<exists>r tr'. sendmsg_vectored L K fd iov buf len tr = Some (r, tr')"
proof -
  have "\<exists>x. send_loop L K fd msg tr1 = Some x" for msg tr1
    using assms by (rule send_loop_returns)
  then show ?thesis
    by (cases "prepare_send L K fd tr")
      (fastforce simp: sendmsg_vectored_def split: result.splits)
qed

lemma send_bytes_returns:
  "send_progress L K \<Longrightarrow> \<exists>r tr'. send_bytes L K fd data tr = Some (r, tr')"
  using sendmsg_vectored_returns by (simp add: send_bytes_def)

context os_interface begin

text \<open>
  \<^verbatim>\<open>send_fds_all\<close>: a prefix of the data goes out, all of it on success, and the descriptors are
  attached to the first send only.
\<close>

lemma stream_send_fds_all_transfers:
  assumes "stream_send_fds_all L K fd data fds tr = Some (r, tr')"
    and "4 * length fds \<le> max_payload" and "length data < 2 ^ usize_bits L"
  shows "transfers L data (fds_control L fds) tr r tr'"
  by (rule attached_send.whole_transfers [OF send_fds_all_attached [OF assms(2)] assms(1,3)])

lemma send_fds_impl_returns:
  assumes "send_progress L K" "4 * length fds \<le> max_payload"
  shows "\<exists>r tr'. send_fds_impl L K fd data fds tr = Some (r, tr')"
  using assms sendmsg_vectored_returns [OF assms(1)]
  by (cases "fds = []")
    (simp add: send_fds_impl_def send_fds_vectored_impl_def,
     simp add: send_fds_impl_def send_fds_vectored_impl_eq Let_def)

lemma stream_send_fds_all_returns:
  assumes "send_progress L K" and "4 * length fds \<le> max_payload" and "length data < 2 ^ usize_bits L"
  shows "\<exists>r tr'. stream_send_fds_all L K fd data fds tr = Some (r, tr')"
  by (rule attached_send.whole_returns [OF send_fds_all_attached [OF assms(2)]
      send_bytes_returns [OF assms(1)] send_fds_impl_returns [OF assms(1,2)] assms(3)])

end

section \<open>The receive policy\<close>

fun kept :: "(io_error, usize \<times> raw_fd list \<times> usize) result \<Rightarrow> raw_fd list" where
  "kept (Ok (n, fds, surplus)) = fds"
| "kept (Err e) = []"
| "kept Panic = []"

text \<open>
  The four ways through \<^verbatim>\<open>recv_core\<close>: sizing the control storage fails or panics, the receive does
  not succeed, or the checks settle what it returned.
\<close>

lemma recv_coreE:
  assumes run: "recv_core L K fd iov kind mode tr = Some (r, iov', tr')"
  obtains
    (sizing) budget e where "max_recv_fds L K tr = (budget, tr')"
      "control_size L (max (mode_count mode) budget) = Err e" "r = Err e" "iov' = iov"
  | (huge) budget where "max_recv_fds L K tr = (budget, tr')"
      "control_size L (max (mode_count mode) budget) = Panic" "r = Panic" "iov' = iov"
  | (failed) budget tr0 sz ret where "max_recv_fds L K tr = (budget, tr0)"
      "recv_fds L K fd iov (replicate sz 0) tr0 = Some (ret, iov', tr')"
      "\<forall>x. ret \<noteq> Ok x" "\<forall>e. r = Err e \<longleftrightarrow> ret = Err e" "\<forall>x. r \<noteq> Ok x" "kept r = []"
  | (settled) budget tr0 sz res fds tr1 where "max_recv_fds L K tr = (budget, tr0)"
      "recv_fds L K fd iov (replicate sz 0) tr0 = Some (Ok (res, fds), iov', tr1)"
      "settle kind mode res fds tr1 = (r, tr')"
proof -
  obtain budget tr0 where b: "max_recv_fds L K tr = (budget, tr0)" by fastforce
  show thesis
  proof (cases "control_size L (max (mode_count mode) budget)")
    case (Err e)
    with run b sizing show thesis by (simp add: recv_core_def)
  next
    case Panic
    with run b huge show thesis by (simp add: recv_core_def)
  next
    case (Ok sz)
    with run b obtain ret iov1 tr1 where
      f: "recv_fds L K fd iov (replicate sz 0) tr0 = Some (ret, iov1, tr1)"
      by (auto simp: recv_core_def with_control_eq bind_eq_Some_conv Let_def)
    show thesis
    proof (cases ret)
      case o: (Ok x)
      obtain res fds where x: "x = (res, fds)" by fastforce
      obtain r2 tr2 where st: "settle kind mode res fds tr1 = (r2, tr2)" by fastforce
      have "r = r2" "iov' = iov1" "tr' = tr2"
        using run b Ok f o x st by (simp_all add: recv_core_def with_control_eq)
      with settled b f o x st show thesis by blast
    qed (use run b Ok f failed in \<open>auto simp: recv_core_def with_control_eq\<close>)
  qed
qed

lemma settle_cases:
  assumes "settle kind mode res fds tr = (r, tr')"
  shows "accounted L tr fds tr' (kept r) \<and> r \<noteq> Panic
    \<and> tr' = drop_fds (drop (length (kept r)) fds) tr \<and> kept r = take (length (kept r)) fds"
proof -
  have d: "accounted L tr fds (drop_fds fds tr) []" using accounted_drop [of L tr fds "[]"] by simp
  note t = accounted_split [of L tr fds]
  show ?thesis
    using assms d t
    by (auto simp: settle_def Let_def min_def split: if_splits count_mode.splits)
qed

text \<open>
  The policy as a function of the kernel's reply alone: the specification \<^verbatim>\<open>recv_core\<close>
  implements where the kernel sets close-on-exec itself.
\<close>

definition recv_policy ::
  "libc \<Rightarrow> socket_kind \<Rightarrow> count_mode \<Rightarrow> recv_reply
     \<Rightarrow> (io_error, usize \<times> raw_fd list \<times> usize) result" where
  "recv_policy L kind mode reply =
     (let fds = rights_in L (messages_in L (rr_control reply)) in
      if rr_flags reply AND MSG_CTRUNC L \<noteq> 0
      then Err (Custom InvalidData
        (Text ''ancillary data truncated; discard the incomplete message''))
      else if kind = Datagram \<and> rr_flags reply AND MSG_TRUNC L \<noteq> 0
      then Err (Custom InvalidData
        (Text ''datagram payload truncated before it fit the receive buffer''))
      else case mode of
        UpTo n \<Rightarrow> Ok (length (rr_data reply), take n fds, length fds - n)
      | Exact n \<Rightarrow> if length fds = n then Ok (length (rr_data reply), fds, 0)
          else Err (Custom InvalidData (CountMismatch n (length fds))))"

context libc_abi begin

text \<open>A receive sizes its control storage without a panic unless the caller asks for \<open>2 ^ 29\<close> descriptors.\<close>

lemma control_size_cases:
  "4 * cap \<le> max_payload \<Longrightarrow> control_size L cap \<noteq> Panic"
  "max_payload < 4 * cap \<Longrightarrow> control_size L cap = Panic"
  by (auto simp: control_size_def buffer_size_for_rights_eq max_payload_usize
      buffer_size_for_credentials_def cmsg_space_eq ucred_SIZE_def outcome_simps)
    (simp_all add: max_payload_def)

end

context os_interface begin

text \<open>Every way a convenience receive ends keeps the balance of owned descriptors.\<close>

lemma control_size_ok:
  assumes "max_recv_fds L K tr = (budget, tr0)" "4 * mode_count mode \<le> max_payload"
  shows "control_size L (max (mode_count mode) budget) \<noteq> Panic"
  by (rule control_size_cases)
    (use assms max_recv_fds_range [of L K tr] in \<open>simp add: HARD_CEILING_def max_payload_def max_def\<close>)

lemma max_recv_fds_accounts: "max_recv_fds L K tr = (budget, tr0) \<Longrightarrow> accounted L tr [] tr0 []"
  using max_recv_fds_trace [of L K tr] accounted_neutral by fastforce

lemma recv_core_cases:
  assumes run: "recv_core L K fd iov kind mode tr = Some (r, iov', tr')"
    and small: "4 * mode_count mode \<le> max_payload"
  shows "accounted L tr [] tr' (kept r) \<and> r \<noteq> Panic \<and> map length iov' = map length iov"
  using run
proof (cases rule: recv_coreE)
  case (sizing budget e)
  with max_recv_fds_accounts show ?thesis by simp
next
  case (huge budget)
  with control_size_ok [OF huge(1) small] show ?thesis by simp
next
  case (failed budget tr0 sz ret)
  note c = recv_fds_cases [OF failed(2)]
  then obtain e where e: "ret = Err e" using failed(3) by (cases ret) auto
  then have "r = Err e" using failed(4) by blast
  with c e show ?thesis
    using accounted_trans [OF max_recv_fds_accounts [OF failed(1)]] failed(6) by simp
next
  case (settled budget tr0 sz res fds tr1)
  note c = recv_fds_cases [OF settled(2)] and d = settle_cases [OF settled(3)]
  then have "accounted L tr0 [] tr1 fds" by simp
  from accounted_trans [OF accounted_trans [OF max_recv_fds_accounts [OF settled(1)] this]] c d
  show ?thesis by blast
qed

text \<open>
  Where the kernel sets close-on-exec itself, the outcome of a convenience receive is
  \<open>recv_policy\<close> of the kernel's reply.
\<close>

lemma recv_fds_reply:
  assumes run: "recv_fds L K fd iov buf tr = Some (r, iov', tr')" and native: "cfg_cloexec L"
  shows "(\<exists>e ev. r = Err (Os e) \<and> iov' = iov \<and> tr' = tr @ ev \<and> replies ev = [])
    \<or> (\<exists>pre reply post. tr' = tr @ pre
          @ SysRecvmsg fd (recv_header L iov buf) (RECV_FLAGS L) (Inr reply) # map SysClose post
        \<and> replies pre = []
        \<and> r = Ok (recv_result_of L reply, rights_in L (messages_in L (rr_control reply)))
        \<and> rr_ret reply = length (rr_data reply) \<and> iov' = scatter iov (rr_data reply))"
proof -
  from run obtain ret iov1 buf1 tr1 where
    raw: "recvmsg_raw L K fd iov buf 0 tr = Some (ret, iov1, buf1, tr1)"
    by (auto simp: recv_fds_def bind_eq_Some_conv)
  show ?thesis
  proof (cases "\<exists>res. ret = Ok res")
    case False
    then obtain e ev where "ret = Err (Os e)" "iov1 = iov" "tr1 = tr @ ev" "replies ev = []"
      using recvmsg_raw_other [OF raw] by blast
    moreover from this run raw have "r = Err (Os e)" "iov' = iov" "tr' = tr1" by (simp_all add: recv_fds_def)
    ultimately show ?thesis by blast
  next
    case True
    then obtain res where ret: "ret = Ok res" by blast
    from recvmsg_raw_reply [OF raw [unfolded ret]] obtain reply n where
      t: "tr1 = tr @ replicate n (SysRecvmsg fd (recv_header L iov buf) (RECV_FLAGS L OR 0)
          (Inl (EINTR L))) @ [SysRecvmsg fd (recv_header L iov buf) (RECV_FLAGS L OR 0) (Inr reply)]"
      and q: "res = recv_result_of L reply" "rr_ret reply = length (rr_data reply)"
        "iov1 = scatter iov (rr_data reply)" "rr_controllen reply = length (rr_control reply)"
        "length (rr_control reply) \<le> length buf" "length buf1 = length buf"
        "take (length (rr_control reply)) buf1 = rr_control reply"
      by blast
    with run raw ret native have
      "r = Ok (recv_result_of L reply, rights_in L (messages_in L (rr_control reply)))"
      "iov' = scatter iov (rr_data reply)"
      "tr' = drop_fds (pidfds_in L (messages_in L (rr_control reply))) tr1"
      by (simp_all add: recv_fds_def recv_result_of_def slice_def take_fds_eq cloexec_fds_def)
    with t q(2) show ?thesis
      by (intro disjI2 exI [of _ "replicate n (SysRecvmsg fd (recv_header L iov buf) (RECV_FLAGS L OR 0)
          (Inl (EINTR L)))"] exI [of _ reply]) (auto simp: drop_fds_def)
  qed
qed

lemma settle_policy:
  assumes "rr_ret reply = length (rr_data reply)"
  shows "\<exists>post. settle kind mode (recv_result_of L reply)
      (rights_in L (messages_in L (rr_control reply))) tr
    = (recv_policy L kind mode reply, drop_fds post tr)"
  using assms
  by (cases mode) (auto simp: settle_def recv_policy_def recv_result_of_def Let_def intro: exI [of _ "[]"])

lemma recv_core_policy:
  assumes run: "recv_core L K fd iov kind mode tr = Some (r, iov', tr')"
    and native: "cfg_cloexec L" and small: "4 * mode_count mode \<le> max_payload"
  shows "(\<exists>e ev. r = Err e \<and> iov' = iov \<and> (\<forall>k m. e = Custom k m \<longrightarrow> k = InvalidInput)
        \<and> tr' = tr @ ev \<and> replies ev = [])
    \<or> (\<exists>pre h reply post. tr' = tr @ pre @ SysRecvmsg fd h (RECV_FLAGS L) (Inr reply) # map SysClose post
        \<and> replies pre = [] \<and> r_iov h = iov \<and> r = recv_policy L kind mode reply \<and> iov' = scatter iov (rr_data reply))"
  using run
proof (cases rule: recv_coreE)
  case (sizing budget e)
  then have "\<forall>k m. e = Custom k m \<longrightarrow> k = InvalidInput"
    by (auto simp: control_size_def buffer_size_for_rights_def buffer_size_for_credentials_def
        outcome_simps split: if_splits)
  moreover have "tr' = tr @ []" using sizing(1) native by (simp add: max_recv_fds_def)
  ultimately show ?thesis using sizing(3,4) by (intro disjI1) fastforce
next
  case (huge budget)
  with control_size_ok [OF huge(1) small] show ?thesis by simp
next
  case (failed budget tr0 sz ret)
  with native have "tr0 = tr" by (simp add: max_recv_fds_def)
  with recv_fds_reply [OF failed(2) native] failed(3,4) show ?thesis by (intro disjI1) fastforce
next
  case (settled budget tr0 sz res fds tr1)
  have t0: "tr0 = tr" using settled(1) native by (simp add: max_recv_fds_def)
  from recv_fds_reply [OF settled(2) native] obtain pre reply post where
    t: "tr1 = tr0 @ pre @ SysRecvmsg fd (recv_header L iov (replicate sz 0)) (RECV_FLAGS L) (Inr reply)
      # map SysClose post" "replies pre = []"
    and q: "res = recv_result_of L reply" "fds = rights_in L (messages_in L (rr_control reply))"
      "rr_ret reply = length (rr_data reply)" "iov' = scatter iov (rr_data reply)"
    by auto
  from settle_policy [OF q(3), of kind mode tr1] settled(3) obtain post' where
    "r = recv_policy L kind mode reply" "tr' = drop_fds post' tr1"
    unfolding q(1,2) by auto
  moreover have "r_iov (recv_header L iov (replicate sz 0)) = iov" by (simp add: recv_header_def)
  ultimately show ?thesis
    using t t0 q(4) unfolding drop_fds_def by (metis append.assoc append_Cons map_append)
qed

end

end
