(* ===== verification/Session.thy ===== *)
theory Session
  imports Convenience
begin

text \<open>
  A program using the crate, as a transition system: one \<open>socket_ancillary\<close>, at most one
  \<^verbatim>\<open>Messages\<close> iterator over it (the borrow checker admits no other use of the storage while it
  lives), any number of \<^verbatim>\<open>ScmRights\<close> iterators and the descriptors the program holds. The steps
  are the crate's operations in any order, with any outcome of the kernel. The invariant says
  that every descriptor the kernel delivered is owned by exactly one of them or was closed.
\<close>

record session =
  storage :: socket_ancillary
  draining :: "received_message list option"
  batches :: "raw_fd list list"
  held :: "raw_fd list"
  log :: trace

definition start :: "byte list \<Rightarrow> session" where
  "start buf = \<lparr> storage = new_ancillary buf, draining = None, batches = [], held = [], log = [] \<rparr>"

text \<open>The descriptors the program owns, wherever they are.\<close>

definition drained_fds :: "session \<Rightarrow> raw_fd list" where
  "drained_fds s = (case draining s of None \<Rightarrow> [] | Some ms \<Rightarrow> owned_fds ms)"

definition live_fds :: "session \<Rightarrow> raw_fd list" where
  "live_fds s = anc_fds (storage s) @ drained_fds s @ concat (batches s) @ held s"

inductive session_step :: "libc \<Rightarrow> kernel \<Rightarrow> session \<Rightarrow> session \<Rightarrow> bool" for L K where
  build_step: "draining s = None \<Longrightarrow> apply_addition L x (storage s) = (r, a) \<Longrightarrow>
    session_step L K s (s\<lparr>storage := a\<rparr>)"
| send_step: "draining s = None \<Longrightarrow>
    cmsg_sendmsg L K fd iov (storage s) (log s) = Some (r, tr) \<Longrightarrow>
    session_step L K s (s\<lparr>log := tr\<rparr>)"
| recv_step: "draining s = None \<Longrightarrow>
    cmsg_recvmsg L K fd iov (storage s) (log s) = Some (r, iov', a, tr) \<Longrightarrow>
    session_step L K s (s\<lparr>storage := a, log := tr\<rparr>)"
| peek_step: "draining s = None \<Longrightarrow>
    cmsg_recvmsg_peek L K fd iov (storage s) (log s) = Some (r, iov', a, tr) \<Longrightarrow>
    session_step L K s (s\<lparr>storage := a, log := tr\<rparr>)"
| clear_step: "draining s = None \<Longrightarrow> clear (storage s) (log s) = (a, tr) \<Longrightarrow>
    session_step L K s (s\<lparr>storage := a, log := tr\<rparr>)"
| renew_step: "draining s = None \<Longrightarrow> length buf < 2 ^ 32 \<Longrightarrow>
    session_step L K s
      (s\<lparr>storage := new_ancillary buf, log := drop_ancillary (storage s) (log s)\<rparr>)"
| drain_step: "draining s = None \<Longrightarrow> messages (storage s) = (ms, a) \<Longrightarrow>
    session_step L K s (s\<lparr>storage := a, draining := Some ms\<rparr>)"
| rights_step: "draining s = Some ms \<Longrightarrow> messages_next ms = (Some (ScmRights fds), ms') \<Longrightarrow>
    session_step L K s (s\<lparr>draining := Some ms', batches := fds # batches s\<rparr>)"
| credentials_step: "draining s = Some ms \<Longrightarrow>
    messages_next ms = (Some (CredentialsData c), ms') \<Longrightarrow>
    session_step L K s (s\<lparr>draining := Some ms'\<rparr>)"
| end_drain_step: "draining s = Some ms \<Longrightarrow>
    session_step L K s (s\<lparr>draining := None, log := drop_messages ms (log s)\<rparr>)"
| next_fd_step: "batches s = xs @ b # ys \<Longrightarrow> scm_rights_next b = (Some fd, b') \<Longrightarrow>
    session_step L K s (s\<lparr>batches := xs @ b' # ys, held := fd # held s\<rparr>)"
| drop_batch_step: "batches s = xs @ b # ys \<Longrightarrow>
    session_step L K s (s\<lparr>batches := xs @ ys, log := drop_fds b (log s)\<rparr>)"
| close_step: "held s = xs @ fd # ys \<Longrightarrow>
    session_step L K s (s\<lparr>held := xs @ ys, log := drop_fds [fd] (log s)\<rparr>)"
| receive_step: "4 * mode_count mode \<le> max_payload \<Longrightarrow>
    recv_core L K fd iov kind mode (log s) = Some (r, iov', tr) \<Longrightarrow>
    session_step L K s (s\<lparr>held := kept r @ held s, log := tr\<rparr>)"
| post_step: "4 * length fds \<le> max_payload \<Longrightarrow>
    send_fds_vectored_impl L K fd iov fds (log s) = Some (r, tr) \<Longrightarrow>
    session_step L K s (s\<lparr>log := tr\<rparr>)"
| option_step: "set_passcred L K fd b (log s) = (r, tr) \<Longrightarrow> session_step L K s (s\<lparr>log := tr\<rparr>)"
| transmit_step: "4 * length fds \<le> max_payload \<Longrightarrow> length data < 2 ^ 32 \<Longrightarrow>
    stream_send_fds_all L K fd data fds (log s) = Some (r, tr) \<Longrightarrow>
    session_step L K s (s\<lparr>log := tr\<rparr>)"

inductive reachable :: "libc \<Rightarrow> kernel \<Rightarrow> session \<Rightarrow> bool" for L K where
  reach_start: "length buf < 2 ^ 32 \<Longrightarrow> reachable L K (start buf)"
| reach_step: "reachable L K s \<Longrightarrow> session_step L K s s' \<Longrightarrow> reachable L K s'"

inductive_cases session_stepE: "session_step L K s s'"

fun_cases next_rightsE: "messages_next ms = (Some (ScmRights fds), ms')"
fun_cases next_credentialsE: "messages_next ms = (Some (CredentialsData c), ms')"
fun_cases next_fdE: "scm_rights_next b = (Some fd, b')"

section \<open>The invariant\<close>

definition encoded :: "libc \<Rightarrow> byte list \<Rightarrow> bool" where
  "encoded L bs \<longleftrightarrow> (\<exists>ms. (\<forall>m\<in>set ms. length (m_data m) \<le> max_payload)
     \<and> bs = concat (map (encode_cmsg L) ms))"

definition balanced :: "libc \<Rightarrow> session \<Rightarrow> bool" where
  "balanced L s \<longleftrightarrow> accounted L [] [] (log s) (live_fds s)"

text \<open>While an iterator drains the storage, nothing is left in it.\<close>

lemma drained_empty: "reachable L K s \<Longrightarrow> draining s \<noteq> None \<Longrightarrow> received (storage s) = []"
proof (induction rule: reachable.induct)
  case (reach_step s s')
  from reach_step(2,3,4) show ?case
    by cases (auto simp: messages_def)
qed (simp add: start_def)

text \<open>A storage in build mode owns nothing and holds a sequence of encoded messages.\<close>

definition storage_ok :: "libc \<Rightarrow> socket_ancillary \<Rightarrow> bool" where
  "storage_ok L a \<longleftrightarrow> anc_length a \<le> length (buffer a) \<and> length (buffer a) < 2 ^ 32
     \<and> (\<not> receive_mode a \<longrightarrow> received a = [] \<and> encoded L (used a))"

definition sent_ok :: "libc \<Rightarrow> trace \<Rightarrow> bool" where
  "sent_ok L tr \<longleftrightarrow> (\<forall>(p, c)\<in>set (sent tr). encoded L c)"

definition session_inv :: "libc \<Rightarrow> session \<Rightarrow> bool" where
  "session_inv L s \<longleftrightarrow> balanced L s \<and> storage_ok L (storage s) \<and> sent_ok L (log s)
     \<and> (draining s \<noteq> None \<longrightarrow> received (storage s) = [])"

section \<open>Receiving sends nothing\<close>

lemma sent_drop_fds [simp]: "sent (drop_fds fds tr) = sent tr"
  by (induction fds arbitrary: tr) (simp_all add: drop_fds_def)

lemma sent_set_cloexec: "set_cloexec L K fd tr = (r, tr') \<Longrightarrow> sent tr' = sent tr"
  by (auto simp: set_cloexec_def syscall_defs Let_def split: sum.splits)

lemma sent_fallback_cloexec: "fallback_cloexec_fds L K fds tr = (r, tr') \<Longrightarrow> sent tr' = sent tr"
  by (induction fds arbitrary: tr)
    (auto dest: sent_set_cloexec split: prod.splits result.splits)

lemma sent_cloexec_fds: "cloexec_fds L K fds tr = (r, tr') \<Longrightarrow> sent tr' = sent tr"
  by (auto simp: cloexec_fds_def dest: sent_fallback_cloexec split: if_splits)

lemma sent_max_recv_fds: "max_recv_fds L K tr = (n, tr') \<Longrightarrow> sent tr' = sent tr"
  by (auto simp: max_recv_fds_def fallback_max_recv_fds_def getrlimit_def Let_def
      split: if_splits sum.splits)

lemma sent_replicate_recv [simp]: "sent (replicate n (SysRecvmsg fd h fl r)) = []"
  by (induction n) auto

lemma sent_recvmsg_raw:
  assumes "recvmsg_raw L K fd iov buf fl tr = Some (r, iov', buf', tr')"
  shows "sent tr' = sent tr"
proof -
  from assms obtain q tr1 where q: "recv_loop L K fd (recv_header L iov buf) fl tr = Some (q, tr1)"
    by (auto simp: recvmsg_raw_def bind_eq_Some_conv)
  with assms have "tr' = tr1" by (cases q) (simp_all add: recvmsg_raw_def)
  with recv_loop_trace [OF q] show ?thesis by auto
qed

context libc_abi begin

lemma sent_recv_fds:
  assumes "recv_fds L K fd iov buf tr = Some (r, iov', tr')"
  shows "sent tr' = sent tr"
proof -
  from assms obtain ret iov1 buf1 tr1 where
    raw: "recvmsg_raw L K fd iov buf 0 tr = Some (ret, iov1, buf1, tr1)"
    by (auto simp: recv_fds_def bind_eq_Some_conv)
  show ?thesis
    using assms raw sent_recvmsg_raw [OF raw]
    by (cases ret) (auto simp: recv_fds_def take_fds_eq slice_def dest!: sent_cloexec_fds
        split: result.splits if_splits prod.splits)
qed

lemma sent_settle: "settle kind mode res fds tr = (r, tr') \<Longrightarrow> sent tr' = sent tr"
  by (auto simp: settle_def Let_def split: if_splits count_mode.splits)

lemma sent_recv_core:
  assumes "recv_core L K fd iov kind mode tr = Some (r, iov', tr')"
  shows "sent tr' = sent tr"
  using assms
proof (cases rule: recv_coreE)
  case (failed budget tr0 sz ret)
  with sent_max_recv_fds sent_recv_fds show ?thesis by metis
next
  case (settled budget tr0 sz res fds tr1)
  with sent_max_recv_fds sent_recv_fds sent_settle show ?thesis by metis
qed (simp_all add: sent_max_recv_fds)

lemma sent_recv_into_ancillary:
  assumes "recv_into_ancillary L K fd iov a fl tr = Some (r, iov', a', tr')"
  shows "sent tr' = sent tr"
proof -
  from assms obtain ret iov1 buf1 tr1 where raw:
    "recvmsg_raw L K fd iov (buffer a) fl (drop_fds (anc_fds a) tr) = Some (ret, iov1, buf1, tr1)"
    by (auto simp: recv_into_ancillary_def clear_eq bind_eq_Some_conv)
  show ?thesis
    using assms raw sent_recvmsg_raw [OF raw]
    by (cases ret) (auto simp: recv_into_ancillary_def clear_eq take_received_into_eq slice_def
        Let_def cloexec_received_flat drop_messages_def dest!: sent_cloexec_fds
        split: result.splits if_splits prod.splits)
qed

end

section \<open>Every step keeps the invariant\<close>

text \<open>A step that accounts for the part \<open>own\<close> of what the program owns keeps the balance.\<close>

lemma balanced_frame:
  assumes "balanced L s" "accounted L (log s) own (log s') own'"
    and "mset (live_fds s) = mset own + R" "mset (live_fds s') = mset own' + R"
  shows "balanced L s'"
proof -
  obtain x where x: "mset x = R" using ex_mset by blast
  have "accounted L [] [] (log s) (own @ x)"
    using assms(1,3) x accounted_cong [of L "[]" "[]" "log s" "live_fds s" "[]" "own @ x"]
    by (simp add: balanced_def)
  also have "accounted L (log s) (own @ x) (log s') (own' @ x)"
    by (rule accounted_frame [OF assms(2)])
  finally show ?thesis
    using assms(4) x accounted_cong [of L "[]" "[]" "log s'" "own' @ x" "[]" "live_fds s'"]
    by (simp add: balanced_def)
qed

lemma balanced_neutral:
  assumes "balanced L s" "log s' = log s @ ev" "neutral L ev" "mset (live_fds s') = mset (live_fds s)"
  shows "balanced L s'"
  by (rule balanced_frame [OF assms(1), of "[]" _ "[]" "mset (live_fds s)"])
    (simp_all add: assms(2,4) accounted_neutral [OF assms(3)])

lemma balanced_drop:
  assumes "balanced L s" "log s' = drop_fds fds (log s)"
    "mset (live_fds s) = mset fds + mset (live_fds s')"
  shows "balanced L s'"
  by (rule balanced_frame [OF assms(1), of fds _ "[]" "mset (live_fds s')"])
    (use accounted_drop [of L "log s" fds "[]"] assms(2,3) in simp_all)

lemma encoded_Nil [simp]: "encoded L []"
  unfolding encoded_def by (intro exI [of _ "[]"]) simp

lemma encoded_append: "encoded L a \<Longrightarrow> length (m_data m) \<le> max_payload \<Longrightarrow> encoded L (a @ encode_cmsg L m)"
  unfolding encoded_def by (elim exE) (rule_tac x = "ms @ [m]" in exI, simp)

lemma encoded_fds_control:
  assumes "4 * length fds \<le> max_payload"
  shows "encoded L (fds_control L fds)"
  using encoded_append [of L "[]" "rights_message L fds"] assms by (simp add: fds_control_def)

lemma storage_ok_new: "length buf < 2 ^ 32 \<Longrightarrow> storage_ok L (new_ancillary buf)"
  by (simp add: storage_ok_def new_ancillary_def used_def)

lemma sent_ok_same: "sent_ok L tr \<Longrightarrow> sent tr' = sent tr \<Longrightarrow> sent_ok L tr'"
  by (simp add: sent_ok_def)

lemma session_inv_start: "length buf < 2 ^ 32 \<Longrightarrow> session_inv L (start buf)"
  by (simp add: session_inv_def start_def balanced_def live_fds_def drained_fds_def anc_fds_def
      new_ancillary_def storage_ok_def used_def sent_ok_def)

context libc_abi begin

lemma storage_ok_addition:
  assumes ok: "storage_ok L a" and run: "apply_addition L x a = (r, a')"
  shows "storage_ok L a' \<and> received a' = received a"
proof -
  have wf: "anc_wf L a" using ok usize_lower by (simp add: storage_ok_def anc_wf_def)
  from apply_addition_cases [OF wf, of x] run consider "a' = a"
    | m where "fits L a (length (m_data m))" "a' = push_cmsg L m a" "apply_addition L x a = (Ok (), a')"
    by auto
  then show ?thesis
  proof cases
    case 1
    with ok show ?thesis by simp
  next
    case 2
    have "anc_wf L a'" using push_wf [OF wf 2(1)] 2(2) by simp
    moreover have "encoded L (used a) \<Longrightarrow> encoded L (used a')"
      using encoded_append [of L "used a" m] used_push(1) [OF 2(1)] fits_payload [OF 2(1)] 2(2) by simp
    moreover have "receive_mode a' = receive_mode a" "received a' = received a"
      using 2(2) by (simp_all add: push_cmsg_def)
    ultimately show ?thesis
      using ok used_push(2) [OF 2(1)] 2(2) by (simp add: storage_ok_def anc_wf_def)
  qed
qed

end

context os_interface begin

text \<open>A low-level send puts exactly the used bytes of the storage on the wire.\<close>

lemma cmsg_sendmsg_trace:
  assumes ok: "storage_ok L a" and run: "cmsg_sendmsg L K fd iov a tr = Some (r, tr')"
  shows "\<exists>ev. tr' = tr @ ev \<and> neutral L ev \<and> (\<forall>(p, c)\<in>set (sent ev). c = used a \<and> \<not> receive_mode a)"
proof (cases "receive_mode a")
  case True
  with run show ?thesis by (simp add: cmsg_sendmsg_def)
next
  case False
  with run have s: "sendmsg_vectored L K fd iov (buffer a) (anc_length a) tr = Some (r, tr')"
    by (simp add: cmsg_sendmsg_def)
  have c: "control_bytes (send_header L iov (buffer a) (anc_length a)) = used a"
    using ok control_bytes_header [of "anc_length a" "buffer a" iov] unfolding storage_ok_def used_def
    by (meson order_le_less_trans)
  from sendmsg_vectored_trace [OF s] obtain ev where "tr' = tr @ ev" "neutral L ev"
    "sent ev = (case r of Ok n \<Rightarrow> [(take n (concat iov), used a)] | _ \<Rightarrow> [])"
    unfolding c by blast
  with False show ?thesis by (intro exI [of _ ev]) (cases r; simp)
qed

lemma transmit_sent:
  assumes run: "stream_send_fds_all L K fd data fds tr = Some (r, tr')"
    and small: "4 * length fds \<le> max_payload" and size: "length data < 2 ^ 32"
    and ok: "sent_ok L tr"
  shows "\<exists>ev. tr' = tr @ ev \<and> neutral L ev \<and> sent_ok L tr'"
proof -
  have "length data < 2 ^ usize_bits L" using size usize_lower by linarith
  from stream_send_fds_all_transfers [OF run small this] obtain ev where
    ev: "tr' = tr @ ev" "neutral L ev"
      "controls ev = [] \<or> (\<exists>rest. controls ev = fds_control L fds # rest \<and> set rest \<subseteq> {[]})"
    unfolding transfers_def by blast
  have "encoded L c" if "c \<in> set (controls ev)" for c
    using ev(3) that encoded_fds_control [OF small, of L] encoded_Nil by auto
  then have "sent_ok L ev" by (force simp: sent_ok_def controls_def)
  with ev(1,2) ok show ?thesis by (auto simp: sent_ok_def)
qed

text \<open>So does a convenience send: nothing, or the encoding of its descriptors.\<close>

lemma post_sent:
  assumes run: "send_fds_vectored_impl L K fd iov fds tr = Some (r, tr')"
    and small: "4 * length fds \<le> max_payload" and ok: "sent_ok L tr"
  shows "\<exists>ev. tr' = tr @ ev \<and> neutral L ev \<and> sent_ok L tr'"
proof -
  from send_fds_vectored_impl_trace [OF small run] obtain ev where
    ev: "tr' = tr @ ev" "neutral L ev"
      "sent ev = (case r of Ok n \<Rightarrow> [(take n (concat iov), fds_control L fds)] | _ \<Rightarrow> [])"
    by blast
  then have "sent_ok L ev"
    using encoded_fds_control [OF small, of L] by (cases r) (simp_all add: sent_ok_def)
  with ev(1,2) ok show ?thesis by (auto simp: sent_ok_def)
qed

lemma option_sent:
  assumes "set_passcred L K fd b tr = (r, tr')" "sent_ok L tr"
  shows "\<exists>ev. tr' = tr @ ev \<and> neutral L ev \<and> sent_ok L tr'"
  using assms by (auto simp: set_passcred_def setsockopt_def sent_ok_def Let_def split: sum.splits)

lemma step_receive:
  assumes inv: "session_inv L s" and idle: "draining s = None"
    and run: "recv_into_ancillary L K fd iov (storage s) fl (log s) = Some (r, iov', a, tr)"
  shows "session_inv L (s\<lparr>storage := a, log := tr\<rparr>)"
proof -
  note c = recv_into_ancillary_cases [OF run]
  have "balanced L (s\<lparr>storage := a, log := tr\<rparr>)"
    by (rule balanced_frame [of L s "anc_fds (storage s)" _ "anc_fds a"
          "mset (concat (batches s) @ held s)"])
      (use inv idle c(1) in \<open>simp_all add: session_inv_def live_fds_def drained_fds_def ac_simps\<close>)
  moreover have "storage_ok L a"
    using inv c(2-5) by (cases r) (auto simp: session_inv_def storage_ok_def)
  moreover have "sent_ok L tr"
    using inv sent_recv_into_ancillary [OF run] by (auto simp: session_inv_def sent_ok_def)
  ultimately show ?thesis using idle by (simp add: session_inv_def)
qed

lemma step_recv_core:
  assumes inv: "session_inv L s" and small: "4 * mode_count mode \<le> max_payload"
    and run: "recv_core L K fd iov kind mode (log s) = Some (r, iov', tr)"
  shows "session_inv L (s\<lparr>held := kept r @ held s, log := tr\<rparr>)"
proof -
  have "balanced L (s\<lparr>held := kept r @ held s, log := tr\<rparr>)"
    by (rule balanced_frame [of L s "[]" _ "kept r" "mset (live_fds s)"])
      (use inv recv_core_cases [OF run small] in
        \<open>simp_all add: session_inv_def live_fds_def drained_fds_def ac_simps\<close>)
  moreover have "sent_ok L tr"
    using inv sent_recv_core [OF run] by (auto simp: session_inv_def sent_ok_def)
  ultimately show ?thesis using inv by (simp add: session_inv_def)
qed

lemma step_build:
  assumes inv: "session_inv L s" and run: "apply_addition L x (storage s) = (r, a)"
  shows "session_inv L (s\<lparr>storage := a\<rparr>)"
proof -
  have a: "storage_ok L a" "received a = received (storage s)"
    using inv storage_ok_addition [OF _ run] by (auto simp: session_inv_def)
  have "balanced L (s\<lparr>storage := a\<rparr>)"
    by (rule balanced_neutral [of L s _ "[]"])
      (use inv a in \<open>simp_all add: session_inv_def live_fds_def drained_fds_def anc_fds_def\<close>)
  with inv a show ?thesis by (simp add: session_inv_def)
qed

lemma step_log:
  assumes inv: "session_inv L s" and tr: "tr = log s @ ev" "neutral L ev" and "sent_ok L tr"
  shows "session_inv L (s\<lparr>log := tr\<rparr>)"
proof -
  have "balanced L (s\<lparr>log := tr\<rparr>)"
    by (rule balanced_neutral [of L s _ ev])
      (use inv tr in \<open>simp_all add: session_inv_def live_fds_def drained_fds_def\<close>)
  with inv assms(4) show ?thesis by (simp add: session_inv_def)
qed

lemma step_send:
  assumes inv: "session_inv L s"
    and run: "cmsg_sendmsg L K fd iov (storage s) (log s) = Some (r, tr)"
  shows "session_inv L (s\<lparr>log := tr\<rparr>)"
proof -
  have ok: "storage_ok L (storage s)" "sent_ok L (log s)" using inv by (simp_all add: session_inv_def)
  from cmsg_sendmsg_trace [OF ok(1) run] obtain ev where ev: "tr = log s @ ev" "neutral L ev"
    "\<forall>(p, c)\<in>set (sent ev). c = used (storage s) \<and> \<not> receive_mode (storage s)"
    by blast
  with ok have "sent_ok L tr" by (auto simp: sent_ok_def storage_ok_def)
  with step_log [OF inv ev(1,2)] show ?thesis .
qed

text \<open>A step that closes \<open>fds\<close>, which it removes from what the program owns.\<close>

lemma step_drop:
  assumes inv: "session_inv L s" and tr: "log s' = drop_fds fds (log s)"
    and "mset (live_fds s) = mset fds + mset (live_fds s')"
    and "storage_ok L (storage s')" "draining s' \<noteq> None \<longrightarrow> received (storage s') = []"
  shows "session_inv L s'"
  using assms balanced_drop [of L s s' fds] sent_drop_fds [of fds "log s"]
  by (simp add: session_inv_def sent_ok_def)

text \<open>A step that moves descriptors between their owners.\<close>

lemma step_move:
  assumes "session_inv L s" "log s' = log s" "mset (live_fds s') = mset (live_fds s)"
    and "storage_ok L (storage s')" "draining s' \<noteq> None \<longrightarrow> received (storage s') = []"
  shows "session_inv L s'"
  using assms balanced_neutral [of L s s' "[]"] by (simp add: session_inv_def)

lemmas ownership_defs = session_inv_def live_fds_def drained_fds_def anc_fds_def

lemma step_storage:
  assumes inv: "session_inv L s" and idle: "draining s = None"
  shows "clear (storage s) (log s) = (a, tr) \<Longrightarrow> session_inv L (s\<lparr>storage := a, log := tr\<rparr>)"
    and "length buf < 2 ^ 32 \<Longrightarrow> session_inv L
      (s\<lparr>storage := new_ancillary buf, log := drop_ancillary (storage s) (log s)\<rparr>)"
    and "messages (storage s) = (ms, a) \<Longrightarrow> session_inv L (s\<lparr>storage := a, draining := Some ms\<rparr>)"
proof -
  show "clear (storage s) (log s) = (a, tr) \<Longrightarrow> session_inv L (s\<lparr>storage := a, log := tr\<rparr>)"
    by (rule step_drop [OF inv, of _ "anc_fds (storage s)"])
      (use inv idle in \<open>auto simp: clear_eq ownership_defs storage_ok_def used_def\<close>)
  show "length buf < 2 ^ 32 \<Longrightarrow> session_inv L
      (s\<lparr>storage := new_ancillary buf, log := drop_ancillary (storage s) (log s)\<rparr>)"
    by (rule step_drop [OF inv, of _ "anc_fds (storage s)"])
      (use idle in \<open>simp_all add: drop_ancillary_def drop_messages_def live_fds_def
        drained_fds_def anc_fds_def storage_ok_new\<close>, simp add: new_ancillary_def)
  show "messages (storage s) = (ms, a) \<Longrightarrow> session_inv L (s\<lparr>storage := a, draining := Some ms\<rparr>)"
    by (rule step_move [OF inv])
      (use inv idle in \<open>auto simp: messages_def ownership_defs storage_ok_def used_def\<close>)
qed

lemma step_iterate:
  assumes inv: "session_inv L s"
  shows "draining s = Some ms \<Longrightarrow> messages_next ms = (Some (ScmRights fds), ms') \<Longrightarrow>
      session_inv L (s\<lparr>draining := Some ms', batches := fds # batches s\<rparr>)"
    and "draining s = Some ms \<Longrightarrow> messages_next ms = (Some (CredentialsData c), ms') \<Longrightarrow>
      session_inv L (s\<lparr>draining := Some ms'\<rparr>)"
    and "batches s = xs @ b # ys \<Longrightarrow> scm_rights_next b = (Some fd, b') \<Longrightarrow>
      session_inv L (s\<lparr>batches := xs @ b' # ys, held := fd # held s\<rparr>)"
  by (rule step_move [OF inv];
      use inv in \<open>auto simp: ownership_defs elim!: next_rightsE next_credentialsE next_fdE\<close>)+

lemma step_close:
  assumes inv: "session_inv L s"
  shows "draining s = Some ms \<Longrightarrow>
      session_inv L (s\<lparr>draining := None, log := drop_messages ms (log s)\<rparr>)"
    and "batches s = xs @ b # ys \<Longrightarrow> session_inv L (s\<lparr>batches := xs @ ys, log := drop_fds b (log s)\<rparr>)"
    and "held s = hs @ fd # hs' \<Longrightarrow> session_inv L (s\<lparr>held := hs @ hs', log := drop_fds [fd] (log s)\<rparr>)"
proof -
  show "draining s = Some ms \<Longrightarrow>
      session_inv L (s\<lparr>draining := None, log := drop_messages ms (log s)\<rparr>)"
    by (rule step_drop [OF inv, of _ "owned_fds ms"])
      (use inv in \<open>simp_all add: ownership_defs drop_messages_def\<close>)
  show "batches s = xs @ b # ys \<Longrightarrow> session_inv L (s\<lparr>batches := xs @ ys, log := drop_fds b (log s)\<rparr>)"
    by (rule step_drop [OF inv, of _ b]) (use inv in \<open>simp_all add: ownership_defs\<close>)
  show "held s = hs @ fd # hs' \<Longrightarrow> session_inv L (s\<lparr>held := hs @ hs', log := drop_fds [fd] (log s)\<rparr>)"
    by (rule step_drop [OF inv, of _ "[fd]"]) (use inv in \<open>simp_all add: ownership_defs\<close>)
qed

lemma step_quiet:
  assumes inv: "session_inv L s"
  shows "4 * length fds \<le> max_payload \<Longrightarrow>
      send_fds_vectored_impl L K fd iov fds (log s) = Some (r, tr) \<Longrightarrow> session_inv L (s\<lparr>log := tr\<rparr>)"
    and "set_passcred L K fd b (log s) = (r', tr') \<Longrightarrow> session_inv L (s\<lparr>log := tr'\<rparr>)"
    and "4 * length fds \<le> max_payload \<Longrightarrow> length data < 2 ^ 32 \<Longrightarrow>
      stream_send_fds_all L K fd data fds (log s) = Some (r'', tr'') \<Longrightarrow> session_inv L (s\<lparr>log := tr''\<rparr>)"
proof -
  have ok: "sent_ok L (log s)" using inv by (simp add: session_inv_def)
  have quiet: "\<exists>ev. tr = log s @ ev \<and> neutral L ev \<and> sent_ok L tr \<Longrightarrow> session_inv L (s\<lparr>log := tr\<rparr>)" for tr
    using step_log [OF inv] by blast
  show "4 * length fds \<le> max_payload \<Longrightarrow>
      send_fds_vectored_impl L K fd iov fds (log s) = Some (r, tr) \<Longrightarrow> session_inv L (s\<lparr>log := tr\<rparr>)"
    by (rule quiet, rule post_sent [OF _ _ ok])
  show "set_passcred L K fd b (log s) = (r', tr') \<Longrightarrow> session_inv L (s\<lparr>log := tr'\<rparr>)"
    by (rule quiet, rule option_sent [OF _ ok])
  show "4 * length fds \<le> max_payload \<Longrightarrow> length data < 2 ^ 32 \<Longrightarrow>
      stream_send_fds_all L K fd data fds (log s) = Some (r'', tr'') \<Longrightarrow> session_inv L (s\<lparr>log := tr''\<rparr>)"
    by (rule quiet, rule transmit_sent [OF _ _ _ ok])
qed

lemma session_inv_step:
  "session_step L K s s' \<Longrightarrow> session_inv L s \<Longrightarrow> session_inv L s'"
proof (induction rule: session_step.induct)
  case (recv_step s fd iov r iov' a tr)
  then show ?case by (simp add: cmsg_recvmsg_def step_receive)
next
  case (peek_step s fd iov r iov' a tr)
  then show ?case by (simp add: cmsg_recvmsg_peek_def step_receive)
qed (blast intro: step_build step_send step_storage step_iterate step_close step_recv_core
    step_quiet)+

lemma reachable_inv: "reachable L K s \<Longrightarrow> session_inv L s"
  by (induction rule: reachable.induct) (simp_all add: session_inv_start session_inv_step)

end

end
