(* ===== verification/Storage_Spec.thy ===== *)
theory Storage_Spec
  imports Session
begin

text \<open>
  The abstract data type behind \<^verbatim>\<open>SocketAncillary\<close>. Its user sees either a list of outgoing
  messages that fits a capacity or a list of received messages, never bytes. The storage with
  its byte buffer, used length and mode flag refines it, operation by operation and hence for
  every sequence of operations.
\<close>

section \<open>Simulation\<close>

inductive runs :: "('op \<Rightarrow> 's \<Rightarrow> 'out \<Rightarrow> 's \<Rightarrow> bool) \<Rightarrow> 's \<Rightarrow> ('op \<times> 'out) list \<Rightarrow> 's \<Rightarrow> bool"
  for step where
  runs_Nil: "runs step s [] s"
| runs_Cons: "step op s out s1 \<Longrightarrow> runs step s1 evs s2 \<Longrightarrow> runs step s ((op, out) # evs) s2"

locale simulation =
  fixes inv :: "'c \<Rightarrow> bool"
    and view :: "'c \<Rightarrow> 'a"
    and cstep :: "'op \<Rightarrow> 'c \<Rightarrow> 'out \<Rightarrow> 'c \<Rightarrow> bool"
    and astep :: "'op \<Rightarrow> 'a \<Rightarrow> 'out \<Rightarrow> 'a \<Rightarrow> bool"
  assumes step_simulated: "inv c \<Longrightarrow> cstep op c out c' \<Longrightarrow> inv c' \<and> astep op (view c) out (view c')"
begin

lemma runs_simulated: "runs cstep c evs c' \<Longrightarrow> inv c \<Longrightarrow> inv c' \<and> runs astep (view c) evs (view c')"
proof (induction rule: runs.induct)
  case (runs_Cons op c out c1 evs c2)
  from step_simulated [OF runs_Cons.prems runs_Cons.hyps(1)] runs_Cons.IH show ?case
    by (blast intro: runs.runs_Cons)
qed (simp add: runs_Nil)

end

section \<open>The specification\<close>

datatype storage_view =
    Outgoing nat "raw_message list"
  | Incoming nat "received_message list" bool

datatype storage_op = Add addition | Clear | Drain | Send | Receive

datatype storage_out =
    Added "(ancillary_error, unit) result"
  | Closes "raw_fd list"
  | Drained "received_message list"
  | Wires "byte list list"
  | Took "received_message list"

text \<open>The room a list of messages takes: each with its header and padding.\<close>

definition wire_size :: "libc \<Rightarrow> raw_message list \<Rightarrow> nat" where
  "wire_size L ms = sum_list (map (\<lambda>m. length (encode_cmsg L m)) ms)"

definition has_room :: "libc \<Rightarrow> nat \<Rightarrow> raw_message list \<Rightarrow> bool" where
  "has_room L cap ms \<longleftrightarrow> (\<forall>m\<in>set ms. length (m_data m) \<le> max_payload) \<and> wire_size L ms \<le> cap"

inductive spec_step :: "libc \<Rightarrow> storage_op \<Rightarrow> storage_view \<Rightarrow> storage_out \<Rightarrow> storage_view \<Rightarrow> bool"
  for L where
  spec_accept: "ms' = ms @ addition_messages L x \<Longrightarrow> has_room L cap ms' \<Longrightarrow>
    spec_step L (Add x) (Outgoing cap ms) (Added (Ok ())) (Outgoing cap ms')"
| spec_full: "\<not> has_room L cap (ms @ addition_messages L x) \<Longrightarrow>
    spec_step L (Add x) (Outgoing cap ms) (Added (Err AncillaryError)) (Outgoing cap ms)"
| spec_occupied: "spec_step L (Add x) (Incoming cap rs t) (Added (Err AncillaryError)) (Incoming cap rs t)"
| spec_clear_out: "spec_step L Clear (Outgoing cap ms) (Closes []) (Outgoing cap [])"
| spec_clear_in: "spec_step L Clear (Incoming cap rs t) (Closes (owned_fds rs)) (Outgoing cap [])"
| spec_drain_out: "spec_step L Drain (Outgoing cap ms) (Drained []) (Outgoing cap ms)"
| spec_drain_in: "spec_step L Drain (Incoming cap rs t) (Drained rs) (Incoming cap [] t)"
| spec_send_out: "cs = [] \<or> cs = [concat (map (encode_cmsg L) ms)] \<Longrightarrow>
    spec_step L Send (Outgoing cap ms) (Wires cs) (Outgoing cap ms)"
| spec_send_in: "spec_step L Send (Incoming cap rs t) (Wires []) (Incoming cap rs t)"
| spec_receive_out: "rs = concat (map (received_of L) ms') \<Longrightarrow>
    spec_step L Receive (Outgoing cap ms) (Took rs) (Incoming cap rs t)"
| spec_receive_in: "rs = concat (map (received_of L) ms') \<Longrightarrow>
    spec_step L Receive (Incoming cap rs' t') (Took rs) (Incoming cap rs t)"

section \<open>The implementation\<close>

inductive storage_step ::
  "libc \<Rightarrow> kernel \<Rightarrow> storage_op \<Rightarrow> socket_ancillary \<times> trace \<Rightarrow> storage_out
     \<Rightarrow> socket_ancillary \<times> trace \<Rightarrow> bool" for L K where
  do_add: "apply_addition L x a = (r, a') \<Longrightarrow> storage_step L K (Add x) (a, tr) (Added r) (a', tr)"
| do_clear: "clear a tr = (a', drop_fds fds tr) \<Longrightarrow>
    storage_step L K Clear (a, tr) (Closes fds) (a', drop_fds fds tr)"
| do_drain: "messages a = (ms, a') \<Longrightarrow> storage_step L K Drain (a, tr) (Drained ms) (a', tr)"
| do_send: "cmsg_sendmsg L K fd iov a tr = Some (r, tr @ ev) \<Longrightarrow>
    storage_step L K Send (a, tr) (Wires (controls ev)) (a, tr @ ev)"
| do_receive: "recv_into_ancillary L K fd iov a fl tr = Some (r, iov', a', tr') \<Longrightarrow>
    storage_step L K Receive (a, tr) (Took (received a')) (a', tr')"

definition view :: "libc \<Rightarrow> socket_ancillary \<Rightarrow> storage_view" where
  "view L a = (if receive_mode a then Incoming (length (buffer a)) (received a) (truncated a)
     else Outgoing (length (buffer a)) (messages_in L (used a)))"

section \<open>Refinement\<close>

lemma drop_fds_inj [simp]: "drop_fds xs tr = drop_fds ys tr \<longleftrightarrow> xs = ys"
  by (simp add: drop_fds_def inj_map_eq_map inj_def)

context libc_abi begin

text \<open>In build mode the view determines the used bytes and their number.\<close>

lemma storage_ok_view:
  assumes "storage_ok L a" "\<not> receive_mode a"
  shows "used a = concat (map (encode_cmsg L) (messages_in L (used a)))"
    and "\<forall>m\<in>set (messages_in L (used a)). length (m_data m) \<le> max_payload"
    and "anc_length a = wire_size L (messages_in L (used a))"
proof -
  from assms obtain ms where ms: "\<forall>m\<in>set ms. length (m_data m) \<le> max_payload"
    "used a = concat (map (encode_cmsg L) ms)"
    by (auto simp: storage_ok_def encoded_def)
  then have p: "messages_in L (used a) = ms" by (simp add: parse_encode)
  show "used a = concat (map (encode_cmsg L) (messages_in L (used a)))"
    "\<forall>m\<in>set (messages_in L (used a)). length (m_data m) \<le> max_payload"
    using ms unfolding p by simp_all
  have "anc_length a = length (used a)" using assms(1) by (simp add: storage_ok_def used_def)
  also have "\<dots> = wire_size L ms" unfolding ms(2) by (simp add: wire_size_def length_concat comp_def)
  finally show "anc_length a = wire_size L (messages_in L (used a))" unfolding p .
qed

lemma fits_has_room:
  assumes ok: "storage_ok L a" "\<not> receive_mode a"
  shows "fits L a (length (m_data m)) \<longleftrightarrow> has_room L (length (buffer a)) (messages_in L (used a) @ [m])"
proof (cases "cmsg_space L (length (m_data m))")
  case None
  then have "\<not> length (m_data m) \<le> max_payload" by (auto simp: cmsg_space_eq split: if_splits)
  with None show ?thesis by (simp add: fits_def has_room_def)
next
  case (Some s)
  then have "length (m_data m) \<le> max_payload" by (auto simp: cmsg_space_eq split: if_splits)
  with Some length_encode_cmsg [OF Some] storage_ok_view [OF ok] show ?thesis
    by (simp add: fits_def has_room_def wire_size_def)
qed

lemma refused_has_room:
  assumes ok: "storage_ok L a" "\<not> receive_mode a"
  shows "refused L x a \<longleftrightarrow> \<not> has_room L (length (buffer a)) (messages_in L (used a) @ addition_messages L x)"
proof (cases "addition_messages L x")
  case Nil
  have "anc_length a \<le> length (buffer a)" using ok by (simp add: storage_ok_def)
  with Nil ok storage_ok_view [OF ok] show ?thesis by (simp add: refused_def has_room_def)
next
  case (Cons m ms)
  then have "ms = []" by (cases x) (simp_all split: if_splits)
  with Cons ok fits_has_room [OF ok, of m] show ?thesis by (simp add: refused_def)
qed

end

context os_interface begin

lemma add_simulated:
  assumes ok: "storage_ok L a" and run: "apply_addition L x a = (r, a')"
  shows "spec_step L (Add x) (view L a) (Added r) (view L a')"
proof (cases "receive_mode a")
  case True
  have wf: "anc_wf L a" using ok usize_lower by (simp add: storage_ok_def anc_wf_def)
  from run True have "r = Err AncillaryError" "a' = a" by (simp_all add: addition_eq [OF wf] refused_def)
  with True show ?thesis by (simp add: view_def spec_occupied)
next
  case False
  have wf: "anc_wf L a" using ok usize_lower by (simp add: storage_ok_def anc_wf_def)
  show ?thesis
  proof (cases "refused L x a")
    case True
    with run have "r = Err AncillaryError" "a' = a" by (simp_all add: addition_eq [OF wf])
    with True False refused_has_room [OF ok False] show ?thesis by (simp add: view_def spec_full)
  next
    case acc: False
    with run have a': "r = Ok ()" "a' = fold (push_cmsg L) (addition_messages L x) a"
      by (simp_all add: addition_eq [OF wf])
    let ?ms = "messages_in L (used a) @ addition_messages L x"
    have room: "has_room L (length (buffer a)) ?ms" using acc refused_has_room [OF ok False] by blast
    have p: "length (buffer a') = length (buffer a)"
      "used a' = used a @ concat (map (encode_cmsg L) (addition_messages L x))"
      using push_messages [OF wf acc] a'(2) by simp_all
    then have u: "used a' = concat (map (encode_cmsg L) ?ms)"
      using storage_ok_view(1) [OF ok False] by simp
    have "messages_in L (used a') = ?ms"
      unfolding u by (rule parse_encode) (use room in \<open>simp add: has_room_def\<close>)
    moreover have "\<not> receive_mode a'"
      using False a'(2) by (cases x) (simp_all add: push_cmsg_def)
    ultimately show ?thesis using False a'(1) p(1) room by (simp add: view_def spec_accept)
  qed
qed

lemma send_simulated:
  assumes ok: "storage_ok L a" and run: "cmsg_sendmsg L K fd iov a tr = Some (r, tr @ ev)"
  shows "spec_step L Send (view L a) (Wires (controls ev)) (view L a)"
proof (cases "receive_mode a")
  case True
  with run have "ev = []" by (simp add: cmsg_sendmsg_def)
  with True show ?thesis by (simp add: view_def controls_def spec_send_in)
next
  case False
  with run have s: "sendmsg_vectored L K fd iov (buffer a) (anc_length a) tr = Some (r, tr @ ev)"
    by (simp add: cmsg_sendmsg_def)
  have c: "control_bytes (send_header L iov (buffer a) (anc_length a)) = used a"
    using ok control_bytes_header [of "anc_length a" "buffer a" iov] unfolding storage_ok_def used_def
    by (meson order_le_less_trans)
  from sendmsg_vectored_trace [OF s]
  have "sent ev = (case r of Ok n \<Rightarrow> [(take n (concat iov), used a)] | _ \<Rightarrow> [])"
    unfolding c by auto
  then have "controls ev = [] \<or> controls ev = [used a]" by (cases r) (simp_all add: controls_def)
  with False storage_ok_view(1) [OF ok False] show ?thesis by (simp add: view_def spec_send_out)
qed

lemma receive_simulated:
  assumes run: "recv_into_ancillary L K fd iov a fl tr = Some (r, iov', a', tr')"
  shows "spec_step L Receive (view L a) (Took (received a')) (view L a')"
proof -
  note c = recv_into_ancillary_cases [OF run]
  have "\<exists>ms. received a' = concat (map (received_of L) ms)"
    using c(2,4,5) by (cases r) (auto intro: exI [of _ "[]"])
  then obtain ms where "received a' = concat (map (received_of L) ms)" by blast
  with c(3) show ?thesis by (auto simp: view_def intro: spec_receive_out spec_receive_in)
qed

lemma storage_simulated:
  assumes step: "storage_step L K op (a, tr) out (a', tr')" and ok: "storage_ok L a"
  shows "storage_ok L a' \<and> spec_step L op (view L a) out (view L a')"
  using step
proof cases
  case (do_add x r)
  with storage_ok_addition [OF ok] add_simulated [OF ok] show ?thesis by blast
next
  case (do_clear fds)
  then have "fds = anc_fds a" "a' = a\<lparr>received := [], anc_length := 0, truncated := False, receive_mode := False\<rparr>"
    by (simp_all add: clear_eq)
  moreover have "\<not> receive_mode a \<Longrightarrow> anc_fds a = []" using ok by (simp add: storage_ok_def anc_fds_def)
  moreover have "messages_in L [] = []" using parse_encode [of "[]"] by simp
  ultimately show ?thesis
    using do_clear(1,2) ok by (auto simp: view_def used_def storage_ok_def anc_fds_def
        intro: spec_clear_out spec_clear_in)
next
  case (do_drain ms)
  then have "ms = received a" "a' = a\<lparr>received := []\<rparr>" by (simp_all add: messages_def)
  with do_drain ok show ?thesis
    by (auto simp: view_def used_def storage_ok_def intro: spec_drain_out spec_drain_in)
next
  case (do_send fd iov r ev)
  with send_simulated [OF ok] ok show ?thesis by blast
next
  case (do_receive fd iov fl r iov')
  have "storage_ok L a'"
    using ok recv_into_ancillary_cases [OF do_receive(3)] by (cases r) (auto simp: storage_ok_def)
  with do_receive receive_simulated [OF do_receive(3)] show ?thesis by blast
qed

lemma storage_simulation:
  "simulation (\<lambda>(a, tr). storage_ok L a) (\<lambda>(a, tr). view L a) (storage_step L K) (spec_step L)"
  by unfold_locales (use storage_simulated in auto)

end

interpretation loopback_storage: simulation "\<lambda>(a, tr). storage_ok linux64 a" "\<lambda>(a, tr). view linux64 a"
  "storage_step linux64 (loopback linux64)" "spec_step linux64"
  by (rule linux64_loopback.storage_simulation)

text \<open>
  C7: A \<^verbatim>\<open>SocketAncillary\<close> refines its abstract data type: whatever sequence of additions, sends,
  receives, drains and clears is applied to it, with any answers of the kernel, every result and
  every message put on the wire, handed out or closed by a clear is one the specification allows, with the
  list of messages it then holds. No byte of an earlier use shows through.
\<close>
theorem storage_refines_spec:
  assumes "os_interface L K" and "storage_ok L a"
    and "runs (storage_step L K) (a, tr) evs (a', tr')"
  shows "storage_ok L a' \<and> runs (spec_step L) (view L a) evs (view L a')"
  using simulation.runs_simulated [OF os_interface.storage_simulation [OF assms(1)] assms(3)] assms(2)
  by simp

theorem storage_refines_spec_witness:
  "\<exists>a' tr'. runs (storage_step linux64 (loopback linux64)) (new_ancillary (replicate 24 0), [])
       [(Add (AddFds [7]), Added (Ok ())), (Add (AddFds [8]), Added (Err AncillaryError)), (Clear, Closes [])]
       (a', tr')
     \<and> view linux64 a' = Outgoing 24 []"
proof -
  let ?a = "new_ancillary (replicate 24 0)"
  have wf: "anc_wf linux64 ?a" by (rule new_ancillary_wf) (simp add: linux64_def)
  have space: "cmsg_space linux64 4 = Some 24"
    by (simp add: cmsg_space_eq max_payload_def linux64_def aligned_space_def align_up_def)
  have acc: "\<not> refused linux64 (AddFds [7]) ?a"
    using space by (simp add: refused_def fits_def new_ancillary_def)
  define b where "b = fold (push_cmsg linux64) (addition_messages linux64 (AddFds [7])) ?a"
  have b: "anc_wf linux64 b" "anc_length b = 24" "length (buffer b) = 24" "received b = []"
    using linux64.push_messages [OF wf acc] linux64.length_encode_cmsg [of "rights_message linux64 [7]" 24] space
    by (simp_all add: b_def push_cmsg_def new_ancillary_def)
  then have full: "refused linux64 (AddFds [8]) b" using space by (simp add: refused_def fits_def)
  let ?c = "b\<lparr>received := [], anc_length := 0, truncated := False, receive_mode := False\<rparr>"
  have cl: "clear b [] = (?c, drop_fds [] [])" using b(4) by (simp add: clear_eq anc_fds_def)
  have "storage_step linux64 (loopback linux64) (Add (AddFds [7])) (?a, []) (Added (Ok ())) (b, [])"
    by (rule do_add) (use acc in \<open>simp only: linux64.addition_eq [OF wf] b_def if_False\<close>)
  moreover have "storage_step linux64 (loopback linux64) (Add (AddFds [8])) (b, []) (Added (Err AncillaryError)) (b, [])"
    by (rule do_add) (use full in \<open>simp only: linux64.addition_eq [OF b(1)] if_True\<close>)
  moreover have "storage_step linux64 (loopback linux64) Clear (b, []) (Closes []) (?c, drop_fds [] [])"
    using cl by (rule do_clear)
  ultimately have run: "runs (storage_step linux64 (loopback linux64)) (?a, [])
      [(Add (AddFds [7]), Added (Ok ())), (Add (AddFds [8]), Added (Err AncillaryError)), (Clear, Closes [])]
      (?c, drop_fds [] [])"
    by (blast intro: runs_Cons runs_Nil)
  have "storage_ok linux64 ?a" by (rule storage_ok_new) simp
  from storage_refines_spec [OF linux64_loopback.os_interface_axioms this run]
  have "storage_ok linux64 ?c" by simp
  moreover have "messages_in linux64 [] = []" using linux64.parse_encode [of "[]"] by simp
  ultimately have "view linux64 ?c = Outgoing 24 []" using b(3) by (simp add: view_def used_def)
  with run show ?thesis by blast
qed

end
