(* ===== verification/Transfer_Props.thy ===== *)
theory Transfer_Props
  imports Convenience
begin

unbundle bit_operations_syntax

text \<open>
  The properties of the convenience layer: what a send puts on the wire, that the completion
  loop sends everything and returns, what a receive hands out, closes and reports, and the
  sizes of the control storage.
\<close>

lemma os_interface_abi: "os_interface L K \<Longrightarrow> libc_abi L"
  by (simp add: os_interface_def)

section \<open>Sending\<close>

lemma messages_in_fds_control:
  assumes "libc_abi L" "4 * length fds \<le> max_payload"
  shows "messages_in L (fds_control L fds) = (if fds = [] then [] else [rights_message L fds])"
  using libc_abi.parse_encode [OF assms(1), of "[]"] assms(2)
    libc_abi.parse_encode [OF assms(1), of "[rights_message L fds]"]
  by (simp add: fds_control_def)

text \<open>
  A convenience send hands the kernel at most one message: a prefix of the payload together
  with control bytes from which a receiver recovers exactly the descriptors sent, and none
  when none were given; a failed send hands it nothing. It neither closes nor panics.
\<close>
theorem send_fds_message:
  assumes "libc_abi L" and "4 * length fds \<le> max_payload"
    and "send_fds_vectored_impl L K fd iov fds tr = Some (r, tr')"
  shows "\<exists>ev. tr' = tr @ ev \<and> closed ev = [] \<and> r \<noteq> Panic
    \<and> (case r of
         Ok n \<Rightarrow> \<exists>c. sent ev = [(take n (concat iov), c)]
           \<and> messages_in L c = (if fds = [] then [] else [rights_message L fds])
       | _ \<Rightarrow> sent ev = [])"
  using libc_abi.send_fds_vectored_impl_trace [OF assms] messages_in_fds_control [OF assms(1,2)]
  by (cases r) (auto simp: neutral_def)

theorem send_fds_message_witness:
  "\<exists>tr' c. send_fds_vectored_impl linux64 (loopback linux64) 3 [[1, 2], [3]] [7] [] = Some (Ok 3, tr')
     \<and> sent tr' = [([1, 2, 3], c)] \<and> messages_in linux64 c = [rights_message linux64 [7]]"
proof -
  let ?e = "encode_cmsg linux64 (rights_message linux64 [7])"
  have "s_iov (send_header linux64 [[1, 2], [3]] ?e (length ?e)) = [[1, 2], [3]]"
    by (simp add: send_header_def Let_def)
  then obtain tr' where run:
    "send_fds_vectored_impl linux64 (loopback linux64) 3 [[1, 2], [3]] [7] [] = Some (Ok 3, tr')"
    by (simp add: linux64.send_fds_vectored_impl_eq max_payload_def sendmsg_vectored_def
        prepare_send_def send_loop.simps sendmsg_def Let_def)
  from send_fds_message [OF linux64.libc_abi_axioms _ run] run show ?thesis
    by (auto simp: max_payload_def)
qed

text \<open>
  C10: \<^verbatim>\<open>send_fds_all\<close> sends the payload in order and without gaps: what the kernel accepted is
  always a prefix of the data, all of it when the call succeeds, and the descriptors are
  attached to the first message only, however short the writes are.
\<close>
theorem send_fds_all_complete:
  assumes "os_interface L K" and "4 * length fds \<le> max_payload"
    and "length data < 2 ^ usize_bits L"
    and "stream_send_fds_all L K fd data fds tr = Some (r, tr')"
  shows "\<exists>ev k. tr' = tr @ ev \<and> closed ev = [] \<and> payload ev = take k data \<and> r \<noteq> Panic
    \<and> (r = Ok () \<longrightarrow> payload ev = data)
    \<and> (controls ev = [] \<or> (\<exists>rest. controls ev = fds_control L fds # rest \<and> set rest \<subseteq> {[]}))
    \<and> messages_in L (fds_control L fds) = (if fds = [] then [] else [rights_message L fds])"
  using os_interface.stream_send_fds_all_transfers [OF assms(1,4,2,3)]
    messages_in_fds_control [OF os_interface_abi [OF assms(1)] assms(2)]
  unfolding transfers_def neutral_def by blast

lemma short_progress: "send_progress L (short_writes n (loopback L))"
  by (simp add: send_progress_def short_writes_def)

theorem send_fds_all_complete_witness:
  "\<exists>r tr' k. stream_send_fds_all linux64 (short_writes 1 (loopback linux64)) 3 [1, 2, 3] [7] []
       = Some (r, tr') \<and> payload tr' = take k [1, 2, 3] \<and> (r = Ok () \<longrightarrow> payload tr' = [1, 2, 3])"
proof -
  let ?K = "short_writes 1 (loopback linux64)"
  obtain r tr' where run: "stream_send_fds_all linux64 ?K 3 [1, 2, 3] [7] [] = Some (r, tr')"
    using linux64_short.stream_send_fds_all_returns [OF short_progress, of "[7]" "[1, 2, 3]" 1 3 "[]"]
    by (auto simp: max_payload_def)
  from send_fds_all_complete [OF linux64_short.os_interface_axioms _ _ run] run show ?thesis
    by (auto simp: max_payload_def)
qed

text \<open>
  \<^verbatim>\<open>send_fds_all\<close> returns: however short the writes are, and whatever errors occur, as long
  as the kernel does not interrupt one and the same send for ever.
\<close>
theorem send_fds_all_returns:
  assumes "os_interface L K" and "send_progress L K"
    and "4 * length fds \<le> max_payload" and "length data < 2 ^ usize_bits L"
  shows "\<exists>r tr'. stream_send_fds_all L K fd data fds tr = Some (r, tr')"
  by (rule os_interface.stream_send_fds_all_returns [OF assms])

theorem send_fds_all_returns_witness:
  "\<exists>r tr'. stream_send_fds_all linux64 (short_writes 2 (loopback linux64)) 3 [1, 2, 3] [7, 8] []
     = Some (r, tr')"
  by (rule send_fds_all_returns [OF linux64_short.os_interface_axioms short_progress])
    (simp_all add: max_payload_def)

text \<open>
  A stream send of descriptors without a payload byte is refused before any system call,
  in all three forms, an i/o vector of empty buffers included.
\<close>
theorem empty_stream_send_refused:
  assumes "fds \<noteq> []"
  shows "stream_send_fds L K fd [] fds tr = Some (Err payload_error, tr)
    \<and> stream_send_fds_all L K fd [] fds tr = Some (Err payload_error, tr)
    \<and> stream_send_fds_vectored L K fd (replicate n []) fds tr = Some (Err payload_error, tr)"
proof -
  have "iov_len (replicate n ([] :: byte list)) = 0" by (induction n) (simp_all add: iov_len_def)
  with assms show ?thesis
    by (simp add: stream_send_fds_def stream_send_fds_all_def stream_send_fds_vectored_def
        validate_stream_send_def)
qed

theorem empty_stream_send_refused_witness:
  "stream_send_fds linux64 (loopback linux64) 3 [] [7] [] = Some (Err payload_error, [])"
  using empty_stream_send_refused [of "[7]" linux64 "loopback linux64" 3 "[]" 0] by simp

section \<open>Receiving\<close>

definition count_ok :: "count_mode \<Rightarrow> raw_fd list \<Rightarrow> usize \<Rightarrow> bool" where
  "count_ok mode fds surplus = (case mode of
     UpTo n \<Rightarrow> length fds \<le> n \<and> (0 < surplus \<longrightarrow> length fds = n)
   | Exact n \<Rightarrow> length fds = n \<and> surplus = 0)"

lemma settle_Ok:
  assumes "settle kind mode res fds tr = (Ok (n, ks, surplus), tr')"
  shows "n = bytes_read res \<and> count_ok mode ks surplus \<and> length ks + surplus = length fds"
  using assms by (auto simp: settle_def count_ok_def Let_def split: if_splits count_mode.splits)

context os_interface begin

lemma recv_core_Ok:
  assumes "recv_core L K fd iov kind mode tr = Some (Ok (n, fds, surplus), iov', tr')"
  shows "n \<le> length (concat iov) \<and> count_ok mode fds surplus"
  using assms
proof (cases rule: recv_coreE)
  case (settled budget tr0 sz res all tr1)
  with recv_fds_cases [OF settled(2)] settle_Ok [OF settled(3)] show ?thesis by simp
qed simp_all

end

text \<open>
  C5: However a convenience receive ends, every descriptor the kernel delivered is handed out or
  closed exactly once; an error hands out none, so it closed all of them. It does not panic for
  fewer than \<open>2 ^ 29\<close> requested descriptors, reports no more bytes than the buffers hold, and
  hands out exactly the count requested, or at most that many with surplus ones only beyond it.
\<close>
theorem receive_accounts:
  assumes "os_interface L K" and "4 * mode_count mode \<le> max_payload"
    and "recv_core L K fd iov kind mode tr = Some (r, iov', tr')"
  shows "accounted L tr [] tr' (kept r) \<and> r \<noteq> Panic
    \<and> (\<forall>n fds surplus. r = Ok (n, fds, surplus) \<longrightarrow>
        n \<le> length (concat iov) \<and> count_ok mode fds surplus)"
  using os_interface.recv_core_cases [OF assms(1,3,2)] os_interface.recv_core_Ok [OF assms(1)] assms(3)
  by blast

text \<open>A receive on the reference kernel, for examples.\<close>

lemma loopback_recv_core:
  assumes mode: "mode = Exact 1 \<or> mode = UpTo 1"
  shows "\<exists>tr'. recv_core linux64 (loopback linux64) 6 [[0]] kind mode (pending linux64)
    = Some (Ok (1, [7], 0), [[9]], tr')"
proof -
  have sz: "control_size linux64 253 = Ok 1064"
    by (simp add: control_size_def buffer_size_for_rights_eq max_payload_def
        buffer_size_for_credentials_def cmsg_space_eq ucred_SIZE_def checked_add_def)
      (simp add: linux64_def aligned_space_def align_up_def)
  from loopback_recv_fds [OF linux64.libc_abi_axioms queue_pending refl,
      of "[[0]]" "replicate 1064 0" 6] obtain res tr' where
    f: "recv_fds linux64 (loopback linux64) 6 [[0]] (replicate 1064 0) (pending linux64)
      = Some (Ok (res, [7]), scatter [[0]] [9], tr')"
    and r: "bytes_read res = 1" "\<not> ancillary_truncated res" "\<not> data_truncated res"
    by (auto simp: length_pending max_payload_def)
  have "scatter [[0 :: byte]] [9] = [[9]]" by (simp add: overwrite_def)
  with mode f r sz show ?thesis
    by (auto simp: recv_core_def max_recv_fds_def with_control_eq settle_def)
qed

theorem receive_accounts_witness:
  "\<exists>tr' ev. recv_core linux64 (loopback linux64) 6 [[0]] Stream (Exact 1) (pending linux64)
       = Some (Ok (1, [7], 0), [[9]], tr')
     \<and> tr' = pending linux64 @ ev \<and> mset (delivered linux64 ev) = {#7#} + mset (closed ev)"
proof -
  obtain tr' where run: "recv_core linux64 (loopback linux64) 6 [[0]] Stream (Exact 1) (pending linux64)
      = Some (Ok (1, [7], 0), [[9]], tr')"
    using loopback_recv_core by blast
  from receive_accounts [OF linux64_loopback.os_interface_axioms _ run]
  have "accounted linux64 (pending linux64) [] tr' [7]" by (simp add: max_payload_def)
  with run show ?thesis by (auto simp: accounted_def)
qed

text \<open>
  C11: Where the kernel sets close-on-exec, a convenience receive implements \<open>recv_policy\<close>: it
  either fails before or in the system call, takes no message and leaves the buffers alone, or it
  takes exactly one message and its outcome is that function of the kernel's reply (truncated control data and a
  truncated datagram are errors, surplus descriptors are cut off, a wrong count is an error),
  the payload is in the buffers, and after that call it only closes descriptors.
\<close>
theorem receive_implements_policy:
  assumes "os_interface L K" and "cfg_cloexec L" and "4 * mode_count mode \<le> max_payload"
    and "recv_core L K fd iov kind mode tr = Some (r, iov', tr')"
  shows "(\<exists>e ev. r = Err e \<and> iov' = iov \<and> (\<forall>k m. e = Custom k m \<longrightarrow> k = InvalidInput)
        \<and> tr' = tr @ ev \<and> replies ev = [])
    \<or> (\<exists>pre h reply post. tr' = tr @ pre @ SysRecvmsg fd h (RECV_FLAGS L) (Inr reply) # map SysClose post
        \<and> replies pre = [] \<and> r_iov h = iov \<and> r = recv_policy L kind mode reply \<and> iov' = scatter iov (rr_data reply))"
  by (rule os_interface.recv_core_policy [OF assms(1,4,2,3)])

theorem receive_implements_policy_witness:
  "\<exists>tr' reply. recv_core linux64 (loopback linux64) 6 [[0]] Datagram (UpTo 1) (pending linux64)
       = Some (Ok (1, [7], 0), [[9]], tr')
     \<and> recv_policy linux64 Datagram (UpTo 1) reply = Ok (1, [7], 0)"
proof -
  obtain tr' where run: "recv_core linux64 (loopback linux64) 6 [[0]] Datagram (UpTo 1) (pending linux64)
      = Some (Ok (1, [7], 0), [[9]], tr')"
    using loopback_recv_core by blast
  from receive_implements_policy [OF linux64_loopback.os_interface_axioms _ _ run] run show ?thesis
    by (auto simp: max_payload_def)
qed

context os_interface begin

text \<open>
  What a successful receive got from the kernel, on every platform: the outcome of the policy on
  one reply, whose payload is now at the front of the caller's slices.
\<close>

lemma recv_fds_OkD:
  assumes run: "recv_fds L K fd iov buf tr = Some (Ok (res, fds), iov', tr')"
  shows "\<exists>reply pre post. tr' = tr @ pre
      @ SysRecvmsg fd (recv_header L iov buf) (RECV_FLAGS L) (Inr reply) # post
    \<and> res = recv_result_of L reply \<and> fds = rights_in L (messages_in L (rr_control reply))
    \<and> rr_ret reply = length (rr_data reply) \<and> iov' = scatter iov (rr_data reply)"
proof -
  from run obtain ret iov1 buf1 tr1 where
    raw: "recvmsg_raw L K fd iov buf 0 tr = Some (ret, iov1, buf1, tr1)"
    by (auto simp: recv_fds_def bind_eq_Some_conv)
  with run obtain res1 where ret: "ret = Ok res1" by (cases ret) (auto simp: recv_fds_def)
  from recvmsg_raw_reply [OF raw [unfolded ret]] obtain reply and pre :: trace where
    t: "tr1 = tr @ pre @ [SysRecvmsg fd (recv_header L iov buf) (RECV_FLAGS L OR 0) (Inr reply)]"
    and r: "res1 = recv_result_of L reply" "rr_ret reply = length (rr_data reply)"
      "iov1 = scatter iov (rr_data reply)" "rr_controllen reply = length (rr_control reply)"
      "length (rr_control reply) \<le> length buf" "length buf1 = length buf"
      "take (length (rr_control reply)) buf1 = rr_control reply"
    by blast
  let ?ms = "messages_in L (rr_control reply)"
  let ?tr2 = "drop_fds (pidfds_in L ?ms) tr1"
  obtain cr tr3 where cl: "cloexec_fds L K (rights_in L ?ms) ?tr2 = (cr, tr3)" by fastforce
  obtain ev where ev: "tr3 = ?tr2 @ ev" using cloexec_fds_trace [of L K "rights_in L ?ms" ?tr2] cl by auto
  have "res = res1" "fds = rights_in L ?ms" "iov' = iov1" "tr' = tr3"
    using run raw ret r cl
    by (cases cr; simp add: recv_fds_def recv_result_of_def slice_def take_fds_eq)+
  with r t ev show ?thesis
    by (intro exI [of _ reply] exI [of _ pre] exI [of _ "map SysClose (pidfds_in L ?ms) @ ev"])
      (simp add: drop_fds_def)
qed

lemma recv_core_OkD:
  assumes run: "recv_core L K fd iov kind mode tr = Some (Ok (n, fds, surplus), iov', tr')"
  shows "\<exists>h reply pre post. tr' = tr @ pre @ SysRecvmsg fd h (RECV_FLAGS L) (Inr reply) # post
    \<and> recv_policy L kind mode reply = Ok (n, fds, surplus) \<and> iov' = scatter iov (rr_data reply)"
  using run
proof (cases rule: recv_coreE)
  case (settled budget tr0 sz res all tr1)
  from settled(1) obtain e0 where e0: "tr0 = tr @ e0" using max_recv_fds_trace [of L K tr] by auto
  from recv_fds_OkD [OF settled(2)] obtain reply pre post where
    t: "tr1 = tr0 @ pre
      @ SysRecvmsg fd (recv_header L iov (replicate sz 0)) (RECV_FLAGS L) (Inr reply) # post"
    and q: "res = recv_result_of L reply" "all = rights_in L (messages_in L (rr_control reply))"
      "rr_ret reply = length (rr_data reply)" "iov' = scatter iov (rr_data reply)"
    by blast
  from settle_policy [OF q(3), of kind mode tr1] settled(3) obtain cl where
    "recv_policy L kind mode reply = Ok (n, fds, surplus)" "tr' = drop_fds cl tr1"
    unfolding q(1,2) by auto
  with t q(4) e0 show ?thesis
    by (intro exI [of _ "recv_header L iov (replicate sz 0)"] exI [of _ reply] exI [of _ "e0 @ pre"]
        exI [of _ "post @ map SysClose cl"]) (simp add: drop_fds_def)
qed simp_all

end

lemma recv_policy_Ok:
  assumes "recv_policy L kind mode reply = Ok (n, fds, surplus)"
  shows "n = length (rr_data reply) \<and> rr_flags reply AND MSG_CTRUNC L = 0
    \<and> (kind = Datagram \<longrightarrow> rr_flags reply AND MSG_TRUNC L = 0)
    \<and> fds = take (mode_count mode) (rights_in L (messages_in L (rr_control reply)))
    \<and> length fds + surplus = length (rights_in L (messages_in L (rr_control reply)))"
  using assms by (auto simp: recv_policy_def Let_def split: if_splits count_mode.splits)

lemma recv_owned_OkD:
  assumes "recv_owned_impl L K fd data_buf kind mode tr = Some (Ok rf, rest, tr')"
  shows "\<exists>n fds surplus iov'. recv_core L K fd [data_buf] kind mode tr = Some (Ok (n, fds, surplus), iov', tr')
    \<and> rf = \<lparr> rf_data = take n (concat iov'), rf_fds = fds, rf_surplus_closed = surplus \<rparr> \<and> rest = []"
proof -
  from assms obtain ret iov1 tr1 where
    c: "recv_core L K fd [data_buf] kind mode tr = Some (ret, iov1, tr1)"
    by (auto simp: recv_owned_impl_def bind_eq_Some_conv)
  with assms obtain x where "ret = Ok x" by (cases ret) (auto simp: recv_owned_impl_def Let_def)
  with c assms show ?thesis by (cases x) (auto simp: recv_owned_impl_def Let_def)
qed

text \<open>
  C19: The owning receives return exactly the bytes the kernel wrote, none of them stale, never
  from a message whose descriptors were truncated nor from a truncated datagram, with
  descriptors that are a prefix of those delivered.
\<close>
theorem owned_receive_exact:
  assumes "os_interface L K"
    and "recv_owned_impl L K fd data_buf kind mode tr = Some (Ok rf, rest, tr')"
  shows "\<exists>h reply pre post. tr' = tr @ pre @ SysRecvmsg fd h (RECV_FLAGS L) (Inr reply) # post
    \<and> rf_data rf = rr_data reply \<and> rest = []
    \<and> rr_flags reply AND MSG_CTRUNC L = 0
    \<and> (kind = Datagram \<longrightarrow> rr_flags reply AND MSG_TRUNC L = 0)
    \<and> rf_fds rf = take (mode_count mode) (rights_in L (messages_in L (rr_control reply)))
    \<and> count_ok mode (rf_fds rf) (rf_surplus_closed rf)"
proof -
  from recv_owned_OkD [OF assms(2)] obtain n fds surplus iov' where
    run: "recv_core L K fd [data_buf] kind mode tr = Some (Ok (n, fds, surplus), iov', tr')"
    and rf: "rf = \<lparr> rf_data = take n (concat iov'), rf_fds = fds, rf_surplus_closed = surplus \<rparr>" "rest = []"
    by blast
  from os_interface.recv_core_OkD [OF assms(1) run] recv_policy_Ok
    os_interface.recv_core_Ok [OF assms(1) run] rf show ?thesis
    by (fastforce simp: take_overwrite)
qed

theorem owned_receive_exact_witness:
  "\<exists>rf tr'. recv_owned_impl linux64 (loopback linux64) 6 [0] Datagram (Exact 1) (pending linux64)
       = Some (Ok rf, [], tr')
     \<and> rf_fds rf = [7] \<and> count_ok (Exact 1) (rf_fds rf) (rf_surplus_closed rf)"
proof -
  obtain tr' where "recv_core linux64 (loopback linux64) 6 [[0]] Datagram (Exact 1) (pending linux64)
      = Some (Ok (1, [7], 0), [[9]], tr')"
    using loopback_recv_core by blast
  then have run: "recv_owned_impl linux64 (loopback linux64) 6 [0] Datagram (Exact 1) (pending linux64)
      = Some (Ok \<lparr> rf_data = [9], rf_fds = [7], rf_surplus_closed = 0 \<rparr>, [], tr')"
    by (simp add: recv_owned_impl_def)
  from owned_receive_exact [OF linux64_loopback.os_interface_axioms run] run show ?thesis by auto
qed

lemma recv_vectored_OkD:
  assumes "recv_fds_into_vectored_impl L K fd iov kind mode tr = Some (Ok (n, fds), iov', tr')"
  shows "\<exists>surplus. recv_core L K fd iov kind mode tr = Some (Ok (n, fds, surplus), iov', tr')"
proof -
  from assms obtain ret where c: "recv_core L K fd iov kind mode tr = Some (ret, iov', tr')"
    and r: "and_then ret (\<lambda>(bytes, fds, _). Ok (bytes, fds)) = Ok (n, fds)"
    by (auto simp: recv_fds_into_vectored_impl_def bind_eq_Some_conv)
  from r have "\<exists>surplus. ret = Ok (n, fds, surplus)" by (cases ret rule: kept.cases) simp_all
  with c show ?thesis by blast
qed

text \<open>
  C13: The receives into the caller's memory fill it exactly: the first \<open>n\<close> bytes, across all
  slices in order, are the bytes the kernel wrote, \<open>n\<close> of them, every byte behind them is what
  it was, no slice changes its length, and the descriptors are the first ones delivered, never
  from a truncated message.
\<close>
theorem caller_buffer_exact:
  assumes "os_interface L K"
    and "recv_fds_into_vectored_impl L K fd iov kind mode tr = Some (Ok (n, fds), iov', tr')"
  shows "\<exists>h reply pre post. tr' = tr @ pre @ SysRecvmsg fd h (RECV_FLAGS L) (Inr reply) # post
    \<and> n = length (rr_data reply) \<and> take n (concat iov') = rr_data reply
    \<and> drop n (concat iov') = drop n (concat iov) \<and> map length iov' = map length iov
    \<and> rr_flags reply AND MSG_CTRUNC L = 0
    \<and> (kind = Datagram \<longrightarrow> rr_flags reply AND MSG_TRUNC L = 0)
    \<and> fds = take (mode_count mode) (rights_in L (messages_in L (rr_control reply)))"
proof -
  from recv_vectored_OkD [OF assms(2)] obtain surplus where
    run: "recv_core L K fd iov kind mode tr = Some (Ok (n, fds, surplus), iov', tr')" by blast
  from os_interface.recv_core_OkD [OF assms(1) run] recv_policy_Ok
    os_interface.recv_core_Ok [OF assms(1) run] show ?thesis
    by (fastforce simp: concat_scatter overwrite_def)
qed

theorem caller_buffer_exact_witness:
  "\<exists>iov' tr'. recv_fds_into_vectored_impl linux64 (loopback linux64) 6 [[0]] Stream (UpTo 1) (pending linux64)
       = Some (Ok (1, [7]), iov', tr') \<and> take 1 (concat iov') = [9]"
proof -
  obtain tr' where "recv_core linux64 (loopback linux64) 6 [[0]] Stream (UpTo 1) (pending linux64)
      = Some (Ok (1, [7], 0), [[9]], tr')"
    using loopback_recv_core by blast
  then have run: "recv_fds_into_vectored_impl linux64 (loopback linux64) 6 [[0]] Stream (UpTo 1) (pending linux64)
      = Some (Ok (1, [7]), [[9]], tr')"
    by (simp add: recv_fds_into_vectored_impl_def)
  from caller_buffer_exact [OF linux64_loopback.os_interface_axioms run] run show ?thesis by auto
qed

section \<open>When receives return\<close>

text \<open>The kernel interrupts a given receive only finitely often.\<close>

definition recv_progress :: "libc \<Rightarrow> kernel \<Rightarrow> bool" where
  "recv_progress L K \<longleftrightarrow> (\<forall>tr fd msg fl. \<exists>n. sys_recvmsg K
     (tr @ replicate n (SysRecvmsg fd msg (RECV_FLAGS L OR fl) (Inl (EINTR L)))) fd msg (RECV_FLAGS L OR fl)
     \<noteq> Inl (EINTR L))"

lemma loopback_progress:
  "send_progress linux64 (loopback linux64)" "recv_progress linux64 (loopback linux64)"
  unfolding send_progress_def recv_progress_def
  by (intro allI exI [of _ 0], simp split: list.split)+

lemma recvmsg_raw_returns:
  assumes "recv_progress L K"
  shows "\<exists>r iov' buf' tr'. recvmsg_raw L K fd iov buf fl tr = Some (r, iov', buf', tr')"
proof -
  have "recv_loop L K fd (recv_header L iov buf) fl tr \<noteq> None"
    using assms recv_calls.diverges_iff [of L K fd "recv_header L iov buf" fl tr]
    unfolding recv_progress_def by blast
  then obtain r tr' where "recv_loop L K fd (recv_header L iov buf) fl tr = Some (r, tr')" by auto
  then show ?thesis by (cases r) (simp_all add: recvmsg_raw_def)
qed

context libc_abi begin

lemma recv_fds_returns:
  assumes "recv_progress L K"
  shows "\<exists>r iov' tr'. recv_fds L K fd iov buf tr = Some (r, iov', tr')"
proof -
  obtain r iov1 buf1 tr1 where "recvmsg_raw L K fd iov buf 0 tr = Some (r, iov1, buf1, tr1)"
    using recvmsg_raw_returns [OF assms] by blast
  then show ?thesis
    by (cases r) (auto simp: recv_fds_def slice_def take_fds_eq split: result.split prod.split)
qed

lemma recv_core_returns:
  assumes "recv_progress L K"
  shows "\<exists>r iov' tr'. recv_core L K fd iov kind mode tr = Some (r, iov', tr')"
proof -
  obtain budget tr0 where b: "max_recv_fds L K tr = (budget, tr0)" by fastforce
  show ?thesis
  proof (cases "control_size L (max (mode_count mode) budget)")
    case (Ok sz)
    obtain r iov1 tr1 where "recv_fds L K fd iov (replicate sz 0) tr0 = Some (r, iov1, tr1)"
      using recv_fds_returns [OF assms] by blast
    with b Ok show ?thesis
      by (cases r) (auto simp: recv_core_def with_control_eq split: prod.split)
  qed (use b in \<open>simp_all add: recv_core_def\<close>)
qed

lemma recv_into_ancillary_returns:
  assumes "recv_progress L K"
  shows "\<exists>r iov' a' tr'. recv_into_ancillary L K fd iov a fl tr = Some (r, iov', a', tr')"
proof -
  obtain r iov1 buf1 tr1 where
    "recvmsg_raw L K fd iov (buffer a) fl (drop_fds (anc_fds a) tr) = Some (r, iov1, buf1, tr1)"
    using recvmsg_raw_returns [OF assms] by blast
  then show ?thesis
    by (cases r) (auto simp: recv_into_ancillary_def clear_eq slice_def take_received_into_eq Let_def
        split: result.split prod.split)
qed

end

text \<open>
  A receive returns, with whatever outcome, as long as the kernel does not interrupt one and
  the same call for ever: the walks over the control bytes always end, whatever bytes arrive.
\<close>
theorem receive_returns:
  assumes "libc_abi L" and "recv_progress L K"
  shows "(\<exists>r iov' tr'. recv_core L K fd iov kind mode tr = Some (r, iov', tr'))
    \<and> (\<exists>r iov' a' tr'. recv_into_ancillary L K fd iov a fl tr = Some (r, iov', a', tr'))"
  using libc_abi.recv_core_returns [OF assms] libc_abi.recv_into_ancillary_returns [OF assms] by blast

theorem receive_returns_witness:
  "\<exists>r iov' tr'. recv_core linux64 (loopback linux64) 6 [[0]] Stream (UpTo 1) [] = Some (r, iov', tr')"
  using receive_returns [OF linux64.libc_abi_axioms loopback_progress(2)] by blast

text \<open>
  C32: The operations return, with whatever outcome and however short the writes are, as long as the
  kernel does not interrupt one and the same call for ever: the completion loop of \<^verbatim>\<open>send_fds_all\<close>, and
  the receives of both layers, whose walks over the control bytes end whatever bytes arrive.
\<close>
theorem operations_return:
  assumes "os_interface L K" and "send_progress L K" and "recv_progress L K"
    and "4 * length fds \<le> max_payload" and "length data < 2 ^ usize_bits L"
  shows "(\<exists>r tr'. stream_send_fds_all L K fd data fds tr = Some (r, tr'))
    \<and> (\<exists>r iov' tr'. recv_core L K fd iov kind mode tr = Some (r, iov', tr'))
    \<and> (\<exists>r iov' a' tr'. recv_into_ancillary L K fd iov a fl tr = Some (r, iov', a', tr'))"
  using send_fds_all_returns [OF assms(1,2,4,5)] receive_returns [OF os_interface_abi [OF assms(1)] assms(3)]
  by blast

theorem operations_return_witness:
  "(\<exists>r tr'. stream_send_fds_all linux64 (loopback linux64) 3 [1, 2, 3] [7, 8] [] = Some (r, tr'))
    \<and> (\<exists>r iov' tr'. recv_core linux64 (loopback linux64) 6 [[0]] Stream (UpTo 1) [] = Some (r, iov', tr'))"
  using operations_return [where fds = "[7, 8]" and data = "[1, 2, 3]" and fd = 3 and tr = "[]",
      OF linux64_loopback.os_interface_axioms loopback_progress]
    operations_return [where fds = "[]" and data = "[]" and fd = 6 and iov = "[[0]]" and kind = Stream
      and mode = "UpTo 1" and tr = "[]", OF linux64_loopback.os_interface_axioms loopback_progress]
  by (simp add: max_payload_def)

section \<open>Control storage\<close>

text \<open>
  C39: Sizing the storage for \<open>n\<close> descriptors gives room for their header and payload unless
  \<open>4 * n\<close> exceeds \<^verbatim>\<open>i32::MAX\<close>; then it panics, although the size may fit a \<^verbatim>\<open>usize\<close>, and
  with it every blocking convenience send of so many descriptors: on streams one with a payload byte (without
  one it is refused as invalid before), on datagram and \<^verbatim>\<open>seqpacket\<close> sockets any.
\<close>
theorem rights_size_limit:
  assumes "libc_abi L"
  shows "(if 4 * n \<le> max_payload
      then \<exists>s. buffer_size_for_rights L n = (Ok s :: (io_error, usize) result) \<and> header_len L + 4 * n \<le> s
      else buffer_size_for_rights L n = (Panic :: (io_error, usize) result)
        \<and> (length fds = n \<longrightarrow> fds \<noteq> [] \<longrightarrow>
              send_fds_vectored_impl L K fd iov fds tr = Some (Panic, tr)
            \<and> stream_send_fds L K fd data fds tr = Some (if data = [] then Err payload_error else Panic, tr)
            \<and> stream_send_fds_all L K fd data fds tr = Some (if data = [] then Err payload_error else Panic, tr)
            \<and> stream_send_fds_vectored L K fd iov fds tr
                = Some (if iov_len iov = 0 then Err payload_error else Panic, tr)
            \<and> datagram_send_fds L K fd data fds tr = Some (Panic, tr)
            \<and> datagram_send_fds_vectored L K fd iov fds tr = Some (Panic, tr)
            \<and> seqpacket_send_fds L K fd data fds tr = Some (Panic, tr)))"
proof -
  have e: "(buffer_size_for_rights L n :: (io_error, usize) result)
      = (if 4 * n \<le> max_payload then Ok (unat (CMSG_SPACE L (word_of_nat (4 * n)))) else Panic)"
    by (rule buffer_size_for_rights_eq) (rule libc_abi.max_payload_usize [OF assms])
  show ?thesis
  proof (cases "4 * n \<le> max_payload")
    case True
    then have "cmsg_space L (4 * n) = Some (unat (CMSG_SPACE L (word_of_nat (4 * n))))"
      by (simp add: cmsg_space_eq)
    with True e libc_abi.cmsg_space_bounds(1) [OF assms this] show ?thesis by simp
  next
    case False
    with e have panic: "send_fds_vectored_impl L K fd iov fds tr = Some (Panic, tr)"
      if "length fds = n" "fds \<noteq> []" for iov
      using that by (simp add: send_fds_vectored_impl_def)
    show ?thesis
      unfolding stream_send_fds_def stream_send_fds_all_def stream_send_fds_vectored_def
        datagram_send_fds_def datagram_send_fds_vectored_def seqpacket_send_fds_def send_fds_impl_def
      using False e panic by (auto simp: validate_stream_send_def)
  qed
qed

theorem rights_size_limit_witness:
  "send_fds_vectored_impl linux64 (loopback linux64) 3 [[1]] (replicate (2 ^ 29) 0) [] = Some (Panic, [])"
  using rights_size_limit [OF linux64.libc_abi_axioms, of "2 ^ 29" "replicate (2 ^ 29) 0"
      "loopback linux64" 3 "[[1]]" "[]"]
  by (simp add: max_payload_def)

lemma linux_space:
  assumes "linux_abi L" and n: "n \<le> 4000"
  shows "\<exists>s. cmsg_space L n = Some s \<and> header_len L + n \<le> s \<and> s \<le> header_len L + n + 7"
proof -
  have abi: "libc_abi L" using assms(1) by (simp add: linux_abi_def)
  have u: "unat (word_of_nat n :: u32) = n" by (rule unat_u32) (use n in simp)
  then have "cmsg_space L n = Some (unat (CMSG_SPACE L (word_of_nat n)))"
    using n by (simp add: cmsg_space_eq max_payload_def)
  with libc_abi.cmsg_space_bounds(1) [OF abi this]
    linux_abi.space_tight [OF assms(1), of "word_of_nat n"] u n show ?thesis
    by (simp add: header_len_def max_payload_def)
qed

lemma linux_space_mono:
  assumes "linux_abi L" "m \<le> n" "cmsg_space L m = Some s" "cmsg_space L n = Some t"
  shows "s \<le> t"
proof -
  have n: "n \<le> max_payload" using assms(4) by (simp add: cmsg_space_eq split: if_splits)
  then have "unat (word_of_nat m :: u32) = m" "unat (word_of_nat n :: u32) = n"
    using assms(2) by (simp_all add: unat_u32 max_payload_def)
  with linux_abi.space_mono [OF assms(1), of "word_of_nat m" "word_of_nat n"] assms(2-4) n show ?thesis
    by (simp add: cmsg_space_eq split: if_splits)
qed

lemma linux_control_size:
  assumes "linux_abi L" and "cap \<le> 1000"
  shows "\<exists>sz s t. control_size L cap = Ok sz \<and> sz \<le> STACK_CONTROL
    \<and> (header_len L + 4 * cap) + (header_len L + ucred_SIZE) \<le> sz
    \<and> cmsg_space L (4 * cap) = Some s \<and> cmsg_space L ucred_SIZE = Some t \<and> sz = s + t"
proof -
  have abi: "libc_abi L" and linux: "cfg_linux L"
    using assms(1) by (simp_all add: linux_abi_def linux_abi_axioms_def)
  obtain s where s: "cmsg_space L (4 * cap) = Some s" "header_len L + 4 * cap \<le> s"
    "s \<le> header_len L + 4 * cap + 7" using linux_space [OF assms(1), of "4 * cap"] assms(2) by auto
  obtain t where t: "cmsg_space L ucred_SIZE = Some t" "header_len L + ucred_SIZE \<le> t"
    "t \<le> header_len L + ucred_SIZE + 7"
    using linux_space [OF assms(1), of ucred_SIZE] by (auto simp: ucred_SIZE_def)
  have h: "header_len L \<le> 16" using linux_abi.header_16 [OF assms(1)] by (simp add: header_len_def)
  have u: "2 ^ 32 \<le> (2 ^ usize_bits L :: nat)" by (rule libc_abi.usize_lower [OF abi])
  have "s + t \<le> STACK_CONTROL"
    using s(3) t(3) h assms(2) by (simp add: STACK_CONTROL_def ucred_SIZE_def)
  moreover from this have "s + t < 2 ^ usize_bits L" using u by (simp add: STACK_CONTROL_def)
  moreover have "4 * cap < 2 ^ usize_bits L" using assms(2) u by simp
  ultimately show ?thesis
    using s t linux
    by (simp add: control_size_def buffer_size_for_rights_def buffer_size_for_credentials_def
        checked_mul_def checked_add_def mult.commute)
qed

text \<open>
  On Linux the control storage of a receive of up to 1,000 descriptors is sized without an
  error, has room for the descriptors and for a credentials message, and fits the stack
  array, so no such receive allocates; every default receive is one of them.
\<close>
theorem receive_storage_on_stack:
  assumes "linux_abi L" and "cap \<le> 1000"
  shows "\<exists>sz. control_size L cap = Ok sz \<and> sz \<le> STACK_CONTROL
    \<and> (header_len L + 4 * cap) + (header_len L + ucred_SIZE) \<le> sz"
  using linux_control_size [OF assms] by blast

theorem receive_storage_on_stack_witness:
  "\<exists>sz. control_size linux64 253 = Ok sz \<and> sz \<le> 4096"
  using receive_storage_on_stack [OF linux64.linux_abi_axioms, of 253] by (auto simp: STACK_CONTROL_def)

text \<open>
  What runs on control storage sees only zeroes, whatever the uninitialised stack array
  held before and on the stack path as on the heap path: the operation does not depend on it.
\<close>
theorem control_storage_zeroed:
  assumes "length stack = STACK_CONTROL"
  shows "with_control_on stack sz f = with_control sz f \<and> with_control sz f = f (replicate sz 0)"
  using assms by (auto simp: with_control_eq with_control_on_def patch_def)

theorem control_storage_zeroed_witness:
  "with_control_on (replicate 4096 0xFF) 3 (\<lambda>buf. buf) = [0, 0, 0]"
  using control_storage_zeroed [of "replicate 4096 0xFF" 3 "\<lambda>buf. buf"]
  by (simp add: STACK_CONTROL_def numeral_3_eq_3)

text \<open>
  On Linux the control storage of a receive of up to 1,000 descriptors is sized without an error,
  has room for them and for a credentials message, and fits the stack array, so that no such
  receive allocates; and what runs on it sees only zeroes, whatever the array held before.
\<close>
theorem receive_storage:
  assumes "linux_abi L" and "cap \<le> 1000" and "length stack = STACK_CONTROL"
  shows "\<exists>sz. control_size L cap = Ok sz \<and> sz \<le> STACK_CONTROL
    \<and> (header_len L + 4 * cap) + (header_len L + ucred_SIZE) \<le> sz
    \<and> with_control_on stack sz f = f (replicate sz 0) \<and> with_control sz f = f (replicate sz 0)"
  using receive_storage_on_stack [OF assms(1,2)] control_storage_zeroed [OF assms(3)] by metis

theorem receive_storage_witness:
  "\<exists>sz. control_size linux64 253 = Ok sz \<and> sz \<le> 4096
     \<and> with_control_on (replicate 4096 0xFF) sz (\<lambda>buf. buf) = replicate sz 0"
  using receive_storage [OF linux64.linux_abi_axioms, of 253 "replicate 4096 0xFF" "\<lambda>buf. buf"]
  by (auto simp: STACK_CONTROL_def)

text \<open>
  C40: What a receive makes room for. The number of descriptors is always between 253 and \<open>2 ^ 20\<close>, is 253
  without a system call where the kernel caps a message itself, and elsewhere is the process's
  descriptor limit whenever that lies in the range. On Linux the control storage for it is sized
  without an error and has room for the descriptors and for a credentials message; it fits the stack
  array, so that the receive allocates none, and is zeroed whatever the array held before.
\<close>
theorem receive_sizing:
  assumes "libc_abi L" and "length stack = STACK_CONTROL"
  shows "let (cap, tr') = max_recv_fds L K tr in
    253 \<le> cap \<and> cap \<le> 2 ^ 20
    \<and> (cfg_cloexec L \<longrightarrow> cap = 253 \<and> tr' = tr)
    \<and> (\<not> cfg_cloexec L \<longrightarrow> (\<forall>cur. sys_getrlimit K tr = Inr cur \<longrightarrow> cur \<noteq> RLIM_INFINITY L \<longrightarrow>
         253 \<le> cur \<longrightarrow> cur \<le> 2 ^ 20 \<longrightarrow> int cap = cur))
    \<and> (linux_abi L \<longrightarrow> (\<exists>sz. control_size L cap = Ok sz \<and> sz \<le> STACK_CONTROL
         \<and> (header_len L + 4 * cap) + (header_len L + ucred_SIZE) \<le> sz
         \<and> with_control_on stack sz f = f (replicate sz 0)))"
proof -
  obtain cap tr' where cap: "max_recv_fds L K tr = (cap, tr')" by (cases "max_recv_fds L K tr")
  have storage: "\<exists>sz. control_size L cap = Ok sz \<and> sz \<le> STACK_CONTROL
      \<and> (header_len L + 4 * cap) + (header_len L + ucred_SIZE) \<le> sz
      \<and> with_control_on stack sz f = f (replicate sz 0)" if abi: "linux_abi L"
  proof -
    have "cfg_cloexec L" using abi cfg_linux_cloexec by (simp add: linux_abi_def linux_abi_axioms_def)
    then have "cap \<le> 1000" using receive_budget [OF assms(1), of K tr] cap by simp
    then show ?thesis using receive_storage [OF abi _ assms(2), of cap f] by blast
  qed
  show ?thesis using receive_budget [OF assms(1), of K tr] storage unfolding cap by auto
qed

theorem receive_sizing_witness:
  "\<exists>sz. control_size linux64 (fst (max_recv_fds linux64 (loopback linux64) [])) = Ok sz \<and> sz \<le> 4096
     \<and> with_control_on (replicate 4096 0xFF) sz (\<lambda>buf. buf) = replicate sz 0"
  using receive_sizing [OF linux64.libc_abi_axioms, of "replicate 4096 0xFF" "loopback linux64" "[]" "\<lambda>buf. buf"]
    linux64.linux_abi_axioms
  by (auto simp: STACK_CONTROL_def split: prod.splits)

section \<open>A transfer over the reference socket\<close>

text \<open>The state of the trace after one whole send.\<close>

definition sent_once :: "libc \<Rightarrow> raw_fd \<Rightarrow> byte list \<Rightarrow> raw_fd list \<Rightarrow> trace" where
  "sent_once L fd data fds = (let e = encode_cmsg L (rights_message L fds) in
     [SysSendmsg fd (send_header L [data] e (length e)) (SEND_FLAGS L) (Inr (length data))])"

lemma send_header_iov [simp]: "s_iov (send_header L iov c n) = iov"
  by (simp add: send_header_def Let_def)

lemma sent_control:
  assumes abi: "libc_abi L" and small: "4 * length fds \<le> max_payload"
  shows "control_bytes (send_header L iov (encode_cmsg L (rights_message L fds))
    (length (encode_cmsg L (rights_message L fds)))) = encode_cmsg L (rights_message L fds)"
proof -
  let ?e = "encode_cmsg L (rights_message L fds)"
  obtain s where s: "cmsg_space L (4 * length fds) = Some s" using small by (simp add: cmsg_space_eq)
  then have "length ?e < 2 ^ 32"
    using libc_abi.length_encode_cmsg [OF abi, of "rights_message L fds" s]
      libc_abi.cmsg_space_bounds(3) [OF abi s] by simp
  then show ?thesis using libc_abi.control_bytes_header [OF abi, of "length ?e" ?e iov] by simp
qed

lemma accepted_send_impl:
  assumes abi: "libc_abi L" and native: "cfg_cloexec L"
    and accepted: "\<And>h. s_iov h = [data] \<Longrightarrow> control_bytes h = encode_cmsg L (rights_message L fds) \<Longrightarrow>
      sys_sendmsg K tr a h (SEND_FLAGS L) = Inr (length data)"
    and "fds \<noteq> []" "4 * length fds \<le> max_payload"
  shows "send_fds_impl L K a data fds tr = Some (Ok (length data), tr @ sent_once L a data fds)"
proof -
  let ?e = "encode_cmsg L (rights_message L fds)"
  have "sys_sendmsg K tr a (send_header L [data] ?e (length ?e)) (SEND_FLAGS L) = Inr (length data)"
    by (rule accepted) (simp_all add: send_header_iov sent_control [OF abi assms(5)])
  then show ?thesis
    using native libc_abi.send_fds_vectored_impl_eq [OF abi assms(4,5)]
    by (simp add: send_fds_impl_def sendmsg_vectored_def prepare_send_def send_loop.simps sendmsg_def
        sent_once_def Let_def)
qed

lemma accepted_send:
  assumes abi: "libc_abi L" and native: "cfg_cloexec L"
    and all: "\<And>tr fd h fl. sys_sendmsg K tr fd h fl = Inr (length (concat (s_iov h)))"
    and "fds \<noteq> []" "data \<noteq> []" "4 * length fds \<le> max_payload"
  shows "stream_send_fds_all L K a data fds tr = Some (Ok (), tr @ sent_once L a data fds)"
  using assms accepted_send_impl [OF abi native _ assms(4,6), of data K tr a]
  by (simp add: stream_send_fds_all_def validate_stream_send_def send_rest_unfold)

lemma loopback_send_impl:
  assumes "libc_abi L" "cfg_cloexec L" "fds \<noteq> []" "4 * length fds \<le> max_payload"
  shows "send_fds_impl L (loopback L) a data fds tr = Some (Ok (length data), tr @ sent_once L a data fds)"
  by (rule accepted_send_impl [OF assms(1,2) _ assms(3,4)]) simp

lemma loopback_send:
  assumes "libc_abi L" "cfg_cloexec L" "fds \<noteq> []" "data \<noteq> []" "4 * length fds \<le> max_payload"
  shows "stream_send_fds_all L (loopback L) a data fds tr = Some (Ok (), tr @ sent_once L a data fds)"
  by (rule accepted_send [OF assms(1,2) loopback_simps(1) assms(3-5)])

text \<open>Nothing waits: everything sent so far was taken.\<close>

definition idle :: "libc \<Rightarrow> trace \<Rightarrow> bool" where
  "idle L tr \<longleftrightarrow> sum_list (map (consumes L) tr) = length (sent tr)"

lemma queue_sent_once:
  assumes abi: "libc_abi L" and small: "4 * length fds \<le> max_payload" and "idle L tr"
  shows "queue L (tr @ sent_once L a data fds) = [(data, encode_cmsg L (rights_message L fds))]"
  using assms(3) by (simp add: queue_def idle_def sent_once_def sent_control [OF abi small] Let_def)

text \<open>Room for the descriptors of one message and for the credentials that come with it.\<close>

lemma linux_control_room:
  assumes linux: "linux_abi L" and "length fds \<le> 253"
  shows "\<exists>sz. control_size L 253 = Ok sz \<and> sz \<le> STACK_CONTROL
    \<and> length (encode_cmsg L (rights_message L fds)) + length (encode_cmsg L (credentials_message L c)) \<le> sz"
proof -
  have abi: "libc_abi L" using linux by (simp add: linux_abi_def)
  obtain sz s t where sz: "control_size L 253 = Ok sz" "sz \<le> STACK_CONTROL" "sz = s + t"
    "cmsg_space L (4 * 253) = Some s" "cmsg_space L ucred_SIZE = Some t"
    using linux_control_size [OF linux, of 253] by auto
  obtain u where u: "cmsg_space L (4 * length fds) = Some u"
    using linux_space [OF linux, of "4 * length fds"] assms(2) by auto
  have "4 * length fds \<le> 4 * 253" using assms(2) by simp
  from linux_space_mono [OF linux this u sz(4)] have "u \<le> s" .
  moreover have "length (encode_cmsg L (rights_message L fds)) = u"
    by (rule libc_abi.length_encode_cmsg [OF abi]) (use u in simp)
  moreover have "length (encode_cmsg L (credentials_message L c)) = t"
    by (rule libc_abi.length_encode_cmsg [OF abi]) (use sz(5) in simp)
  ultimately show ?thesis using sz(1-3) by simp
qed

lemma offered_core:
  assumes linux: "linux_abi L" and fds: "length fds \<le> 253"
    and mode: "mode = Exact (length fds) \<or> (\<exists>n. mode = UpTo n \<and> length fds \<le> n \<and> n \<le> 253)"
    and data: "length data \<le> length buf" and offer: "offers L K b [buf] data c tr"
    and own: "rights_in L (messages_in L c) = fds" "pidfds_in L (messages_in L c) = []"
    and room: "control_size L 253 = Ok sz" "sz \<le> STACK_CONTROL" "length c \<le> sz"
  shows "\<exists>tr'. recv_core L K b [buf] Stream mode tr
    = Some (Ok (length data, fds, 0), [overwrite buf data], tr') \<and> closed tr' = closed tr
      \<and> (\<exists>h. tr' = tr @ [SysRecvmsg b h (RECV_FLAGS L) (Inr (whole_reply data c))])"
proof -
  have abi: "libc_abi L" and native: "cfg_cloexec L"
    using linux cfg_linux_cloexec by (simp_all add: linux_abi_def linux_abi_axioms_def)
  from offered_recv_messages [OF abi offer own, of "replicate sz 0"]
  obtain res tr1 where f: "recv_fds L K b [buf] (replicate sz 0) tr
      = Some (Ok (res, fds), scatter [buf] data, tr1)"
    and r: "bytes_read res = length data" "\<not> ancillary_truncated res" "closed tr1 = closed tr"
      "\<exists>h. tr1 = tr @ [SysRecvmsg b h (RECV_FLAGS L) (Inr (whole_reply data c))]"
    using room data native by (auto simp: STACK_CONTROL_def)
  have "max (mode_count mode) 253 = 253" using mode fds by auto
  then show ?thesis
    using f r room(1) native mode by (auto simp: recv_core_def max_recv_fds_def with_control_eq settle_def)
qed

lemma loopback_core_rights:
  assumes linux: "linux_abi L" and fds: "length fds \<le> 253" "list_all (\<lambda>fd. 0 \<le> sint fd) fds"
    and mode: "mode = Exact (length fds) \<or> (\<exists>n. mode = UpTo n \<and> length fds \<le> n \<and> n \<le> 253)"
    and data: "length data \<le> length buf"
    and q: "queue L tr = (data, encode_cmsg L (rights_message L fds)) # q"
  shows "\<exists>tr'. recv_core L (loopback L) b [buf] Stream mode tr
    = Some (Ok (length data, fds, 0), [overwrite buf data], tr') \<and> closed tr' = closed tr"
proof -
  have abi: "libc_abi L" using linux by (simp add: linux_abi_def)
  have "messages_in L (encode_cmsg L (rights_message L fds)) = [rights_message L fds]"
    using libc_abi.parse_encode [OF abi, of "[rights_message L fds]"] fds(1) by (simp add: max_payload_def)
  moreover obtain sz where "control_size L 253 = Ok sz" "sz \<le> STACK_CONTROL"
    "length (encode_cmsg L (rights_message L fds)) \<le> sz"
    using linux_control_room [OF linux fds(1)] by fastforce
  ultimately show ?thesis
    using offered_core [OF linux fds(1) mode data loopback_offers [OF q]] owned_rights_message [OF abi fds(2)]
    by simp blast
qed

lemma offered_exact:
  assumes linux: "linux_abi L" and fds: "length fds \<le> 253" and data: "length data \<le> DEFAULT_STREAM_BUF"
    and offer: "offers L K b [replicate DEFAULT_STREAM_BUF 0] data c tr"
    and own: "rights_in L (messages_in L c) = fds" "pidfds_in L (messages_in L c) = []"
    and room: "control_size L 253 = Ok sz" "sz \<le> STACK_CONTROL" "length c \<le> sz"
  shows "\<exists>tr'. stream_recv_fds_exact L K b (length fds) tr
    = Some (Ok \<lparr> rf_data = data, rf_fds = fds, rf_surplus_closed = 0 \<rparr>, tr')
      \<and> (\<exists>h. tr' = tr @ [SysRecvmsg b h (RECV_FLAGS L) (Inr (whole_reply data c))])"
  using offered_core [OF linux fds _ _ offer own room, of "Exact (length fds)"] data
  by (auto simp: stream_recv_fds_exact_def recv_owned_impl_def take_overwrite)

lemma loopback_receive:
  assumes linux: "linux_abi L" and fds: "length fds \<le> 253" "list_all (\<lambda>fd. 0 \<le> sint fd) fds"
    and data: "length data \<le> DEFAULT_STREAM_BUF"
    and q: "queue L tr = (data, encode_cmsg L (rights_message L fds)) # q"
  shows "\<exists>tr'. stream_recv_fds_exact L (loopback L) b (length fds) tr
    = Some (Ok \<lparr> rf_data = data, rf_fds = fds, rf_surplus_closed = 0 \<rparr>, tr')"
  using loopback_core_rights [OF linux fds _ _ q, of "Exact (length fds)" "replicate DEFAULT_STREAM_BUF 0" b] data
  by (auto simp: stream_recv_fds_exact_def recv_owned_impl_def take_overwrite)

lemma loopback_receive_up_to:
  assumes linux: "linux_abi L" and fds: "length fds \<le> 253" "list_all (\<lambda>fd. 0 \<le> sint fd) fds"
    and n: "length fds \<le> n" "n \<le> 253" and data: "length data \<le> DEFAULT_STREAM_BUF"
    and q: "queue L tr = (data, encode_cmsg L (rights_message L fds)) # q"
  shows "\<exists>tr' rest. recv_owned_impl L (loopback L) b (replicate DEFAULT_STREAM_BUF 0) Stream (UpTo n) tr
    = Some (Ok \<lparr> rf_data = data, rf_fds = fds, rf_surplus_closed = 0 \<rparr>, rest, tr')"
  using loopback_core_rights [OF linux fds _ _ q, of "UpTo n" "replicate DEFAULT_STREAM_BUF 0" b] n data
  by (auto simp: recv_owned_impl_def take_overwrite)

end
