(* ===== verification/Transfers.thy ===== *)
theory Transfers
  imports Transfer_Props
begin

text \<open>
  Whole transfers of the low-level interface and of credentials: what is added to a storage, sent,
  perhaps looked at with \<^verbatim>\<open>cmsg_recvmsg_peek\<close> and received is what was added; and a receiver that asked for
  credentials gets them from the kernel beside its descriptors, without a truncation.
\<close>

section \<open>A message built by hand\<close>

text \<open>A built buffer goes out whole, and is then all that waits on the socket.\<close>

lemma loopback_sendmsg:
  assumes abi: "libc_abi L" and native: "cfg_cloexec L" and "idle L tr"
    and "anc_wf L a" "\<not> receive_mode a" "length (buffer a) < 2 ^ 32"
  shows "\<exists>tr1. cmsg_sendmsg L (loopback L) fd [data] a tr = Some (Ok (length data), tr1)
    \<and> queue L tr1 = [(data, used a)] \<and> closed tr1 = closed tr"
proof -
  let ?h = "send_header L [data] (buffer a) (anc_length a)"
  have "anc_length a \<le> length (buffer a)" using assms(4) by (simp add: anc_wf_def)
  then have "control_bytes ?h = used a"
    using libc_abi.control_bytes_header [OF abi, of "anc_length a" "buffer a" "[data]"] assms(6)
    by (simp add: used_def)
  moreover have "s_iov ?h = [data]" by (simp add: send_header_def Let_def)
  ultimately show ?thesis
    using native assms(3,5)
    by (simp add: cmsg_sendmsg_def sendmsg_vectored_def prepare_send_def send_loop.simps sendmsg_def
        queue_def idle_def Let_def)
qed

text \<open>What a storage with one list of descriptors and one set of credentials holds.\<close>

lemma built_pair:
  assumes abi: "libc_abi L" and "fds \<noteq> []" "list_all (\<lambda>fd. 0 \<le> sint fd) fds"
    and "length buf < 2 ^ usize_bits L"
    and run: "build L [AddFds fds, AddCredentials c] (new_ancillary buf) = (Ok (), a)"
  shows "used a = encode_cmsg L (rights_message L fds) @ encode_cmsg L (credentials_message L c)"
    and "rights_in L (messages_in L (used a)) = fds" and "pidfds_in L (messages_in L (used a)) = []"
    and "anc_wf L a" and "\<not> receive_mode a" and "length (buffer a) = length buf"
proof -
  have wf: "anc_wf L (new_ancillary buf)" by (rule new_ancillary_wf [OF assms(4)])
  show "used a = encode_cmsg L (rights_message L fds) @ encode_cmsg L (credentials_message L c)"
    "anc_wf L a"
    using libc_abi.build_invariant [OF abi wf, of "[]", OF _ _ run] assms(2) by auto
  have m: "messages_in L (used a) = [rights_message L fds, credentials_message L c]"
    using libc_abi.build_parse [OF abi assms(4) run] assms(2) by simp
  show "pidfds_in L (messages_in L (used a)) = []"
    unfolding m using libc_abi.message_kinds [OF abi] by simp
  show "rights_in L (messages_in L (used a)) = fds"
    unfolding m using owned_rights_message(1) [OF abi assms(3)] libc_abi.message_kinds [OF abi] by simp
  show "\<not> receive_mode a"
    using libc_abi.build_keeps [OF abi run wf] by (simp add: new_ancillary_def)
  show "length (buffer a) = length buf"
    using libc_abi.build_keeps [OF abi run wf] by (simp add: new_ancillary_def)
qed

text \<open>
  A message with credentials too: what is built with \<^verbatim>\<open>add_fds\<close> and \<^verbatim>\<open>add_credentials\<close> and sent through
  the low-level layer is received whole by an exact convenience receive, up to the most descriptors
  a message can hold: the default storage has room for both messages, so nothing is truncated.
\<close>
theorem credentialed_transfer:
  assumes "linux_abi L" and "fds \<noteq> []" "length fds \<le> 253" "list_all (\<lambda>fd. 0 \<le> sint fd) fds"
    and "length data \<le> DEFAULT_STREAM_BUF" and "idle L tr" and "length buf < 2 ^ 32"
    and "build L [AddFds fds, AddCredentials c] (new_ancillary buf) = (Ok (), anc)"
  shows "\<exists>tr1 tr2. cmsg_sendmsg L (loopback L) a [data] anc tr = Some (Ok (length data), tr1)
    \<and> stream_recv_fds_exact L (loopback L) b (length fds) tr1
      = Some (Ok \<lparr> rf_data = data, rf_fds = fds, rf_surplus_closed = 0 \<rparr>, tr2)"
proof -
  have abi: "libc_abi L" and native: "cfg_cloexec L"
    using assms(1) cfg_linux_cloexec by (simp_all add: linux_abi_def linux_abi_axioms_def)
  have "length buf < 2 ^ usize_bits L" using assms(7) libc_abi.usize_lower [OF abi] by linarith
  note built = built_pair [OF abi assms(2,4) this assms(8)]
  from loopback_sendmsg [OF abi native assms(6) built(4,5)] built(6) assms(7) obtain tr1 where
    tr1: "cmsg_sendmsg L (loopback L) a [data] anc tr = Some (Ok (length data), tr1)"
      "queue L tr1 = [(data, used anc)]" by auto
  from linux_control_room [OF assms(1,3), of c] obtain sz where
    sz: "control_size L 253 = Ok sz" "sz \<le> STACK_CONTROL" "length (used anc) \<le> sz"
    by (auto simp: built(1))
  from offered_exact [OF assms(1,3,5) loopback_offers [OF tr1(2)] built(2,3) sz, of b] tr1(1)
  show ?thesis by auto
qed

theorem credentialed_transfer_witness:
  "\<exists>anc tr1 tr2. build linux64 [AddFds [3, 4], AddCredentials (new_credentials 1 2 3)]
       (new_ancillary (replicate 64 0)) = (Ok (), anc)
     \<and> cmsg_sendmsg linux64 (loopback linux64) 5 [[9]] anc [] = Some (Ok 1, tr1)
     \<and> stream_recv_fds_exact linux64 (loopback linux64) 6 2 tr1
       = Some (Ok \<lparr> rf_data = [9], rf_fds = [3, 4], rf_surplus_closed = 0 \<rparr>, tr2)"
proof -
  obtain anc where b: "build linux64 [AddFds [3, 4], AddCredentials (new_credentials 1 2 3)]
      (new_ancillary (replicate 64 0)) = (Ok (), anc)" using pair_built by blast
  have "\<exists>tr1 tr2. cmsg_sendmsg linux64 (loopback linux64) 5 [[9]] anc [] = Some (Ok (length [9 :: byte]), tr1)
      \<and> stream_recv_fds_exact linux64 (loopback linux64) 6 (length [3, 4 :: raw_fd]) tr1
        = Some (Ok \<lparr> rf_data = [9], rf_fds = [3, 4], rf_surplus_closed = 0 \<rparr>, tr2)"
    by (rule credentialed_transfer [OF linux64.linux_abi_axioms _ _ _ _ _ _ b])
      (simp_all add: DEFAULT_STREAM_BUF_def idle_def)
  with b show ?thesis by (simp del: build.simps add: numeral_2_eq_2 [symmetric])
qed

section \<open>The low-level interface end to end\<close>

lemma queue_neither [simp]: "queue L (drop_fds fds tr) = queue L tr"
proof -
  have c: "sum_list (map (consumes L \<circ> SysClose) fds) = 0" by (induction fds) simp_all
  have "sent (map SysClose fds) = []" by (induction fds) simp_all
  then show ?thesis by (simp only: queue_def drop_fds_def map_append map_map sum_list_append sent_append c) simp
qed

lemma queue_peeked:
  "fl AND MSG_PEEK L \<noteq> 0 \<Longrightarrow> queue L (tr @ [SysRecvmsg sock h fl (Inr r)]) = queue L tr"
  by (simp add: queue_def)

text \<open>What a receiver of the built messages takes from their bytes.\<close>

lemma built_messages:
  assumes abi: "libc_abi L" and linux: "cfg_linux L" and "length buf < 2 ^ 32"
    and run: "build L xs (new_ancillary buf) = (Ok (), anc)" and valid: "list_all addition_valid xs"
  shows "anc_wf L anc" and "\<not> receive_mode anc" and "length (buffer anc) < 2 ^ 32"
    and "concat (map (received_of L) (messages_in L (used anc))) = concat (map addition_received xs)"
    and "pidfds_in L (messages_in L (used anc)) = []"
proof -
  have small: "length buf < 2 ^ usize_bits L"
    using assms(3) libc_abi.usize_lower [OF abi] by linarith
  note wf = new_ancillary_wf [OF small]
  show "anc_wf L anc" using libc_abi.build_invariant [OF abi wf, of "[]", OF _ _ run] by auto
  show "\<not> receive_mode anc" "length (buffer anc) < 2 ^ 32"
    using libc_abi.build_keeps [OF abi run wf] assms(3) by (simp_all add: new_ancillary_def)
  have m: "messages_in L (used anc) = added_messages L xs"
    by (rule libc_abi.build_parse [OF abi small run])
  show "concat (map (received_of L) (messages_in L (used anc))) = concat (map addition_received xs)"
    unfolding m by (rule libc_abi.received_added [OF abi linux valid])
  show "pidfds_in L (messages_in L (used anc)) = []"
    unfolding m by (rule libc_abi.pidfds_added [OF abi])
qed

text \<open>One receive of a waiting message into a storage with room for it, peeking or not.\<close>

definition after_receive :: "libc \<Rightarrow> byte list \<Rightarrow> socket_ancillary \<Rightarrow> socket_ancillary" where
  "after_receive L c a = a\<lparr>buffer := overwrite (buffer a) c, anc_length := length c, truncated := False,
     received := concat (map (received_of L) (messages_in L c)), receive_mode := True\<rparr>"

lemma after_receive_simps [simp]:
  "fst (messages (after_receive L c a)) = concat (map (received_of L) (messages_in L c))"
  "length c \<le> length (buffer a) \<Longrightarrow> length (buffer (after_receive L c a)) = length (buffer a)"
  "anc_fds (after_receive L c a) = rights_in L (messages_in L c)"
  by (simp_all add: after_receive_def messages_def anc_fds_def)

lemma loopback_take_waiting:
  assumes abi: "libc_abi L" and native: "cfg_cloexec L" and q: "queue L tr = (data, c) # rest"
    and own: "pidfds_in L (messages_in L c) = []"
    and room: "length data \<le> length (concat iov)" "length c \<le> length (buffer a)" "length (buffer a) < 2 ^ 32"
  shows "\<exists>tr'. recv_into_ancillary L (loopback L) d iov a fl tr
      = Some (Ok \<lparr> rr_bytes_read = length data, rr_truncated = False, rr_data_truncated = False \<rparr>,
          scatter iov data, after_receive L c a, tr')
    \<and> closed tr' = closed tr @ anc_fds a
    \<and> (\<exists>h r. tr' = drop_fds (anc_fds a) tr @ [SysRecvmsg d h (RECV_FLAGS L OR fl) (Inr r)])"
proof -
  have "offers L (loopback L) d iov data c (drop_fds (anc_fds a) tr)"
    by (rule loopback_offers) (use q in simp)
  from offered_recv_into [OF abi this own room, of fl] native show ?thesis
    unfolding after_receive_def by auto
qed

text \<open>
  C21: The low-level interface end to end, on Linux: whatever was added to a storage arrives in the
  storage of the receiver as the same descriptor lists and credentials in the same order, if that has
  room; what the receiver held before is closed, once. After a peek the message is still there: the next
  receive closes the copies the peek installed and yields its own.
\<close>
theorem lowlevel_transfer:
  assumes "libc_abi L" and "cfg_linux L" and "MSG_PEEK L \<noteq> 0" and "idle L tr"
    and "length buf < 2 ^ 32" and "build L xs (new_ancillary buf) = (Ok (), anc)"
    and "list_all addition_valid xs"
    and "length data \<le> length (concat iov)" and "anc_length anc \<le> length (buffer a)"
    and "length (buffer a) < 2 ^ 32"
  shows "let yield = concat (map addition_received xs);
      res = \<lparr> rr_bytes_read = length data, rr_truncated = False, rr_data_truncated = False \<rparr>
    in \<exists>tr1. cmsg_sendmsg L (loopback L) s [data] anc tr = Some (Ok (length data), tr1)
    \<and> (\<exists>a1 tr2. cmsg_recvmsg L (loopback L) d iov a tr1 = Some (Ok res, scatter iov data, a1, tr2)
        \<and> fst (messages a1) = yield \<and> closed tr2 = closed tr @ anc_fds a)
    \<and> (\<exists>a1 tr2 a2 tr3. cmsg_recvmsg_peek L (loopback L) d iov a tr1 = Some (Ok res, scatter iov data, a1, tr2)
        \<and> fst (messages a1) = yield
        \<and> cmsg_recvmsg L (loopback L) d iov a1 tr2 = Some (Ok res, scatter iov data, a2, tr3)
        \<and> fst (messages a2) = yield \<and> closed tr3 = closed tr @ anc_fds a @ owned_fds yield)"
proof -
  define yield where "yield = concat (map addition_received xs)"
  define res where "res = \<lparr> rr_bytes_read = length data, rr_truncated = False, rr_data_truncated = False \<rparr>"
  have native: "cfg_cloexec L" by (rule cfg_linux_cloexec [OF assms(2)])
  note built = built_messages [OF assms(1,2,5,6,7), folded yield_def]
  from loopback_sendmsg [OF assms(1) native assms(4) built(1-3)] obtain tr1 where
    tr1: "cmsg_sendmsg L (loopback L) s [data] anc tr = Some (Ok (length data), tr1)"
      "queue L tr1 = [(data, used anc)]" "closed tr1 = closed tr" by blast
  have room: "length (used anc) \<le> length (buffer a)" using assms(9) by (simp add: used_def)
  note take = loopback_take_waiting [OF assms(1) native _ built(5) assms(8), folded res_def]
  let ?a1 = "after_receive L (used anc) a"
  from take [OF tr1(2) room assms(10), of d "MSG_PEEK L"] obtain tr2 h r where
    tr2: "cmsg_recvmsg_peek L (loopback L) d iov a tr1 = Some (Ok res, scatter iov data, ?a1, tr2)"
      "closed tr2 = closed tr1 @ anc_fds a"
      "tr2 = drop_fds (anc_fds a) tr1 @ [SysRecvmsg d h (RECV_FLAGS L OR MSG_PEEK L) (Inr r)]"
    by (auto simp: cmsg_recvmsg_peek_def)
  have q2: "queue L tr2 = [(data, used anc)]"
    unfolding tr2(3) using assms(3) tr1(2) by (subst queue_peeked) simp_all
  have "owned_fds yield = rights_in L (messages_in L (used anc))" by (simp flip: built(4))
  with take [OF q2, of ?a1 d 0] take [OF tr1(2) room assms(10), of d 0] tr1 tr2(1,2) room assms(10) built(4)
  show ?thesis
    unfolding Let_def yield_def [symmetric] res_def [symmetric]
    by (auto simp: cmsg_recvmsg_def)
qed

theorem lowlevel_transfer_witness:
  "\<exists>anc tr1 a1 tr2. build linux64 [AddFds [3, 4], AddCredentials (new_credentials 1 2 3)]
       (new_ancillary (replicate 64 0)) = (Ok (), anc)
     \<and> cmsg_sendmsg linux64 (loopback linux64) 5 [[9]] anc [] = Some (Ok 1, tr1)
     \<and> cmsg_recvmsg linux64 (loopback linux64) 6 [[0, 0]] (new_ancillary (replicate 64 0)) tr1
       = Some (Ok \<lparr> rr_bytes_read = 1, rr_truncated = False, rr_data_truncated = False \<rparr>, [[9, 0]], a1, tr2)
     \<and> fst (messages a1) = [Rights [3, 4], Credentials (new_credentials 1 2 3)]"
proof -
  let ?xs = "[AddFds [3, 4], AddCredentials (new_credentials 1 2 3)]"
  let ?a0 = "new_ancillary (replicate 64 (0 :: byte))"
  obtain anc where b: "build linux64 ?xs ?a0 = (Ok (), anc)" using pair_built by blast
  have wf: "anc_wf linux64 ?a0" by (rule new_ancillary_wf) (simp add: linux64_def)
  have "anc_wf linux64 anc" using linux64.build_invariant [OF wf, of "[]", OF _ _ b] by auto
  moreover have "length (buffer anc) = 64" using linux64.build_keeps [OF b wf] by (simp add: new_ancillary_def)
  ultimately have "anc_length anc \<le> length (buffer ?a0)" by (simp add: anc_wf_def new_ancillary_def)
  then have "let yield = concat (map addition_received ?xs);
      res = \<lparr> rr_bytes_read = length [9 :: byte], rr_truncated = False, rr_data_truncated = False \<rparr>
    in \<exists>tr1. cmsg_sendmsg linux64 (loopback linux64) 5 [[9]] anc [] = Some (Ok (length [9 :: byte]), tr1)
    \<and> (\<exists>a1 tr2. cmsg_recvmsg linux64 (loopback linux64) 6 [[0, 0]] ?a0 tr1 = Some (Ok res, scatter [[0, 0]] [9], a1, tr2)
        \<and> fst (messages a1) = yield \<and> closed tr2 = closed [] @ anc_fds ?a0)
    \<and> (\<exists>a1 tr2 a2 tr3. cmsg_recvmsg_peek linux64 (loopback linux64) 6 [[0, 0]] ?a0 tr1 = Some (Ok res, scatter [[0, 0]] [9], a1, tr2)
        \<and> fst (messages a1) = yield
        \<and> cmsg_recvmsg linux64 (loopback linux64) 6 [[0, 0]] a1 tr2 = Some (Ok res, scatter [[0, 0]] [9], a2, tr3)
        \<and> fst (messages a2) = yield \<and> closed tr3 = closed [] @ anc_fds ?a0 @ owned_fds yield)"
    by (intro lowlevel_transfer [OF linux64.libc_abi_axioms linux64.on_linux _ _ _ b])
      (simp_all add: linux64_def idle_def new_ancillary_def)
  moreover have "scatter [[0 :: byte, 0]] [9] = [[9, 0]]" by (simp add: overwrite_def)
  ultimately show ?thesis using b unfolding Let_def by (fastforce simp del: build.simps)
qed

section \<open>Credentials from the kernel\<close>

text \<open>
  A socket that delivers what it is sent, on a kernel that attests the sender's credentials \<open>c\<close> in front
  of every message to a socket with \<^verbatim>\<open>SO_PASSCRED\<close>.
\<close>

definition wants_credentials :: "libc \<Rightarrow> trace \<Rightarrow> raw_fd \<Rightarrow> bool" where
  "wants_credentials L tr fd \<longleftrightarrow> fold (option_after fd (SOL_SOCKET L) (SO_PASSCRED L)) tr 0 \<noteq> 0"

definition attesting :: "libc \<Rightarrow> scm_credentials \<Rightarrow> kernel" where
  "attesting L c = (loopback L)\<lparr>sys_recvmsg := (\<lambda>tr fd h fl.
     case queue L tr of [] \<Rightarrow> Inl (EAGAIN L)
     | (p, b) # _ \<Rightarrow> Inr (deliver L
         (p, if wants_credentials L tr fd then encode_cmsg L (credentials_message L c) @ b else b) h))\<rparr>"

lemma attesting_simps [simp]:
  "sys_sendmsg (attesting L c) tr fd h fl = Inr (length (concat (s_iov h)))"
  "sys_setsockopt (attesting L c) tr fd level opt val = Inr ()"
  "sys_getsockopt (attesting L c) tr fd level opt = Inr (fold (option_after fd level opt) tr 0)"
  by (simp_all add: attesting_def)

lemma attesting_offers:
  "queue L tr = (p, b) # q \<Longrightarrow> wants_credentials L tr sock \<Longrightarrow>
     offers L (attesting L c) sock iov p (encode_cmsg L (credentials_message L c) @ b) tr"
  by (simp add: offers_def attesting_def)

text \<open>The two messages such a receiver gets, and their size.\<close>

definition attested_control :: "libc \<Rightarrow> scm_credentials \<Rightarrow> raw_fd list \<Rightarrow> byte list" where
  "attested_control L c fds =
     encode_cmsg L (credentials_message L c) @ encode_cmsg L (rights_message L fds)"

lemma attested_messages:
  assumes abi: "libc_abi L" and linux: "cfg_linux L" and small: "4 * length fds \<le> max_payload"
    and nonneg: "list_all (\<lambda>fd. 0 \<le> sint fd) fds"
  shows "rights_in L (messages_in L (attested_control L c fds)) = fds"
    and "pidfds_in L (messages_in L (attested_control L c fds)) = []"
    and "concat (map (received_of L) (messages_in L (attested_control L c fds))) = [Credentials c, Rights fds]"
proof -
  have m: "messages_in L (attested_control L c fds) = [credentials_message L c, rights_message L fds]"
    using libc_abi.parse_encode [OF abi, of "[credentials_message L c, rights_message L fds]"] small
    by (simp add: max_payload_def ucred_SIZE_def attested_control_def)
  have "rights L (rights_message L fds) = fds"
    using owned_rights_message(1) [OF abi nonneg] libc_abi.message_kinds [OF abi] by simp
  then show "rights_in L (messages_in L (attested_control L c fds)) = fds"
    "pidfds_in L (messages_in L (attested_control L c fds)) = []"
    "concat (map (received_of L) (messages_in L (attested_control L c fds))) = [Credentials c, Rights fds]"
    using libc_abi.message_kinds [OF abi] libc_abi.received_credentials_message [OF abi linux]
      libc_abi.received_rights_message [OF abi] nonneg
    by (simp_all add: m list_all_iff filter_id_conv)
qed

lemma attested_size:
  assumes "libc_abi L" and "buffer_size_for_rights L (length fds) = (Ok n :: (io_error, usize) result)"
    and "buffer_size_for_credentials L = (Ok m :: (io_error, usize) result)"
  shows "length (attested_control L c fds) = n + m"
proof -
  have "cmsg_space L (4 * length fds) = Some n" "cmsg_space L ucred_SIZE = Some m"
    using assms(2,3) by (auto simp: buffer_size_for_rights_def buffer_size_for_credentials_def outcome_simps
        checked_mul_def mult.commute split: option.splits if_splits)
  then have "length (encode_cmsg L (rights_message L fds)) = n" "length (encode_cmsg L (credentials_message L c)) = m"
    by (auto intro: libc_abi.length_encode_cmsg [OF assms(1)])
  then show ?thesis by (simp add: attested_control_def)
qed

text \<open>Asking for credentials and sending to the one who asked.\<close>

lemma attested_send:
  assumes abi: "libc_abi L" and native: "cfg_cloexec L" and "fds \<noteq> []" "data \<noteq> []"
    and small: "4 * length fds \<le> max_payload" and idle: "idle L tr"
  obtains tr0 tr1 where "set_passcred L (attesting L c) b True tr = (Ok (), tr0)"
    "stream_send_fds_all L (attesting L c) s data fds tr0 = Some (Ok (), tr1)"
    "fst (passcred L (attesting L c) b tr1) = Ok True"
    "\<forall>iov. offers L (attesting L c) b iov data (attested_control L c fds) tr1"
proof -
  let ?tr0 = "tr @ [SysSetsockopt b (SOL_SOCKET L) (SO_PASSCRED L) 1 (Inr ())]"
  let ?tr1 = "?tr0 @ sent_once L s data fds"
  have set: "set_passcred L (attesting L c) b True tr = (Ok (), ?tr0)"
    by (simp add: set_passcred_def setsockopt_def Let_def)
  have send: "stream_send_fds_all L (attesting L c) s data fds ?tr0 = Some (Ok (), ?tr1)"
    by (rule accepted_send [OF abi native attesting_simps(1) assms(3,4) small])
  have "idle L ?tr0" using idle by (simp add: idle_def)
  from queue_sent_once [OF abi small this]
  have q: "queue L ?tr1 = [(data, encode_cmsg L (rights_message L fds))]" .
  have opt: "fold (option_after b (SOL_SOCKET L) (SO_PASSCRED L)) ?tr1 0 = 1" by (simp add: sent_once_def Let_def)
  then have on: "fst (passcred L (attesting L c) b ?tr1) = Ok True" by (simp add: passcred_def getsockopt_def Let_def)
  from opt have "wants_credentials L ?tr1 b" by (simp add: wants_credentials_def)
  from attesting_offers [OF q this] have "\<forall>iov. offers L (attesting L c) b iov data (attested_control L c fds) ?tr1"
    unfolding attested_control_def by blast
  with set send on show thesis by (rule that)
qed

text \<open>
  C22: A receiver that asked for credentials (and \<^verbatim>\<open>passcred\<close> says so) gets them, attested by the kernel, beside its descriptors and
  without a truncation, up to the most descriptors a message can hold: from an exact convenience receive
  the payload and the descriptors, and from a low-level receive, into a storage of the sizes the crate
  computes for the two messages, the credentials and the descriptors.
\<close>
theorem passcred_transfer:
  assumes "linux_abi L" and "fds \<noteq> []" "length fds \<le> 253" "list_all (\<lambda>fd. 0 \<le> sint fd) fds"
    and "data \<noteq> []" "length data \<le> DEFAULT_STREAM_BUF" and "idle L tr"
    and "buffer_size_for_rights L (length fds) = (Ok n :: (io_error, usize) result)"
    and "buffer_size_for_credentials L = (Ok m :: (io_error, usize) result)"
  shows "\<exists>tr0 tr1. set_passcred L (attesting L c) b True tr = (Ok (), tr0)
    \<and> stream_send_fds_all L (attesting L c) s data fds tr0 = Some (Ok (), tr1)
    \<and> fst (passcred L (attesting L c) b tr1) = Ok True
    \<and> (\<exists>tr2. stream_recv_fds_exact L (attesting L c) b (length fds) tr1
        = Some (Ok \<lparr> rf_data = data, rf_fds = fds, rf_surplus_closed = 0 \<rparr>, tr2))
    \<and> (\<exists>res iov a tr2. cmsg_recvmsg L (attesting L c) b [replicate DEFAULT_STREAM_BUF 0]
          (new_ancillary (replicate (n + m) 0)) tr1 = Some (Ok res, iov, a, tr2)
        \<and> \<not> rr_truncated res \<and> take (rr_bytes_read res) (concat iov) = data
        \<and> fst (messages a) = [Credentials c, Rights fds])"
proof -
  have abi: "libc_abi L" and linux: "cfg_linux L" and native: "cfg_cloexec L"
    using assms(1) cfg_linux_cloexec by (simp_all add: linux_abi_def linux_abi_axioms_def)
  have small: "4 * length fds \<le> max_payload" using assms(3) by (simp add: max_payload_def)
  from attested_send [where b = b and c = c and s = s, OF abi native assms(2,5) small assms(7)] obtain tr0 tr1 where
    sent: "set_passcred L (attesting L c) b True tr = (Ok (), tr0)"
      "stream_send_fds_all L (attesting L c) s data fds tr0 = Some (Ok (), tr1)"
      "fst (passcred L (attesting L c) b tr1) = Ok True"
    and offer: "\<forall>iov. offers L (attesting L c) b iov data (attested_control L c fds) tr1" .
  note got = attested_messages [OF abi linux small assms(4), of c]
  from linux_control_room [OF assms(1,3), of c] obtain sz where
    sz: "control_size L 253 = Ok sz" "sz \<le> STACK_CONTROL" "length (attested_control L c fds) \<le> sz"
    by (auto simp: attested_control_def)
  note recv = offered_exact [OF assms(1,3,6) spec [OF offer, of "[replicate DEFAULT_STREAM_BUF 0]"] got(1,2) sz]
  have room: "length (attested_control L c fds) = n + m" "n + m < 2 ^ 32"
    using attested_size [OF abi assms(8,9), of c] sz(2,3) by (simp_all add: STACK_CONTROL_def)
  let ?a = "new_ancillary (replicate (n + m) 0)"
  have "\<exists>tr'. recv_into_ancillary L (attesting L c) b [replicate DEFAULT_STREAM_BUF 0] ?a 0 tr1
      = Some (Ok \<lparr> rr_bytes_read = length data, rr_truncated = False, rr_data_truncated = False \<rparr>,
          scatter [replicate DEFAULT_STREAM_BUF 0] data, after_receive L (attested_control L c fds) ?a, tr')"
    using offered_recv_into [OF abi, of "attesting L c" b "[replicate DEFAULT_STREAM_BUF 0]" data
        "attested_control L c fds" ?a tr1 0] offer got(2) room assms(6)
    by (auto simp: new_ancillary_def anc_fds_def after_receive_def)
  then show ?thesis
    using sent recv assms(6) got(3) by (force simp: cmsg_recvmsg_def take_overwrite)
qed

theorem passcred_transfer_witness:
  "\<exists>tr0 tr1 res iov a tr2. set_passcred linux64 (attesting linux64 (new_credentials 1 2 3)) 6 True [] = (Ok (), tr0)
     \<and> stream_send_fds_all linux64 (attesting linux64 (new_credentials 1 2 3)) 5 [9] [3, 4] tr0 = Some (Ok (), tr1)
     \<and> cmsg_recvmsg linux64 (attesting linux64 (new_credentials 1 2 3)) 6 [replicate DEFAULT_STREAM_BUF 0]
          (new_ancillary (replicate (24 + 32) 0)) tr1 = Some (Ok res, iov, a, tr2)
     \<and> fst (messages a) = [Credentials (new_credentials 1 2 3), Rights [3, 4]]"
proof -
  have "buffer_size_for_rights linux64 (length [3, 4 :: raw_fd]) = (Ok 24 :: (io_error, usize) result)"
    "buffer_size_for_credentials linux64 = (Ok 32 :: (io_error, usize) result)"
    by (simp_all add: buffer_size_for_rights_def buffer_size_for_credentials_def checked_mul_def cmsg_space_eq
        max_payload_def linux64_def aligned_space_def align_up_def ucred_SIZE_def)
  from passcred_transfer [OF linux64.linux_abi_axioms _ _ _ _ _ _ this, of "[9]" "[]" "new_credentials 1 2 3" 6 5]
  show ?thesis by (simp add: DEFAULT_STREAM_BUF_def idle_def) blast
qed

end
