(* ===== verification/Streams.thy ===== *)
theory Streams
  imports Transfers
begin

unbundle bit_operations_syntax

text \<open>
  A transfer over a byte stream, which keeps no boundaries between sends: the kernel accepts as much of a
  send as it likes and lets a receive have as much of what waits as it likes, across the sends it came in.
  \<^verbatim>\<open>send_fds_all\<close> goes on until all of a payload of any length is out, the first receive finds all of the
  descriptors with the first bytes, and what is left for later receives are the other bytes, in order and bare.
\<close>

section \<open>Sending in pieces\<close>

definition accepts :: "(trace \<Rightarrow> nat) \<Rightarrow> kernel \<Rightarrow> bool" where
  "accepts n K \<longleftrightarrow> (\<forall>tr fd h fl. sys_sendmsg K tr fd h fl = Inr (min (n tr) (length (concat (s_iov h)))))"

lemma acceptsD: "accepts n K \<Longrightarrow> sys_sendmsg K tr fd h fl = Inr (min (n tr) (length (concat (s_iov h))))"
  unfolding accepts_def by blast

lemma accepts_short_writes: "accepts (\<lambda>tr. n) (short_writes n K)"
  by (simp add: accepts_def short_writes_def)

text \<open>Sends whose control bytes are empty, and nothing else.\<close>

definition bare :: "libc \<Rightarrow> trace \<Rightarrow> bool" where
  "bare L ev \<longleftrightarrow> list_all (\<lambda>e. consumes L e = 0 \<and> list_all (\<lambda>m. snd m = []) (sent_by e)) ev"

lemma bare_simps [simp]:
  "bare L []" "bare L (e # ev) \<longleftrightarrow> consumes L e = 0 \<and> list_all (\<lambda>m. snd m = []) (sent_by e) \<and> bare L ev"
  by (simp_all add: bare_def)

text \<open>One send of a piece, with or without control bytes.\<close>

definition piece_event :: "libc \<Rightarrow> nat \<Rightarrow> raw_fd \<Rightarrow> byte list \<Rightarrow> byte list \<Rightarrow> syscall" where
  "piece_event L n a data c =
     SysSendmsg a (send_header L [data] c (length c)) (SEND_FLAGS L) (Inr (min n (length data)))"

lemma piece_event_simps [simp]:
  "consumes L (piece_event L n a data c) = 0"
  "length c < 2 ^ 32 \<Longrightarrow> libc_abi L \<Longrightarrow> sent_by (piece_event L n a data c) = [(take n data, c)]"
  using libc_abi.control_bytes_header [of L "length c" c "[data]"]
  by (simp_all add: piece_event_def) (simp add: send_header_def Let_def min_def)

lemma piece_sent:
  assumes "cfg_cloexec L" "accepts n K"
  shows "sendmsg_vectored L K a [data] c (length c) tr
    = Some (Ok (min (n tr) (length data)), tr @ [piece_event L (n tr) a data c])"
proof -
  have "s_iov (send_header L [data] c (length c)) = [data]" by (simp add: send_header_def Let_def)
  then show ?thesis
    using assms(1) by (simp add: sendmsg_vectored_def prepare_send_def send_loop.simps sendmsg_def
        acceptsD [OF assms(2)] piece_event_def Let_def)
qed

lemma rest_sent:
  assumes abi: "libc_abi L" and native: "cfg_cloexec L" and K: "accepts n K" "\<And>tr. 0 < n tr"
    and "length data < 2 ^ usize_bits L" and "pos \<le> length data"
  shows "\<exists>ev. send_rest L K a data pos tr = Some (Ok (), tr @ ev)
    \<and> payload ev = drop pos data \<and> bare L ev"
  using assms(6)
proof (induction "length data - pos" arbitrary: pos tr rule: less_induct)
  case less
  show ?case
  proof (cases "pos = length data")
    case True
    then show ?thesis by (simp add: send_rest_unfold payload_def)
  next
    case False
    let ?k = "min (n tr) (length data - pos)" let ?e = "piece_event L (n tr) a (drop pos data) []"
    have k: "0 < ?k" "pos + ?k \<le> length data" "pos < length data" using False less.prems K(2) [of tr] by auto
    have s: "send_bytes L K a (drop pos data) tr = Some (Ok ?k, tr @ [?e])"
      using piece_sent [OF native K(1), of a "drop pos data" "[]" tr] by (simp add: send_bytes_def)
    have dec: "length data - (pos + ?k) < length data - pos" using k by linarith
    from less.hyps [OF dec k(2), of "tr @ [?e]"] obtain ev where
      ev: "send_rest L K a data (pos + ?k) (tr @ [?e]) = Some (Ok (), (tr @ [?e]) @ ev)"
        "payload ev = drop (pos + ?k) data" "bare L ev" by blast
    have "sent_by ?e = [(take (n tr) (drop pos data), [])]" using abi by simp
    moreover have "take (n tr) (drop pos data) @ drop (pos + ?k) data = drop pos data"
    proof -
      have "take (n tr) (drop pos data) = take ?k (drop pos data)" by (simp add: min_def)
      moreover have "drop (pos + ?k) data = drop ?k (drop pos data)" by (simp add: add.commute)
      ultimately show ?thesis by (simp only: append_take_drop_id)
    qed
    moreover have "send_rest L K a data pos tr = Some (Ok (), tr @ (?e # ev))"
      using k s ev(1) assms(5) by (subst send_rest_unfold) (simp add: checked_add_def)
    ultimately show ?thesis using ev(2,3)
      by (intro exI [of _ "?e # ev"]) (simp add: payload_def)
  qed
qed

text \<open>The first piece carries the descriptors, the others nothing.\<close>

lemma all_sent:
  assumes abi: "libc_abi L" and native: "cfg_cloexec L" and K: "accepts n K" "\<And>tr. 0 < n tr"
    and "length data < 2 ^ usize_bits L"
    and "fds \<noteq> []" "data \<noteq> []" "4 * length fds \<le> max_payload"
  shows "\<exists>e ev. stream_send_fds_all L K a data fds tr = Some (Ok (), tr @ e # ev)
    \<and> consumes L e = 0 \<and> sent_by e = [(take (n tr) data, encode_cmsg L (rights_message L fds))]
    \<and> payload ev = drop (n tr) data \<and> bare L ev"
proof -
  let ?c = "encode_cmsg L (rights_message L fds)" let ?e = "piece_event L (n tr) a data ?c"
  let ?k = "min (n tr) (length data)"
  obtain s where s: "cmsg_space L (4 * length fds) = Some s" using assms(8) by (simp add: cmsg_space_eq)
  then have small: "length ?c < 2 ^ 32"
    using libc_abi.length_encode_cmsg [OF abi, of "rights_message L fds" s]
      libc_abi.cmsg_space_bounds(3) [OF abi s] by simp
  have first: "send_fds_impl L K a data fds tr = Some (Ok ?k, tr @ [?e])"
    using libc_abi.send_fds_vectored_impl_eq [OF abi assms(6,8)] piece_sent [OF native K(1)]
    by (simp add: send_fds_impl_def Let_def)
  from rest_sent [OF abi native K assms(5), of ?k a "tr @ [?e]"] obtain ev where
    ev: "send_rest L K a data ?k (tr @ [?e]) = Some (Ok (), (tr @ [?e]) @ ev)"
      "payload ev = drop ?k data" "bare L ev" by auto
  have "stream_send_fds_all L K a data fds tr = Some (Ok (), tr @ ?e # ev)"
    using first ev(1) K(2) [of tr] assms(6,7) by (simp add: stream_send_fds_all_def validate_stream_send_def)
  then show ?thesis
    using ev(2,3) piece_event_simps(2) [OF small abi] by (intro exI [of _ ?e] exI [of _ ev]) (simp add: min_def)
qed

section \<open>A byte stream\<close>

text \<open>The bytes of a send; its control bytes go with the first of them.\<close>

fun stamp :: "byte list \<times> byte list \<Rightarrow> (byte \<times> byte list) list" where
  "stamp ([], c) = []"
| "stamp (x # xs, c) = (x, c) # map (\<lambda>y. (y, [])) xs"

text \<open>The bytes a receive took, none if it only peeked; what waits are the bytes sent and not yet taken.\<close>

fun taken_by :: "libc \<Rightarrow> syscall \<Rightarrow> nat" where
  "taken_by L (SysRecvmsg fd h fl (Inr r)) = (if fl AND MSG_PEEK L = 0 then rr_ret r else 0)"
| "taken_by L _ = 0"

definition bytes_taken :: "libc \<Rightarrow> trace \<Rightarrow> nat" where
  "bytes_taken L tr = sum_list (map (taken_by L) tr)"

definition bytes_sent :: "trace \<Rightarrow> (byte \<times> byte list) list" where
  "bytes_sent tr = concat (map stamp (sent tr))"

definition waiting_bytes :: "libc \<Rightarrow> trace \<Rightarrow> (byte \<times> byte list) list" where
  "waiting_bytes L tr = drop (bytes_taken L tr) (bytes_sent tr)"

text \<open>
  A receive gets bytes of one or several sends, but as documented none beyond the next byte that carries
  control bytes of its own.
\<close>

fun portion :: "nat \<Rightarrow> (byte \<times> byte list) list \<Rightarrow> (byte \<times> byte list) list" where
  "portion m [] = []"
| "portion m (x # xs) = take m (x # takeWhile (\<lambda>y. snd y = []) xs)"

text \<open>The kernel accepts at most \<open>n\<close> bytes of a send and delivers at most \<open>k\<close>, whatever it chooses each time.\<close>

definition byte_stream :: "libc \<Rightarrow> (trace \<Rightarrow> nat) \<Rightarrow> (trace \<Rightarrow> nat) \<Rightarrow> kernel" where
  "byte_stream L n k = (loopback L)\<lparr>
     sys_sendmsg := (\<lambda>tr fd h fl. Inr (min (n tr) (length (concat (s_iov h))))),
     sys_recvmsg := (\<lambda>tr fd h fl.
       case portion (min (k tr) (length (concat (r_iov h)))) (waiting_bytes L tr) of
         [] \<Rightarrow> Inl (EAGAIN L)
       | x # xs \<Rightarrow> Inr (deliver L (map fst (x # xs), snd x) h))\<rparr>"

lemma accepts_byte_stream: "accepts n (byte_stream L n k)"
  by (simp add: accepts_def byte_stream_def)

lemma stamp_bare: "stamp (p, []) = map (\<lambda>y. (y, [])) p"
  by (cases p) simp_all

lemma taken_by_bare: "consumes L e = 0 \<Longrightarrow> taken_by L e = 0"
  by (cases "(L, e)" rule: taken_by.cases) (simp_all split: if_splits)

lemma bare_bytes: "bare L ev \<Longrightarrow> bytes_taken L ev = 0 \<and> bytes_sent ev = map (\<lambda>y. (y, [])) (payload ev)"
proof (induction ev)
  case (Cons e ev)
  have "concat (map stamp ms) = map (\<lambda>y. (y, [])) (concat (map fst ms))" if "list_all (\<lambda>m. snd m = []) ms" for ms
    using that by (induction ms) (auto simp: stamp_bare)
  with Cons show ?case by (simp add: bytes_taken_def bytes_sent_def payload_def taken_by_bare)
qed (simp add: bytes_taken_def bytes_sent_def payload_def)

text \<open>Nothing waits: every byte sent so far was taken.\<close>

definition drained :: "libc \<Rightarrow> trace \<Rightarrow> bool" where
  "drained L tr \<longleftrightarrow> bytes_taken L tr = length (bytes_sent tr)"

lemma waiting_bytes_sent:
  assumes "drained L tr" and "consumes L e = 0" "sent_by e = [(x # p, c)]" "bare L ev"
  shows "waiting_bytes L (tr @ e # ev) = (x, c) # map (\<lambda>y. (y, [])) (p @ payload ev)"
proof -
  have "bytes_taken L (tr @ e # ev) = length (bytes_sent tr)"
    using assms(1) bare_bytes [OF assms(4)] taken_by_bare [OF assms(2)] by (simp add: bytes_taken_def drained_def)
  moreover have "bytes_sent (tr @ e # ev) = bytes_sent tr @ (x, c) # map (\<lambda>y. (y, [])) (p @ payload ev)"
    using bare_bytes [OF assms(4)] assms(3) by (simp add: bytes_sent_def)
  ultimately show ?thesis by (simp add: waiting_bytes_def)
qed

lemma byte_stream_offers:
  assumes "waiting_bytes L tr = (x, c) # map (\<lambda>y. (y, [])) p" and "0 < k tr" "0 < length (concat iov)"
    and "cfg_cloexec L"
  shows "offers L (byte_stream L n k) sock iov (take (min (k tr) (length (concat iov))) (x # p)) c tr"
proof -
  obtain m where m: "min (k tr) (length (concat iov)) = Suc m"
    using assms(2,3) gr0_implies_Suc [of "min (k tr) (length (concat iov))"] by (auto simp del: length_concat)
  have bare: "takeWhile (\<lambda>y. snd y = []) (map (\<lambda>y. (y, [])) p) = map (\<lambda>y. (y, []) :: byte \<times> byte list) p"
    by (simp add: takeWhile_eq_all_conv)
  have "portion (Suc m) (waiting_bytes L tr) = (x, c) # map (\<lambda>y. (y, [])) (take m p)"
    by (simp only: assms(1) portion.simps take_Suc_Cons bare take_map)
  then show ?thesis using assms(4) by (simp add: offers_def byte_stream_def m comp_def)
qed

lemma bytes_received:
  "fl AND MSG_PEEK L = 0 \<Longrightarrow>
     waiting_bytes L (tr @ [SysRecvmsg sock h fl (Inr (whole_reply p c))]) = drop (length p) (waiting_bytes L tr)"
  by (simp add: waiting_bytes_def bytes_taken_def bytes_sent_def whole_reply_def add.commute)

section \<open>The transfer\<close>

text \<open>
  C20: Over a byte stream that takes as much of each send and gives as much to each receive as the kernel
  likes, joining and splitting the sends, and on which all that was sent before has been received: on
  every Linux target \<^verbatim>\<open>send_fds_all\<close> sends a payload of any length a slice can have, and an exact
  receive gives the peer its first bytes (as many as the kernel likes, 4096 at most, the room of the
  receive) with all of the descriptors in the order they were sent, nothing surplus; what then waits are
  the other bytes of the payload, in order, and no descriptor. (The flags of a receive do not contain the
  bit of \<^verbatim>\<open>MSG_PEEK\<close>.)
\<close>
theorem end_to_end_pieces:
  assumes "linux_abi L" and "RECV_FLAGS L AND MSG_PEEK L = 0"
    and "\<And>tr. 0 < n tr" and "\<And>tr. 0 < k tr" and "drained L tr"
    and "fds \<noteq> []" "length fds \<le> 253" "list_all (\<lambda>fd. 0 \<le> sint fd) fds"
    and "data \<noteq> []" "length data < 2 ^ usize_bits L"
  shows "\<exists>tr1 tr2. stream_send_fds_all L (byte_stream L n k) a data fds tr = Some (Ok (), tr1)
    \<and> stream_recv_fds_exact L (byte_stream L n k) b (length fds) tr1
      = Some (Ok \<lparr> rf_data = take (min (k tr1) 4096) data, rf_fds = fds, rf_surplus_closed = 0 \<rparr>, tr2)
    \<and> waiting_bytes L tr2 = map (\<lambda>y. (y, [])) (drop (min (k tr1) 4096) data)"
proof -
  let ?c = "encode_cmsg L (rights_message L fds)" and ?K = "byte_stream L n k"
  have abi: "libc_abi L" and native: "cfg_cloexec L"
    using assms(1) cfg_linux_cloexec by (simp_all add: linux_abi_def linux_abi_axioms_def)
  have small: "4 * length fds \<le> max_payload" using assms(7) by (simp add: max_payload_def)
  from all_sent [where K = ?K, OF abi native accepts_byte_stream [of n L k] assms(3,10,6,9) small] obtain e ev where
    send: "stream_send_fds_all L ?K a data fds tr = Some (Ok (), tr @ e # ev)"
    and e: "consumes L e = 0" "sent_by e = [(take (n tr) data, ?c)]"
    and ev: "payload ev = drop (n tr) data" "bare L ev"
    by blast
  let ?tr1 = "tr @ e # ev"
  obtain x p where data: "data = x # p" using assms(9) by (cases data) auto
  obtain m where m: "n tr = Suc m" using assms(3) [of tr] by (cases "n tr") auto
  have waiting: "waiting_bytes L ?tr1 = (x, ?c) # map (\<lambda>y. (y, [])) p"
    using waiting_bytes_sent [OF assms(5) e(1) _ ev(2), of x "take m p" ?c] e(2) ev(1) by (simp add: data m)
  let ?m = "min (k ?tr1) 4096"
  have "messages_in L ?c = [rights_message L fds]"
    using libc_abi.parse_encode [OF abi, of "[rights_message L fds]"] small by simp
  then have own: "rights_in L (messages_in L ?c) = fds" "pidfds_in L (messages_in L ?c) = []"
    using owned_rights_message [OF abi assms(8)] by simp_all
  obtain sz where sz: "control_size L 253 = Ok sz" "sz \<le> STACK_CONTROL" "length ?c \<le> sz"
    using linux_control_room [OF assms(1,7)] by fastforce
  have offer: "offers L ?K b [replicate DEFAULT_STREAM_BUF 0] (take ?m data) ?c ?tr1"
    using byte_stream_offers [OF waiting assms(4) _ native, of "[replicate DEFAULT_STREAM_BUF 0]"]
    by (simp add: DEFAULT_STREAM_BUF_def data)
  have "length (take ?m data) \<le> DEFAULT_STREAM_BUF" by (simp add: DEFAULT_STREAM_BUF_def)
  from offered_exact [OF assms(1,7) this offer own sz] obtain tr2 h where
    recv: "stream_recv_fds_exact L ?K b (length fds) ?tr1
        = Some (Ok \<lparr> rf_data = take ?m data, rf_fds = fds, rf_surplus_closed = 0 \<rparr>, tr2)"
      "tr2 = ?tr1 @ [SysRecvmsg b h (RECV_FLAGS L) (Inr (whole_reply (take ?m data) ?c))]" by blast
  have "0 < ?m" using assms(4) [of ?tr1] by simp
  then have "waiting_bytes L tr2 = map (\<lambda>y. (y, [])) (drop ?m data)"
    unfolding recv(2) bytes_received [OF assms(2)] waiting
    by (cases ?m) (simp_all add: data drop_map min_def)
  with send recv(1) show ?thesis by blast
qed

text \<open>Four bytes of a send at a time, three of a receive: the receive joins two sends.\<close>

theorem end_to_end_pieces_witness:
  "\<exists>tr1 tr2. stream_send_fds_all linux64 (byte_stream linux64 (\<lambda>tr. 2) (\<lambda>tr. 3)) 3 [1, 2, 3, 4, 5] [7, 8] []
       = Some (Ok (), tr1)
     \<and> stream_recv_fds_exact linux64 (byte_stream linux64 (\<lambda>tr. 2) (\<lambda>tr. 3)) 4 2 tr1
       = Some (Ok \<lparr> rf_data = [1, 2, 3], rf_fds = [7, 8], rf_surplus_closed = 0 \<rparr>, tr2)
     \<and> waiting_bytes linux64 tr2 = [(4, []), (5, [])]"
proof -
  have "RECV_FLAGS linux64 AND MSG_PEEK linux64 = 0" by (simp add: RECV_FLAGS_def linux64_def)
  moreover have "drained linux64 []" by (simp add: drained_def bytes_taken_def bytes_sent_def)
  moreover have "length [1, 2, 3, 4, 5 :: byte] < 2 ^ usize_bits linux64" by (simp add: linux64_def)
  moreover have "take (min 3 4096) [1, 2, 3, 4, 5 :: byte] = [1, 2, 3]" "length [7, 8 :: raw_fd] = 2"
    "map (\<lambda>y. (y, [] :: byte list)) (drop (min 3 4096) [1, 2, 3, 4, 5 :: byte]) = [(4, []), (5, [])]"
    by simp_all
  ultimately show ?thesis
    using end_to_end_pieces [OF linux64.linux_abi_axioms, of "\<lambda>tr. 2" "\<lambda>tr. 3" "[]" "[7, 8]" "[1, 2, 3, 4, 5]" 3 4]
    by (auto simp: numeral_2_eq_2 [symmetric])
qed

end
