(* ===== verification/Asyncio.thy ===== *)
theory Asyncio
  imports Seqpacket
begin

text \<open>
  \<^verbatim>\<open>src/asyncio.rs\<close> and \<^verbatim>\<open>seqpacket::tokio\<close>: the asynchronous forms. Tokio is not code of the
  repository: its \<^verbatim>\<open>async_io\<close> is the parameter \<open>aio\<close> of every operation, a function that
  drives a closure over the state it captures, \<open>None\<close> if the future never resolves.
\<close>

datatype interest = Readable | Writable

type_synonym ('r, 's) async_io =
  "raw_fd \<Rightarrow> interest \<Rightarrow> ('s \<Rightarrow> ((io_error, 'r) result \<times> 's) option) \<Rightarrow> 's
     \<Rightarrow> ((io_error, 'r) result \<times> 's) option"

section \<open>UnixStream\<close>

definition async_stream_send_fds_vectored ::
  "(usize, trace) async_io \<Rightarrow> libc \<Rightarrow> kernel \<Rightarrow> raw_fd \<Rightarrow> byte list list \<Rightarrow> raw_fd list \<Rightarrow> trace
     \<Rightarrow> ((io_error, usize) result \<times> trace) option" where
  "async_stream_send_fds_vectored aio L K self iov fds tr =
     (if fds \<noteq> [] \<and> iov_len iov = 0 then Some (Err payload_error, tr)
      else aio self Writable (\<lambda>tr. send_fds_vectored_impl L K self iov fds tr) tr)"

definition async_stream_recv_fds_vectored ::
  "(usize \<times> raw_fd list, byte list list \<times> trace) async_io \<Rightarrow> libc \<Rightarrow> kernel \<Rightarrow> raw_fd \<Rightarrow> usize
     \<Rightarrow> byte list list \<Rightarrow> trace
     \<Rightarrow> ((io_error, usize \<times> raw_fd list) result \<times> byte list list \<times> trace) option" where
  "async_stream_recv_fds_vectored aio L K self N iov tr =
     aio self Readable
       (\<lambda>(iov, tr). recv_fds_into_vectored_impl L K self iov Stream (UpTo N) tr) (iov, tr)"

definition async_stream_send_fds ::
  "(usize, trace) async_io \<Rightarrow> libc \<Rightarrow> kernel \<Rightarrow> raw_fd \<Rightarrow> byte list \<Rightarrow> raw_fd list \<Rightarrow> trace
     \<Rightarrow> ((io_error, usize) result \<times> trace) option" where
  "async_stream_send_fds aio L K self data fds tr =
     (case validate_stream_send data (length fds) of
        Err e \<Rightarrow> Some (Err e, tr)
      | Panic \<Rightarrow> Some (Panic, tr)
      | Ok _ \<Rightarrow> aio self Writable (\<lambda>tr. send_fds_impl L K self data fds tr) tr)"

partial_function (option) async_send_rest ::
  "(usize, trace) async_io \<Rightarrow> libc \<Rightarrow> kernel \<Rightarrow> raw_fd \<Rightarrow> byte list \<Rightarrow> usize \<Rightarrow> trace
     \<Rightarrow> ((io_error, unit) result \<times> trace) option"
where
  "async_send_rest aio L K self data sent_n tr =
     (if sent_n < length data
      then do {
        (ret, tr) \<leftarrow> aio self Writable
          (\<lambda>tr. case slice data sent_n (length data) of
             Err e \<Rightarrow> Some (Err e, tr)
           | Panic \<Rightarrow> Some (Panic, tr)
           | Ok rest \<Rightarrow> send_bytes L K self rest tr) tr;
        (case ret of
           Err e \<Rightarrow> Some (Err e, tr)
         | Panic \<Rightarrow> Some (Panic, tr)
         | Ok n \<Rightarrow>
             if n = 0 then Some (Err (Custom WriteZero (Text ''short write'')), tr)
             else (case checked_add (usize_bits L) sent_n n of
                 None \<Rightarrow> Some (Panic, tr)
               | Some sent_n \<Rightarrow> async_send_rest aio L K self data sent_n tr)) }
      else Some (Ok (), tr))"

definition async_stream_send_fds_all ::
  "(usize, trace) async_io \<Rightarrow> libc \<Rightarrow> kernel \<Rightarrow> raw_fd \<Rightarrow> byte list \<Rightarrow> raw_fd list \<Rightarrow> trace
     \<Rightarrow> ((io_error, unit) result \<times> trace) option" where
  "async_stream_send_fds_all aio L K self data fds tr =
     (case validate_stream_send data (length fds) of
        Err e \<Rightarrow> Some (Err e, tr)
      | Panic \<Rightarrow> Some (Panic, tr)
      | Ok _ \<Rightarrow>
        if fds = [] then async_send_rest aio L K self data 0 tr
        else do {
          (ret, tr) \<leftarrow> aio self Writable (\<lambda>tr. send_fds_impl L K self data fds tr) tr;
          (case ret of
             Err e \<Rightarrow> Some (Err e, tr)
           | Panic \<Rightarrow> Some (Panic, tr)
           | Ok first \<Rightarrow>
               if first = 0
               then Some (Err (Custom WriteZero (Text ''failed to send fd payload byte'')), tr)
               else async_send_rest aio L K self data first tr) })"

definition async_stream_recv_fds ::
  "(received_fds, byte list \<times> trace) async_io \<Rightarrow> libc \<Rightarrow> kernel \<Rightarrow> raw_fd \<Rightarrow> usize \<Rightarrow> trace
     \<Rightarrow> ((io_error, received_fds) result \<times> trace) option" where
  "async_stream_recv_fds aio L K self N tr = do {
     (ret, _, tr) \<leftarrow> aio self Readable
       (\<lambda>(data_buf, tr). recv_owned_impl L K self data_buf Stream (UpTo N) tr)
       (replicate DEFAULT_STREAM_BUF 0, tr);
     Some (ret, tr) }"

definition async_stream_recv_fds_into ::
  "(usize \<times> raw_fd list, byte list \<times> trace) async_io \<Rightarrow> libc \<Rightarrow> kernel \<Rightarrow> raw_fd \<Rightarrow> usize
     \<Rightarrow> byte list \<Rightarrow> trace
     \<Rightarrow> ((io_error, usize \<times> raw_fd list) result \<times> byte list \<times> trace) option" where
  "async_stream_recv_fds_into aio L K self N data_buf tr =
     aio self Readable
       (\<lambda>(data_buf, tr). recv_fds_into_impl L K self data_buf Stream (UpTo N) tr) (data_buf, tr)"

definition async_stream_recv_fds_exact ::
  "(received_fds, byte list \<times> trace) async_io \<Rightarrow> libc \<Rightarrow> kernel \<Rightarrow> raw_fd \<Rightarrow> usize \<Rightarrow> trace
     \<Rightarrow> ((io_error, received_fds) result \<times> trace) option" where
  "async_stream_recv_fds_exact aio L K self N tr = do {
     (ret, _, tr) \<leftarrow> aio self Readable
       (\<lambda>(data_buf, tr). recv_owned_impl L K self data_buf Stream (Exact N) tr)
       (replicate DEFAULT_STREAM_BUF 0, tr);
     Some (ret, tr) }"

definition async_stream_recv_fds_exact_into ::
  "(usize \<times> raw_fd list, byte list \<times> trace) async_io \<Rightarrow> libc \<Rightarrow> kernel \<Rightarrow> raw_fd \<Rightarrow> usize
     \<Rightarrow> byte list \<Rightarrow> trace
     \<Rightarrow> ((io_error, usize \<times> raw_fd list) result \<times> byte list \<times> trace) option" where
  "async_stream_recv_fds_exact_into aio L K self N data_buf tr =
     aio self Readable
       (\<lambda>(data_buf, tr). recv_fds_into_impl L K self data_buf Stream (Exact N) tr) (data_buf, tr)"

section \<open>UnixDatagram\<close>

definition async_datagram_send_fds ::
  "(usize, trace) async_io \<Rightarrow> libc \<Rightarrow> kernel \<Rightarrow> raw_fd \<Rightarrow> byte list \<Rightarrow> raw_fd list \<Rightarrow> trace
     \<Rightarrow> ((io_error, usize) result \<times> trace) option" where
  "async_datagram_send_fds aio L K self data fds tr =
     aio self Writable (\<lambda>tr. send_fds_impl L K self data fds tr) tr"

definition async_datagram_recv_fds ::
  "(received_fds, byte list \<times> trace) async_io \<Rightarrow> libc \<Rightarrow> kernel \<Rightarrow> raw_fd \<Rightarrow> usize \<Rightarrow> trace
     \<Rightarrow> ((io_error, received_fds) result \<times> trace) option" where
  "async_datagram_recv_fds aio L K self N tr = do {
     (ret, _, tr) \<leftarrow> aio self Readable
       (\<lambda>(data_buf, tr). recv_owned_impl L K self data_buf Datagram (UpTo N) tr)
       (replicate DEFAULT_DATAGRAM_BUF 0, tr);
     Some (ret, tr) }"

definition async_datagram_recv_fds_into ::
  "(usize \<times> raw_fd list, byte list \<times> trace) async_io \<Rightarrow> libc \<Rightarrow> kernel \<Rightarrow> raw_fd \<Rightarrow> usize
     \<Rightarrow> byte list \<Rightarrow> trace
     \<Rightarrow> ((io_error, usize \<times> raw_fd list) result \<times> byte list \<times> trace) option" where
  "async_datagram_recv_fds_into aio L K self N data_buf tr =
     aio self Readable
       (\<lambda>(data_buf, tr). recv_fds_into_impl L K self data_buf Datagram (UpTo N) tr) (data_buf, tr)"

definition async_datagram_recv_fds_exact ::
  "(received_fds, byte list \<times> trace) async_io \<Rightarrow> libc \<Rightarrow> kernel \<Rightarrow> raw_fd \<Rightarrow> usize \<Rightarrow> trace
     \<Rightarrow> ((io_error, received_fds) result \<times> trace) option" where
  "async_datagram_recv_fds_exact aio L K self N tr = do {
     (ret, _, tr) \<leftarrow> aio self Readable
       (\<lambda>(data_buf, tr). recv_owned_impl L K self data_buf Datagram (Exact N) tr)
       (replicate DEFAULT_DATAGRAM_BUF 0, tr);
     Some (ret, tr) }"

definition async_datagram_recv_fds_exact_into ::
  "(usize \<times> raw_fd list, byte list \<times> trace) async_io \<Rightarrow> libc \<Rightarrow> kernel \<Rightarrow> raw_fd \<Rightarrow> usize
     \<Rightarrow> byte list \<Rightarrow> trace
     \<Rightarrow> ((io_error, usize \<times> raw_fd list) result \<times> byte list \<times> trace) option" where
  "async_datagram_recv_fds_exact_into aio L K self N data_buf tr =
     aio self Readable
       (\<lambda>(data_buf, tr). recv_fds_into_impl L K self data_buf Datagram (Exact N) tr) (data_buf, tr)"

section \<open>seqpacket::tokio\<close>

definition async_seqpacket_send_fds ::
  "(usize, trace) async_io \<Rightarrow> libc \<Rightarrow> kernel \<Rightarrow> raw_fd \<Rightarrow> byte list \<Rightarrow> raw_fd list \<Rightarrow> trace
     \<Rightarrow> ((io_error, usize) result \<times> trace) option" where
  "async_seqpacket_send_fds aio L K sock data fds tr =
     aio sock Writable (\<lambda>tr. send_fds_impl L K sock data fds tr) tr"

definition async_seqpacket_recv_fds_into ::
  "(usize \<times> raw_fd list, byte list \<times> trace) async_io \<Rightarrow> libc \<Rightarrow> kernel \<Rightarrow> raw_fd \<Rightarrow> usize
     \<Rightarrow> byte list \<Rightarrow> trace
     \<Rightarrow> ((io_error, usize \<times> raw_fd list) result \<times> byte list \<times> trace) option" where
  "async_seqpacket_recv_fds_into aio L K sock N data_buf tr =
     aio sock Readable
       (\<lambda>(data_buf, tr). recv_fds_into_impl L K sock data_buf Datagram (UpTo N) tr) (data_buf, tr)"

definition async_seqpacket_recv_fds_exact_into ::
  "(usize \<times> raw_fd list, byte list \<times> trace) async_io \<Rightarrow> libc \<Rightarrow> kernel \<Rightarrow> raw_fd \<Rightarrow> usize
     \<Rightarrow> byte list \<Rightarrow> trace
     \<Rightarrow> ((io_error, usize \<times> raw_fd list) result \<times> byte list \<times> trace) option" where
  "async_seqpacket_recv_fds_exact_into aio L K sock N data_buf tr =
     aio sock Readable
       (\<lambda>(data_buf, tr). recv_fds_into_impl L K sock data_buf Datagram (Exact N) tr) (data_buf, tr)"

end
