(* ===== verification/Async_Props.thy ===== *)
theory Async_Props
  imports Asyncio Transfer_Props
begin

unbundle bit_operations_syntax

text \<open>
  The asynchronous forms under the documented contract of tokio's \<^verbatim>\<open>async_io\<close>, the locale
  \<open>tokio_io\<close>: retries after \<^verbatim>\<open>WouldBlock\<close> neither leak nor duplicate anything, and the
  operations keep the guarantees of the blocking ones.
\<close>

section \<open>The contract of async_io\<close>

definition would_block :: "libc \<Rightarrow> (io_error, 'r) result \<Rightarrow> bool" where
  "would_block L r = (case r of Err e \<Rightarrow> kind_of L e = WouldBlock | _ \<Rightarrow> False)"

lemma would_block_Err: "would_block L r \<Longrightarrow> \<exists>e. r = Err e"
  by (cases r) (simp_all add: would_block_def)

text \<open>Calls of the closure that were told to wait.\<close>

inductive attempts :: "libc \<Rightarrow> ('s \<Rightarrow> ((io_error, 'r) result \<times> 's) option) \<Rightarrow> 's \<Rightarrow> 's \<Rightarrow> bool"
  for L op where
  no_attempt: "attempts L op s s"
| blocked: "op s = Some (r, s1) \<Longrightarrow> would_block L r \<Longrightarrow> attempts L op s1 s2 \<Longrightarrow> attempts L op s s2"

text \<open>
  Documented behaviour of \<^verbatim>\<open>async_io\<close>: it calls the closure again while that returns
  \<^verbatim>\<open>WouldBlock\<close> and otherwise returns its result; waiting for readiness can itself fail.
\<close>

locale tokio_io =
  fixes L :: libc
    and aio :: "('r, 's) async_io"
  assumes contract: "aio fd i op s = Some (r, s') \<Longrightarrow>
    \<exists>s1. attempts L op s s1 \<and> (op s1 = Some (r, s') \<and> \<not> would_block L r \<or> (\<exists>e. r = Err e) \<and> s' = s1)"
begin

text \<open>
  What holds of every call of the closure and is transitive holds of the whole, provided a call
  that fails counts as one that did nothing.
\<close>

lemma run_induct:
  assumes run: "aio fd i op s = Some (r, s')"
    and refl: "\<And>s. R s s" and step: "\<And>s r s1. op s = Some (r, s1) \<Longrightarrow> would_block L r \<Longrightarrow> R s s1"
    and trans: "\<And>s1 s2 s3. R s1 s2 \<Longrightarrow> R s2 s3 \<Longrightarrow> R s1 s3"
  shows "\<exists>s1. R s s1 \<and> (op s1 = Some (r, s') \<or> (\<exists>e. r = Err e) \<and> s' = s1)"
proof -
  have "attempts L op s s1 \<Longrightarrow> R s s1" for s1
    by (induction rule: attempts.induct) (blast intro: refl step trans)+
  with contract [OF run] show ?thesis by blast
qed

end

text \<open>The reference runtime: it polls the closure until it does not block.\<close>

partial_function (option) poll ::
  "libc \<Rightarrow> ('s \<Rightarrow> ((io_error, 'r) result \<times> 's) option) \<Rightarrow> 's \<Rightarrow> ((io_error, 'r) result \<times> 's) option"
where
  "poll L op s =
     (case op s of
        None \<Rightarrow> None
      | Some (r, s1) \<Rightarrow> if would_block L r then poll L op s1 else Some (r, s1))"

lemma poll_contract:
  assumes "poll L op s = Some x"
  shows "\<exists>s1. attempts L op s s1 \<and> op s1 = Some x \<and> \<not> would_block L (fst x)"
proof (rule poll.raw_induct [of "\<lambda>L op s x. \<exists>s1. attempts L op s s1 \<and> op s1 = Some x
      \<and> \<not> would_block L (fst x)", OF _ assms])
  fix rec L op s x
  assume IH: "\<And>L op s x. rec L op s = Some x \<Longrightarrow>
      \<exists>s1. attempts L op s s1 \<and> op s1 = Some x \<and> \<not> would_block L (fst x)"
    and eq: "(case op s of None \<Rightarrow> None
      | Some (r, s1) \<Rightarrow> if would_block L r then rec L op s1 else Some (r, s1)) = Some x"
  from eq obtain r s1 where o: "op s = Some (r, s1)" by (auto split: option.splits)
  show "\<exists>s1. attempts L op s s1 \<and> op s1 = Some x \<and> \<not> would_block L (fst x)"
  proof (cases "would_block L r")
    case True
    with eq o have "rec L op s1 = Some x" by simp
    from IH [OF this] show ?thesis using blocked [of op s r s1 L] o True by blast
  next
    case False
    with eq o show ?thesis by (auto intro: no_attempt)
  qed
qed

interpretation polling: tokio_io L "\<lambda>fd i. poll L" for L
  by unfold_locales (use poll_contract in fastforce)

section \<open>Receiving\<close>

fun fds_of_pair :: "('e, usize \<times> raw_fd list) result \<Rightarrow> raw_fd list" where
  "fds_of_pair (Ok (n, fds)) = fds"
| "fds_of_pair (Err e) = []"
| "fds_of_pair Panic = []"

fun fds_of_received :: "('e, received_fds) result \<Rightarrow> raw_fd list" where
  "fds_of_received (Ok rf) = rf_fds rf"
| "fds_of_received (Err e) = []"
| "fds_of_received Panic = []"

context os_interface begin

lemma recv_into_vectored_accounts:
  assumes "recv_fds_into_vectored_impl L K fd iov kind mode tr = Some (r, iov', tr')"
    and "4 * mode_count mode \<le> max_payload"
  shows "accounted L tr [] tr' (fds_of_pair r) \<and> r \<noteq> Panic"
proof -
  from assms(1) obtain ret where c: "recv_core L K fd iov kind mode tr = Some (ret, iov', tr')"
    and r: "r = and_then ret (\<lambda>(bytes, fds, _). Ok (bytes, fds))"
    by (auto simp: recv_fds_into_vectored_impl_def bind_eq_Some_conv)
  have "fds_of_pair r = kept ret" "r = Panic \<longleftrightarrow> ret = Panic"
    using r by (cases ret rule: kept.cases; simp)+
  with recv_core_cases [OF c assms(2)] show ?thesis by simp
qed

lemma recv_into_accounts:
  assumes "recv_fds_into_impl L K fd buf kind mode tr = Some (r, buf', tr')"
    and "4 * mode_count mode \<le> max_payload"
  shows "accounted L tr [] tr' (fds_of_pair r) \<and> r \<noteq> Panic"
proof -
  from assms(1) obtain iov' where "recv_fds_into_vectored_impl L K fd [buf] kind mode tr = Some (r, iov', tr')"
    by (auto simp: recv_fds_into_impl_def bind_eq_Some_conv)
  from recv_into_vectored_accounts [OF this assms(2)] show ?thesis .
qed

lemma recv_owned_accounts:
  assumes "recv_owned_impl L K fd buf kind mode tr = Some (r, buf', tr')"
    and "4 * mode_count mode \<le> max_payload"
  shows "accounted L tr [] tr' (fds_of_received r) \<and> r \<noteq> Panic"
proof -
  from assms(1) obtain ret iov1 tr1 where c: "recv_core L K fd [buf] kind mode tr = Some (ret, iov1, tr1)"
    by (auto simp: recv_owned_impl_def bind_eq_Some_conv)
  with assms(1) have "fds_of_received r = kept ret" "r = Panic \<longleftrightarrow> ret = Panic" "tr' = tr1"
    by (cases ret rule: kept.cases; auto simp: recv_owned_impl_def Let_def)+
  with recv_core_cases [OF c assms(2)] show ?thesis by simp
qed

end

text \<open>
  An operation that owns what its result holds still does when it is retried after blocking:
  a call that blocked owns nothing.
\<close>

context tokio_io begin

lemma async_accounts:
  assumes run: "aio fd i op s = Some (r, s')"
    and op: "\<And>s r s'. op s = Some (r, s') \<Longrightarrow> accounted L (trace_of s) [] (trace_of s') (owned r) \<and> r \<noteq> Panic"
    and err: "\<And>e. owned (Err e) = []"
  shows "accounted L (trace_of s) [] (trace_of s') (owned r) \<and> r \<noteq> Panic"
proof -
  let ?R = "\<lambda>s s1. accounted L (trace_of s) [] (trace_of s1) []"
  have step: "?R s s1" if o: "op s = Some (r, s1)" and w: "would_block L r" for s r s1
  proof -
    from would_block_Err [OF w] obtain e where "r = Err e" by blast
    with op [OF o] err show ?thesis by simp
  qed
  have "\<exists>s1. ?R s s1 \<and> (op s1 = Some (r, s') \<or> (\<exists>e. r = Err e) \<and> s' = s1)"
    by (rule run_induct [OF run, of ?R, OF accounted_refl step accounted_trans])
  then obtain s1 where s1: "?R s s1" "op s1 = Some (r, s') \<or> (\<exists>e. r = Err e) \<and> s' = s1" by blast
  from s1(2) show ?thesis
  proof
    assume "op s1 = Some (r, s')"
    from op [OF this] accounted_trans [OF s1(1)] show ?thesis by blast
  next
    assume "(\<exists>e. r = Err e) \<and> s' = s1"
    with s1(1) err show ?thesis by auto
  qed
qed

end

lemma async_owned_accounts:
  assumes os: "os_interface L K" and io: "tokio_io L aio" and m: "4 * mode_count mode \<le> max_payload"
    and run: "aio self i (\<lambda>(data_buf, tr). recv_owned_impl L K self data_buf kind mode tr) (buf, tr)
      = Some (r, rest, tr')"
  shows "accounted L tr [] tr' (fds_of_received r) \<and> r \<noteq> Panic"
  using tokio_io.async_accounts [OF io run, of snd fds_of_received]
    os_interface.recv_owned_accounts [OF os _ m] by fastforce

lemma async_into_accounts:
  assumes os: "os_interface L K" and io: "tokio_io L aio" and m: "4 * mode_count mode \<le> max_payload"
    and run: "aio self i (\<lambda>(data_buf, tr). recv_fds_into_impl L K self data_buf kind mode tr) (buf, tr)
      = Some (r, buf', tr')"
  shows "accounted L tr [] tr' (fds_of_pair r) \<and> r \<noteq> Panic"
  using tokio_io.async_accounts [OF io run, of snd fds_of_pair]
    os_interface.recv_into_accounts [OF os _ m] by fastforce

text \<open>
  The asynchronous receives of stream and datagram sockets that return an owned result lose
  nothing: whatever blocked, failed or was retried on the way, every descriptor delivered is in
  the result or was closed, none twice and none too early, and no call panics for fewer than
  \<open>2 ^ 29\<close> requested descriptors.
\<close>
theorem async_receive_accounts:
  assumes "os_interface L K" and "tokio_io L aio" and "4 * N \<le> max_payload"
    and "run = async_stream_recv_fds aio L K self N tr \<or> run = async_stream_recv_fds_exact aio L K self N tr
      \<or> run = async_datagram_recv_fds aio L K self N tr \<or> run = async_datagram_recv_fds_exact aio L K self N tr"
    and "run = Some (r, tr')"
  shows "accounted L tr [] tr' (fds_of_received r) \<and> r \<noteq> Panic"
  using assms(4,5) async_owned_accounts [OF assms(1,2), of "UpTo N"]
    async_owned_accounts [OF assms(1,2), of "Exact N"] assms(3)
  by (elim disjE; simp add: async_stream_recv_fds_def async_stream_recv_fds_exact_def
      async_datagram_recv_fds_def async_datagram_recv_fds_exact_def bind_eq_Some_conv; blast)

text \<open>On the reference runtime an operation that does not block behaves as the blocking form.\<close>

lemma poll_Ok: "op s = Some (Ok x, s') \<Longrightarrow> poll L op s = Some (Ok x, s')"
  by (simp add: poll.simps would_block_def)

lemma async_recv_pending:
  "\<exists>tr'. async_stream_recv_fds_exact (\<lambda>fd i. poll linux64) linux64 (loopback linux64) 6 1 (pending linux64)
     = Some (Ok \<lparr> rf_data = [9], rf_fds = [7], rf_surplus_closed = 0 \<rparr>, tr')"
proof -
  from loopback_receive [OF linux64.linux_abi_axioms, of "[7]" "[9]" "pending linux64" "[]" 6]
  obtain rest tr' where "recv_owned_impl linux64 (loopback linux64) 6 (replicate DEFAULT_STREAM_BUF 0)
      Stream (Exact 1) (pending linux64)
    = Some (Ok \<lparr> rf_data = [9], rf_fds = [7], rf_surplus_closed = 0 \<rparr>, rest, tr')"
    by (auto simp: queue_pending DEFAULT_STREAM_BUF_def stream_recv_fds_exact_def bind_eq_Some_conv)
  then show ?thesis by (simp add: async_stream_recv_fds_exact_def poll_Ok)
qed

theorem async_receive_accounts_witness:
  "\<exists>tr'. async_stream_recv_fds_exact (\<lambda>fd i. poll linux64) linux64 (loopback linux64) 6 1 (pending linux64)
       = Some (Ok \<lparr> rf_data = [9], rf_fds = [7], rf_surplus_closed = 0 \<rparr>, tr')
     \<and> accounted linux64 (pending linux64) [] tr' [7]"
proof -
  obtain tr' where run: "async_stream_recv_fds_exact (\<lambda>fd i. poll linux64) linux64 (loopback linux64) 6 1
      (pending linux64) = Some (Ok \<lparr> rf_data = [9], rf_fds = [7], rf_surplus_closed = 0 \<rparr>, tr')"
    using async_recv_pending by blast
  from async_receive_accounts [where N = 1 and self = 6 and tr = "pending linux64",
      OF linux64_loopback.os_interface_axioms polling.tokio_io_axioms _ _ run]
  have "accounted linux64 (pending linux64) [] tr' [7]" by (simp add: max_payload_def)
  with run show ?thesis by blast
qed

text \<open>
  So do the asynchronous receives into a caller's buffer, those of \<^verbatim>\<open>seqpacket::tokio\<close>
  included.
\<close>
theorem async_receive_into_accounts:
  assumes "os_interface L K" and "tokio_io L aio" and "4 * N \<le> max_payload"
    and "run = async_stream_recv_fds_into aio L K self N buf tr
      \<or> run = async_stream_recv_fds_exact_into aio L K self N buf tr
      \<or> run = async_datagram_recv_fds_into aio L K self N buf tr
      \<or> run = async_datagram_recv_fds_exact_into aio L K self N buf tr
      \<or> run = async_seqpacket_recv_fds_into aio L K self N buf tr
      \<or> run = async_seqpacket_recv_fds_exact_into aio L K self N buf tr"
    and "run = Some (r, buf', tr')"
  shows "accounted L tr [] tr' (fds_of_pair r) \<and> r \<noteq> Panic"
  using assms(4,5) async_into_accounts [OF assms(1,2), of "UpTo N"]
    async_into_accounts [OF assms(1,2), of "Exact N"] assms(3)
  by (elim disjE; simp add: async_stream_recv_fds_into_def async_stream_recv_fds_exact_into_def
      async_datagram_recv_fds_into_def async_datagram_recv_fds_exact_into_def
      async_seqpacket_recv_fds_into_def async_seqpacket_recv_fds_exact_into_def; metis)

theorem async_receive_into_accounts_witness:
  "\<exists>tr'. async_seqpacket_recv_fds_into (\<lambda>fd i. poll linux64) linux64 (loopback linux64) 6 1 [0] (pending linux64)
       = Some (Ok (1, [7]), [9], tr')
     \<and> accounted linux64 (pending linux64) [] tr' [7]"
proof -
  obtain tr' where "recv_core linux64 (loopback linux64) 6 [[0]] Datagram (UpTo 1) (pending linux64)
      = Some (Ok (1, [7], 0), [[9]], tr')"
    using loopback_recv_core by blast
  then have run: "async_seqpacket_recv_fds_into (\<lambda>fd i. poll linux64) linux64 (loopback linux64) 6 1 [0]
      (pending linux64) = Some (Ok (1, [7]), [9], tr')"
    by (simp add: async_seqpacket_recv_fds_into_def poll_Ok recv_fds_into_impl_def
        recv_fds_into_vectored_impl_def)
  from async_receive_into_accounts [where N = 1 and self = 6 and buf = "[0]" and tr = "pending linux64",
      OF linux64_loopback.os_interface_axioms polling.tokio_io_axioms _ _ this]
  have "accounted linux64 (pending linux64) [] tr' [7]" by (simp add: max_payload_def)
  with run show ?thesis by blast
qed

text \<open>
  C15: The asynchronous receives lose nothing, those that return an owned result and those into a
  caller's buffer, of streams, datagrams and \<^verbatim>\<open>seqpacket::tokio\<close>: whatever blocked, failed or was
  retried on the way, every descriptor delivered is in the result or was closed, none twice and
  none too early, and no call panics for fewer than \<open>2 ^ 29\<close> requested descriptors.
\<close>
theorem async_receives_account:
  assumes "os_interface L K" and "tokio_io L aio" and "tokio_io L aio'" and "4 * N \<le> max_payload"
    and "run = async_stream_recv_fds aio L K self N tr \<or> run = async_stream_recv_fds_exact aio L K self N tr
      \<or> run = async_datagram_recv_fds aio L K self N tr \<or> run = async_datagram_recv_fds_exact aio L K self N tr"
    and "into = async_stream_recv_fds_into aio' L K self N buf tr
      \<or> into = async_stream_recv_fds_exact_into aio' L K self N buf tr
      \<or> into = async_datagram_recv_fds_into aio' L K self N buf tr
      \<or> into = async_datagram_recv_fds_exact_into aio' L K self N buf tr
      \<or> into = async_seqpacket_recv_fds_into aio' L K self N buf tr
      \<or> into = async_seqpacket_recv_fds_exact_into aio' L K self N buf tr"
  shows "(run = Some (r, tr') \<longrightarrow> accounted L tr [] tr' (fds_of_received r) \<and> r \<noteq> Panic)
    \<and> (into = Some (q, buf', tr2) \<longrightarrow> accounted L tr [] tr2 (fds_of_pair q) \<and> q \<noteq> Panic)"
  using async_receive_accounts [OF assms(1,2,4,5), of r tr']
    async_receive_into_accounts [OF assms(1,3,4,6), of q buf' tr2]
  by blast

theorem async_receives_account_witness:
  "\<exists>tr'. async_stream_recv_fds_exact (\<lambda>fd i. poll linux64) linux64 (loopback linux64) 6 1 (pending linux64)
       = Some (Ok \<lparr> rf_data = [9], rf_fds = [7], rf_surplus_closed = 0 \<rparr>, tr')
     \<and> accounted linux64 (pending linux64) [] tr' [7]"
proof -
  obtain tr' where run: "async_stream_recv_fds_exact (\<lambda>fd i. poll linux64) linux64 (loopback linux64) 6 1
      (pending linux64) = Some (Ok \<lparr> rf_data = [9], rf_fds = [7], rf_surplus_closed = 0 \<rparr>, tr')"
    using async_recv_pending by blast
  from async_receives_account [where N = 1 and self = 6 and tr = "pending linux64" and buf = "[]",
      OF linux64_loopback.os_interface_axioms polling.tokio_io_axioms polling.tokio_io_axioms _
      disjI2 [OF disjI1 [OF refl]] disjI1 [OF refl], THEN conjunct1, rule_format, OF _ run] run show ?thesis
    by (auto simp: max_payload_def)
qed

section \<open>Messages are taken once\<close>

text \<open>What an owning receive returns for the one message it took.\<close>

definition owned_policy ::
  "libc \<Rightarrow> socket_kind \<Rightarrow> count_mode \<Rightarrow> recv_reply \<Rightarrow> (io_error, received_fds) result" where
  "owned_policy L kind mode reply =
     and_then (recv_policy L kind mode reply) (\<lambda>(n, fds, surplus).
       Ok \<lparr> rf_data = rr_data reply, rf_fds = fds, rf_surplus_closed = surplus \<rparr>)"

lemma policy_never_blocks: "\<not> would_block L (owned_policy L kind mode reply)"
  by (auto simp: would_block_def owned_policy_def recv_policy_def Let_def split: count_mode.split)

text \<open>An attempt that blocks leaves everything as it was.\<close>

definition undisturbed :: "libc \<Rightarrow> byte list \<times> trace \<Rightarrow> byte list \<times> trace \<Rightarrow> bool" where
  "undisturbed L s s1 \<longleftrightarrow> fst s1 = fst s \<and> accounted L (snd s) [] (snd s1) []
     \<and> (\<exists>ev. snd s1 = snd s @ ev \<and> replies ev = [])"

lemma undisturbed_refl: "undisturbed L s s"
  by (simp add: undisturbed_def)

lemma undisturbed_trans: "undisturbed L s1 s2 \<Longrightarrow> undisturbed L s2 s3 \<Longrightarrow> undisturbed L s1 s3"
  unfolding undisturbed_def using accounted_trans by fastforce

context os_interface begin

lemma recv_owned_outcome:
  assumes run: "recv_owned_impl L K fd buf kind mode tr = Some (r, rest, tr')"
    and native: "cfg_cloexec L" and small: "4 * mode_count mode \<le> max_payload"
  shows "\<exists>ev. tr' = tr @ ev \<and> ((\<exists>e. r = Err e) \<and> rest = buf \<and> replies ev = []
    \<or> (\<exists>reply. replies ev = [reply] \<and> r = owned_policy L kind mode reply))"
proof -
  from run obtain ret iov1 tr1 where c: "recv_core L K fd [buf] kind mode tr = Some (ret, iov1, tr1)"
    by (auto simp: recv_owned_impl_def bind_eq_Some_conv)
  then have tr: "tr' = tr1" using run by (cases ret) (auto simp: recv_owned_impl_def Let_def)
  from recv_core_policy [OF c native small] consider
    (err) e ev where "ret = Err e" "iov1 = [buf]" "tr1 = tr @ ev" "replies ev = []"
  | (reply) ev reply where "tr1 = tr @ ev" "replies ev = [reply]" "ret = recv_policy L kind mode reply"
      "iov1 = scatter [buf] (rr_data reply)"
    by fastforce
  then show ?thesis
  proof cases
    case err
    with run c have "r = Err e" "rest = buf" by (simp_all add: recv_owned_impl_def)
    with err tr show ?thesis by blast
  next
    case reply
    have "r = owned_policy L kind mode reply"
    proof (cases ret)
      case (Ok x)
      obtain n fds surplus where x: "x = (n, fds, surplus)" by (cases x)
      with Ok c have c': "recv_core L K fd [buf] kind mode tr = Some (Ok (n, fds, surplus), iov1, tr1)" by simp
      have "n = length (rr_data reply)" using recv_policy_Ok reply(3) Ok x by metis
      moreover have "n \<le> length buf" using recv_core_Ok [OF c'] by simp
      ultimately have "take n (concat iov1) = rr_data reply" using reply(4) by (simp add: take_overwrite)
      moreover have "recv_policy L kind mode reply = Ok (n, fds, surplus)" using reply(3) Ok x by simp
      ultimately show ?thesis using run c' by (simp add: recv_owned_impl_def owned_policy_def Let_def)
    qed (use run c reply(3) in \<open>auto simp: recv_owned_impl_def owned_policy_def\<close>)
    with reply tr show ?thesis by blast
  qed
qed

lemma blocked_undisturbed:
  assumes run: "(\<lambda>(data_buf, tr). recv_owned_impl L K fd data_buf kind mode tr) s = Some (r, s1)"
    and block: "would_block L r"
    and native: "cfg_cloexec L" and small: "4 * mode_count mode \<le> max_payload"
  shows "undisturbed L s s1"
proof -
  obtain buf tr buf1 tr1 where s: "s = (buf, tr)" "s1 = (buf1, tr1)" by (cases s, cases s1)
  with run have o: "recv_owned_impl L K fd buf kind mode tr = Some (r, buf1, tr1)" by simp
  from would_block_Err [OF block] obtain e where "r = Err e" by blast
  with recv_owned_accounts [OF o small] have "accounted L tr [] tr1 []" by simp
  with recv_owned_outcome [OF o native small] policy_never_blocks block s show ?thesis
    by (auto simp: undisturbed_def)
qed

lemma attempts_undisturbed:
  assumes "attempts L (\<lambda>(data_buf, tr). recv_owned_impl L K fd data_buf kind mode tr) s s1"
    and "cfg_cloexec L" and "4 * mode_count mode \<le> max_payload"
  shows "undisturbed L s s1"
  using assms(1)
proof (induction rule: attempts.induct)
  case (blocked s r s1 s2)
  from undisturbed_trans [OF blocked_undisturbed [OF blocked.hyps(1,2) assms(2,3)] blocked.IH] show ?case .
qed (rule undisturbed_refl)

lemma async_owned_outcome:
  assumes io: "tokio_io L aio" and native: "cfg_cloexec L" and small: "4 * mode_count mode \<le> max_payload"
    and run: "aio self i (\<lambda>(data_buf, tr). recv_owned_impl L K self data_buf kind mode tr) (buf, tr)
      = Some (r, rest, tr')"
  shows "\<exists>ev. tr' = tr @ ev \<and> ((\<exists>e. r = Err e) \<and> replies ev = []
    \<or> (\<exists>reply. replies ev = [reply] \<and> r = owned_policy L kind mode reply))"
proof -
  from tokio_io.contract [OF io run] obtain s1 where
    a: "attempts L (\<lambda>(data_buf, tr). recv_owned_impl L K self data_buf kind mode tr) (buf, tr) s1"
    and o: "(\<lambda>(data_buf, tr). recv_owned_impl L K self data_buf kind mode tr) s1 = Some (r, rest, tr')
      \<or> (\<exists>e. r = Err e) \<and> (rest, tr') = s1"
    by blast
  from attempts_undisturbed [OF a native small] obtain ev where
    s1: "s1 = (buf, tr @ ev)" "replies ev = []"
    by (cases s1) (auto simp: undisturbed_def)
  from o show ?thesis
  proof
    assume "(\<lambda>(data_buf, tr). recv_owned_impl L K self data_buf kind mode tr) s1 = Some (r, rest, tr')"
    then have "recv_owned_impl L K self buf kind mode (tr @ ev) = Some (r, rest, tr')" using s1 by simp
    from recv_owned_outcome [OF this native small] obtain ev' where
      "tr' = (tr @ ev) @ ev'" "(\<exists>e. r = Err e) \<and> replies ev' = []
        \<or> (\<exists>reply. replies ev' = [reply] \<and> r = owned_policy L kind mode reply)"
      by blast
    with s1(2) show ?thesis by (intro exI [of _ "ev @ ev'"]) simp
  next
    assume "(\<exists>e. r = Err e) \<and> (rest, tr') = s1"
    with s1 show ?thesis by auto
  qed
qed

end

text \<open>
  C12: On systems with \<^verbatim>\<open>MSG_CMSG_CLOEXEC\<close>, where close-on-exec needs no further system call, the
  asynchronous owned receives (of up to \<open>i32::MAX / 4\<close> descriptors) implement the policy of
  the blocking ones: such a receive either takes no message and reports an error, or, after any
  number of attempts that blocked, takes exactly one message and its result is the policy's
  answer to it. A retry neither takes a second message nor sees stale data.
\<close>
theorem async_receive_implements_policy:
  assumes "os_interface L K" and "tokio_io L aio" and "cfg_cloexec L" and "4 * N \<le> max_payload"
    and "run = async_stream_recv_fds aio L K self N tr \<and> kind = Stream \<and> mode = UpTo N
      \<or> run = async_stream_recv_fds_exact aio L K self N tr \<and> kind = Stream \<and> mode = Exact N
      \<or> run = async_datagram_recv_fds aio L K self N tr \<and> kind = Datagram \<and> mode = UpTo N
      \<or> run = async_datagram_recv_fds_exact aio L K self N tr \<and> kind = Datagram \<and> mode = Exact N"
    and "run = Some (r, tr')"
  shows "\<exists>ev. tr' = tr @ ev \<and> ((\<exists>e. r = Err e) \<and> replies ev = []
    \<or> (\<exists>reply. replies ev = [reply] \<and> r = owned_policy L kind mode reply))"
  using assms(5,6) os_interface.async_owned_outcome [OF assms(1,2,3), of "UpTo N"]
    os_interface.async_owned_outcome [OF assms(1,2,3), of "Exact N"] assms(4)
  by (elim disjE; simp add: async_stream_recv_fds_def async_stream_recv_fds_exact_def
      async_datagram_recv_fds_def async_datagram_recv_fds_exact_def bind_eq_Some_conv; blast)

theorem async_receive_implements_policy_witness:
  "\<exists>tr' reply. async_stream_recv_fds_exact (\<lambda>fd i. poll linux64) linux64 (loopback linux64) 6 1 (pending linux64)
       = Some (Ok \<lparr> rf_data = [9], rf_fds = [7], rf_surplus_closed = 0 \<rparr>, tr')
     \<and> owned_policy linux64 Stream (Exact 1) reply = Ok \<lparr> rf_data = [9], rf_fds = [7], rf_surplus_closed = 0 \<rparr>"
proof -
  obtain tr' where run: "async_stream_recv_fds_exact (\<lambda>fd i. poll linux64) linux64 (loopback linux64) 6 1
      (pending linux64) = Some (Ok \<lparr> rf_data = [9], rf_fds = [7], rf_surplus_closed = 0 \<rparr>, tr')"
    using async_recv_pending by blast
  from async_receive_implements_policy [where N = 1 and self = 6 and tr = "pending linux64"
      and kind = Stream and mode = "Exact 1",
      OF linux64_loopback.os_interface_axioms polling.tokio_io_axioms _ _ _ run]
  obtain reply where "Ok \<lparr> rf_data = [9], rf_fds = [7], rf_surplus_closed = 0 \<rparr>
      = owned_policy linux64 Stream (Exact 1) reply"
    by (auto simp: max_payload_def)
  with run show ?thesis by auto
qed

text \<open>
  C16: On systems with \<^verbatim>\<open>MSG_CMSG_CLOEXEC\<close>, where close-on-exec needs no further system call, dropping
  the future of an asynchronous owned receive is safe: wherever it is suspended, after
  any number of attempts that blocked, it has taken no message from the socket, owns no
  descriptor, has closed none it did not receive and has not touched its buffer.
\<close>
theorem cancelled_receive_safe:
  assumes "os_interface L K" and "cfg_cloexec L" and "4 * mode_count mode \<le> max_payload"
    and "attempts L (\<lambda>(data_buf, tr). recv_owned_impl L K self data_buf kind mode tr) (buf, tr) (buf1, tr1)"
  shows "buf1 = buf \<and> accounted L tr [] tr1 [] \<and> (\<exists>ev. tr1 = tr @ ev \<and> replies ev = [])"
  using os_interface.attempts_undisturbed [OF assms(1,4,2,3)]
  by (simp add: undisturbed_def)

lemma loopback_empty_receive:
  "\<exists>tr'. recv_owned_impl linux64 (loopback linux64) 6 [0] Stream (UpTo 1) [] = Some (Err (Os 11), [0], tr')"
proof -
  have "control_size linux64 253 = Ok 1064"
    by (simp add: control_size_def buffer_size_for_rights_eq max_payload_def
        buffer_size_for_credentials_def cmsg_space_eq ucred_SIZE_def checked_add_def)
      (simp add: linux64_def aligned_space_def align_up_def)
  moreover have "recv_loop linux64 (loopback linux64) 6 (recv_header linux64 [[0]] (replicate 1064 0)) 0 []
      = Some (Err (Os 11), [SysRecvmsg 6 (recv_header linux64 [[0]] (replicate 1064 0))
          (RECV_FLAGS linux64 OR 0) (Inl 11)])"
    by (subst recv_loop.simps) (simp add: recvmsg_def queue_def Let_def)
  ultimately show ?thesis
    by (simp add: recv_owned_impl_def recv_core_def max_recv_fds_def with_control_eq recv_fds_def recvmsg_raw_def)
qed

theorem cancelled_receive_safe_witness:
  "\<exists>tr1. attempts linux64 (\<lambda>(data_buf, tr). recv_owned_impl linux64 (loopback linux64) 6 data_buf Stream (UpTo 1) tr)
       ([0], []) ([0], tr1)
     \<and> replies tr1 = [] \<and> accounted linux64 [] [] tr1 []"
proof -
  obtain tr1 where o: "recv_owned_impl linux64 (loopback linux64) 6 [0] Stream (UpTo 1) []
      = Some (Err (Os 11), [0], tr1)"
    using loopback_empty_receive by blast
  have "attempts linux64 (\<lambda>(data_buf, tr). recv_owned_impl linux64 (loopback linux64) 6 data_buf Stream (UpTo 1) tr)
      ([0], []) ([0], tr1)"
    by (rule blocked [of _ _ "Err (Os 11)" "([0], tr1)"])
      (use o in \<open>simp_all add: would_block_def no_attempt\<close>)
  with cancelled_receive_safe [OF linux64_loopback.os_interface_axioms _ _ this] show ?thesis
    by (auto simp: max_payload_def)
qed

section \<open>Sending\<close>

text \<open>A retried send still sends once: the calls that blocked handed the kernel nothing.\<close>

lemma async_sends:
  assumes io: "tokio_io L aio" and run: "aio fd i op tr = Some (r, tr')"
    and op: "\<And>tr r tr'. op tr = Some (r, tr') \<Longrightarrow> sends L d c tr r tr'"
  shows "sends L d c tr r tr'"
proof -
  let ?R = "\<lambda>tr tr1. \<exists>ev. tr1 = tr @ ev \<and> neutral L ev \<and> sent ev = []"
  have refl: "?R tr tr" for tr by simp
  have step: "?R s s1" if o: "op s = Some (r, s1)" and w: "would_block L r" for s r s1
    using op [OF o] would_block_Err [OF w] by (auto simp: sends_def)
  have trans: "?R s1 s3" if "?R s1 s2" "?R s2 s3" for s1 s2 s3
    using that by fastforce
  have "\<exists>s1. ?R tr s1 \<and> (op s1 = Some (r, tr') \<or> (\<exists>e. r = Err e) \<and> tr' = s1)"
    by (rule tokio_io.run_induct [OF io run, of ?R, OF refl step trans])
  then obtain ev where ev: "neutral L ev" "sent ev = []"
    "op (tr @ ev) = Some (r, tr') \<or> (\<exists>e. r = Err e) \<and> tr' = tr @ ev" by blast
  from ev(3) show ?thesis
  proof
    assume "op (tr @ ev) = Some (r, tr')"
    from op [OF this] obtain ev' where "tr' = (tr @ ev) @ ev'" "neutral L ev'" "r \<noteq> Panic"
      "\<forall>n. r = Ok n \<longrightarrow> n \<le> length d" "sent ev' = (case r of Ok n \<Rightarrow> [(take n d, c)] | _ \<Rightarrow> [])"
      unfolding sends_def by blast
    with ev(1,2) show ?thesis unfolding sends_def by (intro exI [of _ "ev @ ev'"]) simp
  next
    assume "(\<exists>e. r = Err e) \<and> tr' = tr @ ev"
    with ev(1,2) show ?thesis unfolding sends_def by auto
  qed
qed

lemma async_send_rest_completion:
  assumes os: "os_interface L K" and io: "tokio_io L aio"
  shows "completion_loop L data
    (\<lambda>pos. aio self Writable (\<lambda>tr. case slice data pos (length data) of
        Err e \<Rightarrow> Some (Err e, tr) | Panic \<Rightarrow> Some (Panic, tr)
      | Ok rest \<Rightarrow> send_bytes L K self rest tr))
    (async_send_rest aio L K self data)"
proof
  fix pos tr r tr'
  assume pos: "pos < length data"
    and run: "aio self Writable (\<lambda>tr. case slice data pos (length data) of
        Err e \<Rightarrow> Some (Err e, tr) | Panic \<Rightarrow> Some (Panic, tr)
      | Ok rest \<Rightarrow> send_bytes L K self rest tr) tr = Some (r, tr')"
  show "sends L (drop pos data) [] tr r tr'"
    by (rule async_sends [OF io run])
      (use pos in \<open>auto simp: slice_def intro: os_interface.send_bytes_sends [OF os]\<close>)
qed (subst async_send_rest.simps, simp)+

lemma async_send_fds_all_attached:
  assumes os: "os_interface L K" and io: "tokio_io L aio" and small: "4 * length fds \<le> max_payload"
  shows "attached_send L data
    (\<lambda>pos. aio self Writable (\<lambda>tr. case slice data pos (length data) of
        Err e \<Rightarrow> Some (Err e, tr) | Panic \<Rightarrow> Some (Panic, tr)
      | Ok rest \<Rightarrow> send_bytes L K self rest tr))
    (async_send_rest aio L K self data) fds
    (aio self Writable (\<lambda>tr. send_fds_impl L K self data fds tr))
    (async_stream_send_fds_all aio L K self data fds)"
proof (rule attached_send.intro [OF async_send_rest_completion [OF os io] attached_send_axioms.intro])
  fix tr r tr'
  assume run: "aio self Writable (\<lambda>tr. send_fds_impl L K self data fds tr) tr = Some (r, tr')"
  show "sends L data (fds_control L fds) tr r tr'"
    by (rule async_sends [OF io run]) (rule os_interface.send_fds_sends [OF os small])
qed (auto simp: async_stream_send_fds_all_def validate_stream_send_def)

interpretation polled_one: attached_send linux64 data
  "\<lambda>pos. poll linux64 (\<lambda>tr. case slice data pos (length data) of
      Err e \<Rightarrow> Some (Err e, tr) | Panic \<Rightarrow> Some (Panic, tr)
    | Ok rest \<Rightarrow> send_bytes linux64 (loopback linux64) self rest tr)"
  "async_send_rest (\<lambda>fd i. poll linux64) linux64 (loopback linux64) self data" "[x]"
  "poll linux64 (\<lambda>tr. send_fds_impl linux64 (loopback linux64) self data [x] tr)"
  "async_stream_send_fds_all (\<lambda>fd i. poll linux64) linux64 (loopback linux64) self data [x]" for self data x
  by (rule async_send_fds_all_attached [OF linux64_loopback.os_interface_axioms polling.tokio_io_axioms])
    (simp add: max_payload_def)

text \<open>
  C14: The asynchronous \<^verbatim>\<open>send_fds_all\<close> keeps the guarantee of the blocking one although its sends
  are retried after blocking: what went out is a prefix of the data, all of it on success, and
  the descriptors went out at most once, with the first message.
\<close>
theorem async_send_fds_all_complete:
  assumes "os_interface L K" and "tokio_io L aio"
    and "4 * length fds \<le> max_payload" and "length data < 2 ^ usize_bits L"
    and "async_stream_send_fds_all aio L K self data fds tr = Some (r, tr')"
  shows "\<exists>ev k. tr' = tr @ ev \<and> closed ev = [] \<and> payload ev = take k data \<and> r \<noteq> Panic
    \<and> (r = Ok () \<longrightarrow> payload ev = data)
    \<and> (controls ev = [] \<or> (\<exists>rest. controls ev = fds_control L fds # rest \<and> set rest \<subseteq> {[]}))"
  using attached_send.whole_transfers [OF async_send_fds_all_attached [OF assms(1-3)] assms(5,4)]
  unfolding transfers_def neutral_def by blast

theorem async_send_fds_all_complete_witness:
  "\<exists>tr'. async_stream_send_fds_all (\<lambda>fd i. poll linux64) linux64 (loopback linux64) 3 [9] [7] []
       = Some (Ok (), tr')
     \<and> payload tr' = [9] \<and> (\<exists>rest. controls tr' = fds_control linux64 [7] # rest)"
proof -
  have "send_fds_impl linux64 (loopback linux64) 3 [9] [7] [] = Some (Ok 1, sent_once linux64 3 [9] [7])"
    using loopback_send_impl [OF linux64.libc_abi_axioms _, of "[7]" 3 "[9]"] by (simp add: max_payload_def)
  then have run: "async_stream_send_fds_all (\<lambda>fd i. poll linux64) linux64 (loopback linux64) 3 [9] [7] []
      = Some (Ok (), sent_once linux64 3 [9] [7])"
    by (simp add: async_stream_send_fds_all_def validate_stream_send_def poll.simps would_block_def
        async_send_rest.simps)
  from async_send_fds_all_complete [OF linux64_loopback.os_interface_axioms polling.tokio_io_axioms _ _ run]
  have "payload (sent_once linux64 3 [9] [7]) = [9]"
    "controls (sent_once linux64 3 [9] [7]) = [] \<or>
      (\<exists>rest. controls (sent_once linux64 3 [9] [7]) = fds_control linux64 [7] # rest)"
    by (auto simp: max_payload_def)
  with run show ?thesis by (auto simp: payload_def controls_def)
qed

end
