(* ===== verification/Traits.thy ===== *)
theory Traits
  imports Async_Props Streams
begin

text \<open>
  The extension traits of \<^verbatim>\<open>src/ext.rs\<close> and \<^verbatim>\<open>src/asyncio.rs\<close>: a trait is the record of its methods, each
  with the socket \<^verbatim>\<open>self\<close>, the type parameter \<open>N\<close> and the trace as arguments; an \<^verbatim>\<open>impl\<close> is a value of it. The
  asynchronous traits promise the semantics of the blocking ones: that is \<open>same_unless_blocked\<close> for
  each method, on a runtime that calls a closure once when it does not block.
\<close>

section \<open>The traits\<close>

type_synonym send_method =
  "raw_fd \<Rightarrow> byte list \<Rightarrow> raw_fd list \<Rightarrow> trace \<Rightarrow> ((io_error, usize) result \<times> trace) option"

type_synonym send_all_method =
  "raw_fd \<Rightarrow> byte list \<Rightarrow> raw_fd list \<Rightarrow> trace \<Rightarrow> ((io_error, unit) result \<times> trace) option"

type_synonym send_vectored_method =
  "raw_fd \<Rightarrow> byte list list \<Rightarrow> raw_fd list \<Rightarrow> trace \<Rightarrow> ((io_error, usize) result \<times> trace) option"

type_synonym recv_method =
  "raw_fd \<Rightarrow> usize \<Rightarrow> trace \<Rightarrow> ((io_error, received_fds) result \<times> trace) option"

type_synonym recv_into_method =
  "raw_fd \<Rightarrow> usize \<Rightarrow> byte list \<Rightarrow> trace
     \<Rightarrow> ((io_error, usize \<times> raw_fd list) result \<times> byte list \<times> trace) option"

type_synonym recv_vectored_method =
  "raw_fd \<Rightarrow> usize \<Rightarrow> byte list list \<Rightarrow> trace
     \<Rightarrow> ((io_error, usize \<times> raw_fd list) result \<times> byte list list \<times> trace) option"

record unix_stream_ext =
  us_send_fds :: send_method
  us_send_fds_all :: send_all_method
  us_send_fds_vectored :: send_vectored_method
  us_recv_fds_vectored :: recv_vectored_method
  us_recv_fds :: recv_method
  us_recv_fds_into :: recv_into_method
  us_recv_fds_exact :: recv_method
  us_recv_fds_exact_into :: recv_into_method

record unix_datagram_ext =
  ud_send_fds :: send_method
  ud_send_fds_vectored :: send_vectored_method
  ud_recv_fds_vectored :: recv_vectored_method
  ud_recv_fds :: recv_method
  ud_recv_fds_into :: recv_into_method
  ud_recv_fds_exact :: recv_method
  ud_recv_fds_exact_into :: recv_into_method

record async_unix_stream_ext =
  as_send_fds :: send_method
  as_send_fds_vectored :: send_vectored_method
  as_recv_fds_vectored :: recv_vectored_method
  as_send_fds_all :: send_all_method
  as_recv_fds :: recv_method
  as_recv_fds_into :: recv_into_method
  as_recv_fds_exact :: recv_method
  as_recv_fds_exact_into :: recv_into_method

record async_unix_datagram_ext =
  ad_send_fds :: send_method
  ad_recv_fds :: recv_method
  ad_recv_fds_into :: recv_into_method
  ad_recv_fds_exact :: recv_method
  ad_recv_fds_exact_into :: recv_into_method

section \<open>Their implementations\<close>

definition unix_stream_impl :: "libc \<Rightarrow> kernel \<Rightarrow> unix_stream_ext" where
  "unix_stream_impl L K = \<lparr>
     us_send_fds = stream_send_fds L K,
     us_send_fds_all = stream_send_fds_all L K,
     us_send_fds_vectored = stream_send_fds_vectored L K,
     us_recv_fds_vectored = stream_recv_fds_vectored L K,
     us_recv_fds = stream_recv_fds L K,
     us_recv_fds_into = stream_recv_fds_into L K,
     us_recv_fds_exact = stream_recv_fds_exact L K,
     us_recv_fds_exact_into = stream_recv_fds_exact_into L K \<rparr>"

definition unix_datagram_impl :: "libc \<Rightarrow> kernel \<Rightarrow> unix_datagram_ext" where
  "unix_datagram_impl L K = \<lparr>
     ud_send_fds = datagram_send_fds L K,
     ud_send_fds_vectored = datagram_send_fds_vectored L K,
     ud_recv_fds_vectored = datagram_recv_fds_vectored L K,
     ud_recv_fds = datagram_recv_fds L K,
     ud_recv_fds_into = datagram_recv_fds_into L K,
     ud_recv_fds_exact = datagram_recv_fds_exact L K,
     ud_recv_fds_exact_into = datagram_recv_fds_exact_into L K \<rparr>"

text \<open>The one runtime at the four types of closures it drives.\<close>

record runtime =
  send_io :: "(usize, trace) async_io"
  owned_io :: "(received_fds, byte list \<times> trace) async_io"
  into_io :: "(usize \<times> raw_fd list, byte list \<times> trace) async_io"
  vectored_io :: "(usize \<times> raw_fd list, byte list list \<times> trace) async_io"

definition async_unix_stream_impl :: "runtime \<Rightarrow> libc \<Rightarrow> kernel \<Rightarrow> async_unix_stream_ext" where
  "async_unix_stream_impl A L K = \<lparr>
     as_send_fds = async_stream_send_fds (send_io A) L K,
     as_send_fds_vectored = async_stream_send_fds_vectored (send_io A) L K,
     as_recv_fds_vectored = async_stream_recv_fds_vectored (vectored_io A) L K,
     as_send_fds_all = async_stream_send_fds_all (send_io A) L K,
     as_recv_fds = async_stream_recv_fds (owned_io A) L K,
     as_recv_fds_into = async_stream_recv_fds_into (into_io A) L K,
     as_recv_fds_exact = async_stream_recv_fds_exact (owned_io A) L K,
     as_recv_fds_exact_into = async_stream_recv_fds_exact_into (into_io A) L K \<rparr>"

definition async_unix_datagram_impl :: "runtime \<Rightarrow> libc \<Rightarrow> kernel \<Rightarrow> async_unix_datagram_ext" where
  "async_unix_datagram_impl A L K = \<lparr>
     ad_send_fds = async_datagram_send_fds (send_io A) L K,
     ad_recv_fds = async_datagram_recv_fds (owned_io A) L K,
     ad_recv_fds_into = async_datagram_recv_fds_into (into_io A) L K,
     ad_recv_fds_exact = async_datagram_recv_fds_exact (owned_io A) L K,
     ad_recv_fds_exact_into = async_datagram_recv_fds_exact_into (into_io A) L K \<rparr>"

section \<open>The asynchronous methods do what the blocking ones do\<close>

definition same_unless_blocked ::
  "libc \<Rightarrow> ((io_error, 'r) result \<times> 's) option \<Rightarrow> ((io_error, 'r) result \<times> 's) option \<Rightarrow> bool" where
  "same_unless_blocked L blocking async \<longleftrightarrow>
     (\<forall>r s. blocking = Some (r, s) \<longrightarrow> \<not> would_block L r \<longrightarrow> async = Some (r, s))"

text \<open>A runtime that returns the result of the first call of a closure when that does not block.\<close>

definition prompt :: "libc \<Rightarrow> ('r, 's) async_io \<Rightarrow> bool" where
  "prompt L aio \<longleftrightarrow> (\<forall>fd i op s. same_unless_blocked L (op s) (aio fd i op s))"

definition prompt_runtime :: "libc \<Rightarrow> runtime \<Rightarrow> bool" where
  "prompt_runtime L A \<longleftrightarrow> prompt L (send_io A) \<and> prompt L (owned_io A) \<and> prompt L (into_io A)
     \<and> prompt L (vectored_io A)"

lemma sameI:
  "(\<And>r s. blocking = Some (r, s) \<Longrightarrow> \<not> would_block L r \<Longrightarrow> async = Some (r, s)) \<Longrightarrow>
     same_unless_blocked L blocking async"
  by (simp add: same_unless_blocked_def)

lemma sameD:
  "same_unless_blocked L blocking async \<Longrightarrow> blocking = Some (r, s) \<Longrightarrow> \<not> would_block L r \<Longrightarrow> async = Some (r, s)"
  by (simp add: same_unless_blocked_def)

lemma same_refl [simp]: "same_unless_blocked L x x"
  by (simp add: same_unless_blocked_def)

lemma promptD: "prompt L aio \<Longrightarrow> same_unless_blocked L (op s) (aio fd i op s)"
  by (simp add: prompt_def)

text \<open>What is made of an answer keeps the sameness, provided an error is passed on.\<close>

lemma same_bind:
  assumes same: "same_unless_blocked L b a"
    and blocked: "\<And>e s. kind_of L e = WouldBlock \<Longrightarrow> \<exists>r s'. f (Err e, s) = Some (r, s') \<and> would_block L r"
    and step: "\<And>x. same_unless_blocked L (f x) (g x)"
  shows "same_unless_blocked L (Option.bind b f) (Option.bind a g)"
proof (rule sameI)
  fix r s
  assume run: "Option.bind b f = Some (r, s)" and r: "\<not> would_block L r"
  then obtain r1 s1 where b: "b = Some (r1, s1)" and f: "f (r1, s1) = Some (r, s)"
    by (auto simp: bind_eq_Some_conv)
  have "\<not> would_block L r1"
  proof
    assume "would_block L r1"
    then obtain e where "r1 = Err e" "kind_of L e = WouldBlock" by (cases r1) (simp_all add: would_block_def)
    with blocked [of e s1] f r show False by auto
  qed
  from sameD [OF same b this] sameD [OF step f r] show "Option.bind a g = Some (r, s)" by simp
qed

lemma same_send_rest:
  assumes "prompt L aio"
  shows "same_unless_blocked L (send_rest L K self data pos tr) (async_send_rest aio L K self data pos tr)"
proof (rule sameI)
  fix r s
  let ?P = "\<lambda>L K self data pos tr x. prompt L aio \<longrightarrow> \<not> would_block L (fst x) \<longrightarrow>
    async_send_rest aio L K self data pos tr = Some x"
  assume run: "send_rest L K self data pos tr = Some (r, s)" and r: "\<not> would_block L r"
  have "?P L K self data pos tr (r, s)"
  proof (rule send_rest.raw_induct [of ?P, OF _ run], intro impI, goal_cases)
    case (1 rec L K self data pos tr x)
    show ?case
    proof (cases "pos < length data")
      case False
      with 1(2) show ?thesis by (subst async_send_rest.simps) simp
    next
      case True
      let ?send = "\<lambda>tr. send_bytes L K self (drop pos data) tr"
      have sl: "slice data pos (length data) = (Ok (drop pos data) :: (io_error, byte list) result)"
        using True by (simp add: slice_def)
      from 1(2) True sl obtain ret tr1 where s: "?send tr = Some (ret, tr1)"
        by (auto simp: bind_eq_Some_conv)
      have IH: "\<And>pos tr x. rec L K self data pos tr = Some x \<Longrightarrow> \<not> would_block L (fst x) \<Longrightarrow>
          async_send_rest aio L K self data pos tr = Some x" using 1(1,3) by blast
      have "\<not> would_block L ret" using 1(2,4) True sl s by (cases ret) (auto simp: would_block_def)
      from sameD [OF promptD [OF 1(3), of ?send tr self Writable] s this]
      have "aio self Writable ?send tr = Some (ret, tr1)" .
      then show ?thesis using 1(2,4) True sl s
        by (subst async_send_rest.simps) (auto split: result.splits option.splits if_splits intro: IH)
    qed
  qed
  with assms r show "async_send_rest aio L K self data pos tr = Some (r, s)" by simp
qed

lemma same_send_fds_all:
  assumes io: "prompt L aio"
  shows "same_unless_blocked L (stream_send_fds_all L K fd data fds tr) (async_stream_send_fds_all aio L K fd data fds tr)"
proof -
  let ?first = "\<lambda>rest (ret, tr). (case ret of Err e \<Rightarrow> Some (Err e, tr) | Panic \<Rightarrow> Some (Panic, tr)
    | Ok first \<Rightarrow> if first = 0
        then Some (Err (Custom WriteZero (Text ''failed to send fd payload byte'')), tr)
        else rest first tr) :: ((io_error, unit) result \<times> trace) option"
  have "same_unless_blocked L (Option.bind (send_fds_impl L K fd data fds tr) (?first (send_rest L K fd data)))
      (Option.bind (aio fd Writable (\<lambda>tr. send_fds_impl L K fd data fds tr) tr) (?first (async_send_rest aio L K fd data)))"
  proof (rule same_bind [OF promptD [OF io]])
    show "\<exists>r s'. ?first (send_rest L K fd data) (Err e, s) = Some (r, s') \<and> would_block L r"
      if "kind_of L e = WouldBlock" for e s using that by (simp add: would_block_def)
    show "same_unless_blocked L (?first (send_rest L K fd data) x) (?first (async_send_rest aio L K fd data) x)" for x
      by (cases x; cases "fst x") (auto simp: same_send_rest [OF io])
  qed
  then show ?thesis
    using same_send_rest [OF io, of K fd data 0 tr]
    by (cases "validate_stream_send data (length fds)")
      (simp_all add: stream_send_fds_all_def async_stream_send_fds_all_def)
qed

lemma same_owned:
  assumes "prompt L aio"
  shows "same_unless_blocked L
    (do { (ret, _, tr) \<leftarrow> recv_owned_impl L K fd buf kind mode tr; Some (ret, tr) })
    (do { (ret, _, tr) \<leftarrow> aio fd Readable (\<lambda>(buf, tr). recv_owned_impl L K fd buf kind mode tr) (buf, tr); Some (ret, tr) })"
  by (rule same_bind)
    (use promptD [OF assms, of "\<lambda>(buf, tr). recv_owned_impl L K fd buf kind mode tr" "(buf, tr)" fd Readable]
      in \<open>auto simp: would_block_def\<close>)

lemma same_into:
  assumes "prompt L aio"
  shows "same_unless_blocked L (recv_fds_into_impl L K fd buf kind mode tr)
    (aio fd Readable (\<lambda>(buf, tr). recv_fds_into_impl L K fd buf kind mode tr) (buf, tr))"
  using promptD [OF assms, of "\<lambda>(buf, tr). recv_fds_into_impl L K fd buf kind mode tr" "(buf, tr)" fd Readable] by simp

lemma same_vectored:
  assumes "prompt L aio"
  shows "same_unless_blocked L (recv_fds_into_vectored_impl L K fd iov kind mode tr)
    (aio fd Readable (\<lambda>(iov, tr). recv_fds_into_vectored_impl L K fd iov kind mode tr) (iov, tr))"
  using promptD [OF assms, of "\<lambda>(iov, tr). recv_fds_into_vectored_impl L K fd iov kind mode tr" "(iov, tr)" fd Readable]
  by simp

lemma same_receives:
  assumes "prompt_runtime L A"
  shows "same_unless_blocked L (stream_recv_fds_vectored L K fd N iov tr) (async_stream_recv_fds_vectored (vectored_io A) L K fd N iov tr)"
    and "same_unless_blocked L (stream_recv_fds L K fd N tr) (async_stream_recv_fds (owned_io A) L K fd N tr)"
    and "same_unless_blocked L (stream_recv_fds_into L K fd N buf tr) (async_stream_recv_fds_into (into_io A) L K fd N buf tr)"
    and "same_unless_blocked L (stream_recv_fds_exact L K fd N tr) (async_stream_recv_fds_exact (owned_io A) L K fd N tr)"
    and "same_unless_blocked L (stream_recv_fds_exact_into L K fd N buf tr) (async_stream_recv_fds_exact_into (into_io A) L K fd N buf tr)"
    and "same_unless_blocked L (datagram_recv_fds L K fd N tr) (async_datagram_recv_fds (owned_io A) L K fd N tr)"
    and "same_unless_blocked L (datagram_recv_fds_into L K fd N buf tr) (async_datagram_recv_fds_into (into_io A) L K fd N buf tr)"
    and "same_unless_blocked L (datagram_recv_fds_exact L K fd N tr) (async_datagram_recv_fds_exact (owned_io A) L K fd N tr)"
    and "same_unless_blocked L (datagram_recv_fds_exact_into L K fd N buf tr) (async_datagram_recv_fds_exact_into (into_io A) L K fd N buf tr)"
    and "same_unless_blocked L (seqpacket_recv_fds_into L K fd N buf tr) (async_seqpacket_recv_fds_into (into_io A) L K fd N buf tr)"
    and "same_unless_blocked L (seqpacket_recv_fds_exact_into L K fd N buf tr) (async_seqpacket_recv_fds_exact_into (into_io A) L K fd N buf tr)"
proof -
  have io: "prompt L (send_io A)" "prompt L (owned_io A)" "prompt L (into_io A)" "prompt L (vectored_io A)"
    using assms by (simp_all add: prompt_runtime_def)
  show "same_unless_blocked L (stream_recv_fds_vectored L K fd N iov tr) (async_stream_recv_fds_vectored (vectored_io A) L K fd N iov tr)"
    unfolding stream_recv_fds_vectored_def async_stream_recv_fds_vectored_def by (rule same_vectored [OF io(4)])
  show "same_unless_blocked L (stream_recv_fds L K fd N tr) (async_stream_recv_fds (owned_io A) L K fd N tr)"
    unfolding stream_recv_fds_def async_stream_recv_fds_def by (rule same_owned [OF io(2)])
  show "same_unless_blocked L (stream_recv_fds_into L K fd N buf tr) (async_stream_recv_fds_into (into_io A) L K fd N buf tr)"
    unfolding stream_recv_fds_into_def async_stream_recv_fds_into_def by (rule same_into [OF io(3)])
  show "same_unless_blocked L (stream_recv_fds_exact L K fd N tr) (async_stream_recv_fds_exact (owned_io A) L K fd N tr)"
    unfolding stream_recv_fds_exact_def async_stream_recv_fds_exact_def by (rule same_owned [OF io(2)])
  show "same_unless_blocked L (stream_recv_fds_exact_into L K fd N buf tr) (async_stream_recv_fds_exact_into (into_io A) L K fd N buf tr)"
    unfolding stream_recv_fds_exact_into_def async_stream_recv_fds_exact_into_def by (rule same_into [OF io(3)])
  show "same_unless_blocked L (datagram_recv_fds L K fd N tr) (async_datagram_recv_fds (owned_io A) L K fd N tr)"
    unfolding datagram_recv_fds_def async_datagram_recv_fds_def by (rule same_owned [OF io(2)])
  show "same_unless_blocked L (datagram_recv_fds_into L K fd N buf tr) (async_datagram_recv_fds_into (into_io A) L K fd N buf tr)"
    unfolding datagram_recv_fds_into_def async_datagram_recv_fds_into_def by (rule same_into [OF io(3)])
  show "same_unless_blocked L (datagram_recv_fds_exact L K fd N tr) (async_datagram_recv_fds_exact (owned_io A) L K fd N tr)"
    unfolding datagram_recv_fds_exact_def async_datagram_recv_fds_exact_def by (rule same_owned [OF io(2)])
  show "same_unless_blocked L (datagram_recv_fds_exact_into L K fd N buf tr) (async_datagram_recv_fds_exact_into (into_io A) L K fd N buf tr)"
    unfolding datagram_recv_fds_exact_into_def async_datagram_recv_fds_exact_into_def by (rule same_into [OF io(3)])
  show "same_unless_blocked L (seqpacket_recv_fds_into L K fd N buf tr) (async_seqpacket_recv_fds_into (into_io A) L K fd N buf tr)"
    unfolding seqpacket_recv_fds_into_def async_seqpacket_recv_fds_into_def by (rule same_into [OF io(3)])
  show "same_unless_blocked L (seqpacket_recv_fds_exact_into L K fd N buf tr) (async_seqpacket_recv_fds_exact_into (into_io A) L K fd N buf tr)"
    unfolding seqpacket_recv_fds_exact_into_def async_seqpacket_recv_fds_exact_into_def by (rule same_into [OF io(3)])
qed

lemma same_sends:
  assumes io: "prompt L aio"
  shows "same_unless_blocked L (stream_send_fds L K fd data fds tr) (async_stream_send_fds aio L K fd data fds tr)"
    and "same_unless_blocked L (stream_send_fds_vectored L K fd iov fds tr) (async_stream_send_fds_vectored aio L K fd iov fds tr)"
    and "same_unless_blocked L (datagram_send_fds L K fd data fds tr) (async_datagram_send_fds aio L K fd data fds tr)"
    and "same_unless_blocked L (seqpacket_send_fds L K fd data fds tr) (async_seqpacket_send_fds aio L K fd data fds tr)"
proof -
  have send: "same_unless_blocked L (send_fds_impl L K fd data fds tr)
      (aio fd Writable (\<lambda>tr. send_fds_impl L K fd data fds tr) tr)"
    and vec: "same_unless_blocked L (send_fds_vectored_impl L K fd iov fds tr)
      (aio fd Writable (\<lambda>tr. send_fds_vectored_impl L K fd iov fds tr) tr)"
    by (rule promptD [OF io])+
  show "same_unless_blocked L (stream_send_fds L K fd data fds tr) (async_stream_send_fds aio L K fd data fds tr)"
    using send by (cases "validate_stream_send data (length fds)")
      (simp_all add: stream_send_fds_def async_stream_send_fds_def)
  show "same_unless_blocked L (stream_send_fds_vectored L K fd iov fds tr) (async_stream_send_fds_vectored aio L K fd iov fds tr)"
    unfolding stream_send_fds_vectored_def async_stream_send_fds_vectored_def
    using vec by (cases "fds \<noteq> [] \<and> iov_len iov = 0") (simp_all only: if_True if_False simp_thms same_refl)
  show "same_unless_blocked L (datagram_send_fds L K fd data fds tr) (async_datagram_send_fds aio L K fd data fds tr)"
    "same_unless_blocked L (seqpacket_send_fds L K fd data fds tr) (async_seqpacket_send_fds aio L K fd data fds tr)"
    unfolding datagram_send_fds_def async_datagram_send_fds_def seqpacket_send_fds_def async_seqpacket_send_fds_def
    by (rule send)+
qed

text \<open>
  C35: The asynchronous traits have the semantics of the blocking ones, method by method, as their
  documentation promises: on a runtime that calls a closure once when it does not block, each method
  that would not block in its blocking form returns the same result, leaves the same buffers behind and
  makes the same system calls, \<^verbatim>\<open>send_fds_all\<close> with all of its sends included. So do the \<^verbatim>\<open>seqpacket\<close> forms.
\<close>
theorem async_traits_agree:
  assumes "prompt_runtime L A"
  shows "let s = unix_stream_impl L K; s' = async_unix_stream_impl A L K;
      d = unix_datagram_impl L K; d' = async_unix_datagram_impl A L K
    in same_unless_blocked L (us_send_fds s fd data fds tr) (as_send_fds s' fd data fds tr)
    \<and> same_unless_blocked L (us_send_fds_vectored s fd iov fds tr) (as_send_fds_vectored s' fd iov fds tr)
    \<and> same_unless_blocked L (us_send_fds_all s fd data fds tr) (as_send_fds_all s' fd data fds tr)
    \<and> same_unless_blocked L (us_recv_fds_vectored s fd N iov tr) (as_recv_fds_vectored s' fd N iov tr)
    \<and> same_unless_blocked L (us_recv_fds s fd N tr) (as_recv_fds s' fd N tr)
    \<and> same_unless_blocked L (us_recv_fds_into s fd N buf tr) (as_recv_fds_into s' fd N buf tr)
    \<and> same_unless_blocked L (us_recv_fds_exact s fd N tr) (as_recv_fds_exact s' fd N tr)
    \<and> same_unless_blocked L (us_recv_fds_exact_into s fd N buf tr) (as_recv_fds_exact_into s' fd N buf tr)
    \<and> same_unless_blocked L (ud_send_fds d fd data fds tr) (ad_send_fds d' fd data fds tr)
    \<and> same_unless_blocked L (ud_recv_fds d fd N tr) (ad_recv_fds d' fd N tr)
    \<and> same_unless_blocked L (ud_recv_fds_into d fd N buf tr) (ad_recv_fds_into d' fd N buf tr)
    \<and> same_unless_blocked L (ud_recv_fds_exact d fd N tr) (ad_recv_fds_exact d' fd N tr)
    \<and> same_unless_blocked L (ud_recv_fds_exact_into d fd N buf tr) (ad_recv_fds_exact_into d' fd N buf tr)
    \<and> same_unless_blocked L (seqpacket_send_fds L K fd data fds tr) (async_seqpacket_send_fds (send_io A) L K fd data fds tr)
    \<and> same_unless_blocked L (seqpacket_recv_fds_into L K fd N buf tr) (async_seqpacket_recv_fds_into (into_io A) L K fd N buf tr)
    \<and> same_unless_blocked L (seqpacket_recv_fds_exact_into L K fd N buf tr)
        (async_seqpacket_recv_fds_exact_into (into_io A) L K fd N buf tr)"
proof -
  have "prompt L (send_io A)" using assms by (simp add: prompt_runtime_def)
  note sends = same_sends [OF this] same_send_fds_all [OF this]
  show ?thesis
    unfolding Let_def
    by (simp add: unix_stream_impl_def async_unix_stream_impl_def unix_datagram_impl_def
        async_unix_datagram_impl_def sends same_receives [OF assms])
qed

lemma prompt_poll: "prompt L (\<lambda>fd i. poll L)"
  by (auto simp: prompt_def intro!: sameI) (subst poll.simps, simp)

definition polling_runtime :: "libc \<Rightarrow> runtime" where
  "polling_runtime L = \<lparr> send_io = (\<lambda>fd i. poll L), owned_io = (\<lambda>fd i. poll L),
     into_io = (\<lambda>fd i. poll L), vectored_io = (\<lambda>fd i. poll L) \<rparr>"

theorem async_traits_agree_witness:
  "\<exists>tr'. as_send_fds_all (async_unix_stream_impl (polling_runtime linux64) linux64 (short_writes 2 (loopback linux64)))
     3 [1, 2, 3] [7] [] = Some (Ok (), tr')"
proof -
  let ?K = "short_writes 2 (loopback linux64)"
  have "prompt_runtime linux64 (polling_runtime linux64)"
    by (simp add: prompt_runtime_def polling_runtime_def prompt_poll)
  from async_traits_agree [OF this, of ?K 3 "[1, 2, 3]" "[7]" "[]"]
  have "same_unless_blocked linux64 (stream_send_fds_all linux64 ?K 3 [1, 2, 3] [7] [])
      (as_send_fds_all (async_unix_stream_impl (polling_runtime linux64) linux64 ?K) 3 [1, 2, 3] [7] [])"
    by (simp add: Let_def unix_stream_impl_def)
  moreover obtain tr' where "stream_send_fds_all linux64 ?K 3 [1, 2, 3] [7] [] = Some (Ok (), tr')"
    using all_sent [OF linux64.libc_abi_axioms _ accepts_short_writes, of 2 "[1, 2, 3]" "[7]" "loopback linux64" 3 "[]"]
    by (auto simp: max_payload_def linux64_def cfg_cloexec_def)
  ultimately show ?thesis by (auto dest: sameD simp: would_block_def)
qed

end
