(* ===== verification/Exec_Safety.thy ===== *)
theory Exec_Safety
  imports Session
begin

unbundle bit_operations_syntax

text \<open>
  No descriptor escapes into a program the process executes. \<open>exposed\<close> are the received
  descriptors open without \<^verbatim>\<open>FD_CLOEXEC\<close> after a history; each operation starts and ends with
  none (a \<^verbatim>\<open>recvmsg\<close> that asks for \<^verbatim>\<open>MSG_CMSG_CLOEXEC\<close> delivers its descriptors with the flag, as
  documented), on the systems with \<^verbatim>\<open>MSG_CMSG_CLOEXEC\<close> and on those where the crate sets the flag itself,
  whether it succeeds or fails half way.
\<close>

section \<open>The descriptors an exec would leak\<close>

fun expose :: "libc \<Rightarrow> syscall \<Rightarrow> raw_fd set \<Rightarrow> raw_fd set" where
  "expose L (SysRecvmsg sock h fl (Inr r)) X =
     (let D = set (delivered_in L (take (rr_controllen r) (rr_control r))) in
      if cfg_cloexec L \<and> fl AND MSG_CMSG_CLOEXEC L = MSG_CMSG_CLOEXEC L then X - D else X \<union> D)"
| "expose L (SysSetfd fd fl (Inr u)) X =
     (if fl AND FD_CLOEXEC L = FD_CLOEXEC L then X - {fd} else insert fd X)"
| "expose L (SysClose fd) X = X - {fd}"
| "expose L (SysHost e) X = X - set (opened_by e)"
| "expose L _ X = X"

definition exposed :: "libc \<Rightarrow> trace \<Rightarrow> raw_fd set" where
  "exposed L tr = fold (expose L) tr {}"

lemma exposed_simps [simp]:
  "exposed L [] = {}"
  "exposed L (tr @ ev) = fold (expose L) ev (exposed L tr)"
  by (simp_all add: exposed_def)

lemma expose_neutral: "neutral L ev \<Longrightarrow> fold (expose L) ev X \<subseteq> X"
proof (induction ev arbitrary: X)
  case (Cons e ev)
  have "expose L e X \<subseteq> X"
    using Cons.prems by (cases "(L, e, X)" rule: expose.cases) auto
  with Cons show ?case by fastforce
qed simp

lemma expose_closes: "fold (expose L) (map SysClose xs) X = X - set xs"
  by (induction xs arbitrary: X) auto

text \<open>
  Whenever the program acts outside the crate (\<open>SysHost\<close>, a spawn included), nothing is exposed: what a
  receive without \<^verbatim>\<open>MSG_CMSG_CLOEXEC\<close> exposes is mended before it returns.
\<close>

fun guarded :: "libc \<Rightarrow> raw_fd set \<Rightarrow> trace \<Rightarrow> bool" where
  "guarded L X [] \<longleftrightarrow> True"
| "guarded L X (e # ev) \<longleftrightarrow> (from_host e \<longrightarrow> X = {}) \<and> guarded L (expose L e X) ev"

lemma guarded_append [simp]:
  "guarded L X (ev @ ev') \<longleftrightarrow> guarded L X ev \<and> guarded L (fold (expose L) ev X) ev'"
  by (induction ev arbitrary: X) auto

lemma guarded_inside: "\<not> list_ex from_host ev \<Longrightarrow> guarded L X ev"
  by (induction ev arbitrary: X) auto

lemma guardedD: "guarded L X (pre @ SysHost e # post) \<Longrightarrow> fold (expose L) pre X = {}"
  by simp

lemma inside_simps [simp]:
  "\<not> list_ex from_host (map SysClose xs)" "neutral L ev \<Longrightarrow> \<not> list_ex from_host ev"
  by (auto simp: list_ex_iff neutral_def)

text \<open>Events that expose nothing when nothing is exposed before them.\<close>

definition contained :: "libc \<Rightarrow> trace \<Rightarrow> bool" where
  "contained L ev \<longleftrightarrow> fold (expose L) ev {} = {} \<and> guarded L {} ev"

lemma contained_simps [simp]:
  "contained L []"
  "contained L (map SysClose xs)"
  "neutral L ev \<Longrightarrow> contained L ev"
  "contained L ev \<Longrightarrow> contained L ev' \<Longrightarrow> contained L (ev @ ev')"
  using expose_neutral [of L ev "{}"] by (simp_all add: contained_def expose_closes guarded_inside)

lemma contained_exposed: "exposed L tr = {} \<Longrightarrow> contained L ev \<Longrightarrow> exposed L (tr @ ev) = {}"
  by (simp add: contained_def)

lemma contained_trans:
  "\<exists>ev. t2 = t1 @ ev \<and> contained L ev \<Longrightarrow> \<exists>ev. t3 = t2 @ ev \<and> contained L ev \<Longrightarrow>
     \<exists>ev. t3 = t1 @ ev \<and> contained L ev"
  using contained_simps(4) by fastforce

lemma drop_fds_contained: "\<exists>ev. drop_fds xs tr = tr @ ev \<and> contained L ev"
  by (auto simp: drop_fds_def)

section \<open>One receive\<close>

lemma set_cloexec_expose:
  assumes "set_cloexec L K fd tr = (Ok u, tr')"
  shows "\<exists>ev. tr' = tr @ ev \<and> (\<forall>X. fold (expose L) ev X = X - {fd})"
  using assms set_cloexec_trace [of L K fd tr] by auto

lemma fallback_cloexec_expose:
  assumes "fallback_cloexec_fds L K fds tr = (Ok u, tr')"
  shows "\<exists>ev. tr' = tr @ ev \<and> (\<forall>X. fold (expose L) ev X = X - set fds)"
  using assms
proof (induction fds arbitrary: tr)
  case (Cons fd fds)
  then obtain u1 tr1 where s: "set_cloexec L K fd tr = (Ok u1, tr1)"
    and r: "fallback_cloexec_fds L K fds tr1 = (Ok u, tr')"
    by (auto split: prod.splits result.splits)
  from set_cloexec_expose [OF s] Cons.IH [OF r] obtain ev ev' where
    "tr' = tr @ (ev @ ev')" "\<forall>X. fold (expose L) ev X = X - {fd}"
    "\<forall>X. fold (expose L) ev' X = X - set fds" by auto
  then show ?case by (intro exI [of _ "ev @ ev'"]) auto
qed simp

text \<open>
  The steps every receive shares: interruptions, the reply, the pidfds closed, close-on-exec on
  the rest, which are closed in turn when that fails.
\<close>

lemma expose_receive:
  assumes pre: "neutral L pre" and fl: "cfg_cloexec L \<longrightarrow> fl AND MSG_CMSG_CLOEXEC L = MSG_CMSG_CLOEXEC L"
    and D: "set (delivered_in L (take (rr_controllen reply) (rr_control reply))) = set fds \<union> set pids"
  shows "fold (expose L) (pre @ [SysRecvmsg sock h fl (Inr reply)] @ map SysClose pids) {}
    \<subseteq> (if cfg_cloexec L then {} else set fds)"
proof -
  have p: "fold (expose L) pre {} = {}" using expose_neutral [OF pre, of "{}"] by simp
  have "fold (expose L) (pre @ [SysRecvmsg sock h fl (Inr reply)] @ map SysClose pids) {}
      = expose L (SysRecvmsg sock h fl (Inr reply)) {} - set pids"
    unfolding fold_append comp_apply p expose_closes by simp
  also have "\<dots> \<subseteq> (if cfg_cloexec L then {} else set fds)"
    using fl D by (cases "cfg_cloexec L") (simp, simp, blast)
  finally show ?thesis .
qed

lemma received_contained:
  assumes cl: "cloexec_fds L K fds (drop_fds pids (tr @ pre @ [SysRecvmsg sock h fl (Inr reply)]))
      = (cr, tr')"
    and pre: "neutral L pre" and fl: "cfg_cloexec L \<longrightarrow> fl AND MSG_CMSG_CLOEXEC L = MSG_CMSG_CLOEXEC L"
    and D: "set (delivered_in L (take (rr_controllen reply) (rr_control reply))) = set fds \<union> set pids"
  shows "\<exists>ev. tr' = tr @ ev \<and> (cr = Ok () \<longrightarrow> contained L ev) \<and> contained L (ev @ map SysClose fds)"
proof -
  let ?r = "pre @ [SysRecvmsg sock h fl (Inr reply)] @ map SysClose pids"
  note X = expose_receive [OF pre fl D, of sock h]
  from cloexec_fds_trace [of L K fds "drop_fds pids (tr @ pre @ [SysRecvmsg sock h fl (Inr reply)])"]
  obtain ev where ev: "tr' = tr @ (?r @ ev)" "neutral L ev"
    using cl by (auto simp: drop_fds_def)
  have inside: "guarded L {} (?r @ ev)" "guarded L {} ((?r @ ev) @ map SysClose fds)"
    by (rule guarded_inside, use pre ev(2) in simp)+
  have all: "fold (expose L) (?r @ ev) {} \<subseteq> (if cfg_cloexec L then {} else set fds)"
  proof -
    have "fold (expose L) (?r @ ev) {} = fold (expose L) ev (fold (expose L) ?r {})"
      unfolding fold_append comp_apply by (rule refl)
    also have "\<dots> \<subseteq> fold (expose L) ?r {}" by (rule expose_neutral [OF ev(2)])
    finally show ?thesis using X by (rule order_trans)
  qed
  have "fold (expose L) ((?r @ ev) @ map SysClose fds) {} = fold (expose L) (?r @ ev) {} - set fds"
    unfolding fold_append [of _ "?r @ ev"] comp_apply expose_closes by (rule refl)
  then have "contained L ((?r @ ev) @ map SysClose fds)"
    using all inside unfolding contained_def by (cases "cfg_cloexec L") (simp, simp)
  moreover have "contained L (?r @ ev)" if "cr = Ok ()"
  proof (cases "cfg_cloexec L")
    case True
    with all inside show ?thesis by (simp add: contained_def)
  next
    case False
    with cl that have "fallback_cloexec_fds L K fds
        (drop_fds pids (tr @ pre @ [SysRecvmsg sock h fl (Inr reply)])) = (Ok (), tr')"
      by (simp add: cloexec_fds_def)
    from fallback_cloexec_expose [OF this] ev(1)
    have "\<forall>X. fold (expose L) ev X = X - set fds" by (auto simp: drop_fds_def)
    then have "fold (expose L) (?r @ ev) {} = fold (expose L) ?r {} - set fds"
      unfolding fold_append [of _ ?r ev] comp_apply by blast
    with X False inside show ?thesis unfolding contained_def by simp
  qed
  ultimately show ?thesis using ev(1) by blast
qed

lemma recv_flags_cloexec:
  "cfg_cloexec L \<longrightarrow> (RECV_FLAGS L OR fl) AND MSG_CMSG_CLOEXEC L = MSG_CMSG_CLOEXEC L"
proof
  assume "cfg_cloexec L"
  have "(MSG_CMSG_CLOEXEC L OR fl) AND MSG_CMSG_CLOEXEC L = MSG_CMSG_CLOEXEC L"
    by (simp add: bit_eq_iff bit_simps)
  with \<open>cfg_cloexec L\<close> show "(RECV_FLAGS L OR fl) AND MSG_CMSG_CLOEXEC L = MSG_CMSG_CLOEXEC L"
    by (simp add: RECV_FLAGS_def)
qed

context os_interface begin

text \<open>The same for the raw receive and what both layers do with its reply.\<close>

lemma raw_contained:
  assumes raw: "recvmsg_raw L K sock iov buf fl tr = Some (Ok res, iov1, buf1, tr1)"
    and cl: "cloexec_fds L K (rights_in L (messages_in L (take (ancillary_len res) buf1)))
        (drop_fds (pidfds_in L (messages_in L (take (ancillary_len res) buf1))) tr1) = (cr, tr')"
  shows "\<exists>ev. tr' = tr @ ev \<and> (cr = Ok () \<longrightarrow> contained L ev)
    \<and> contained L (ev @ map SysClose (rights_in L (messages_in L (take (ancillary_len res) buf1))))"
proof -
  from recvmsg_raw_reply [OF raw] obtain reply n where
    t: "tr1 = tr @ replicate n (SysRecvmsg sock (recv_header L iov buf) (RECV_FLAGS L OR fl)
        (Inl (EINTR L))) @ [SysRecvmsg sock (recv_header L iov buf) (RECV_FLAGS L OR fl) (Inr reply)]"
    and r: "res = recv_result_of L reply" "rr_controllen reply = length (rr_control reply)"
      "take (length (rr_control reply)) buf1 = rr_control reply"
    by blast
  have b: "take (ancillary_len res) buf1 = rr_control reply" using r by (simp add: recv_result_of_def)
  have pre: "neutral L (replicate n (SysRecvmsg sock (recv_header L iov buf) (RECV_FLAGS L OR fl)
      (Inl (EINTR L))))" by simp
  show ?thesis
    unfolding b
    by (rule received_contained [OF cl [unfolded b t] pre recv_flags_cloexec])
      (simp add: r(2) delivered_in_def)
qed

lemma recv_fds_contained:
  assumes run: "recv_fds L K sock iov buf tr = Some (r, iov', tr')"
  shows "\<exists>ev. tr' = tr @ ev \<and> contained L ev"
proof -
  from run obtain ret iov1 buf1 tr1 where
    raw: "recvmsg_raw L K sock iov buf 0 tr = Some (ret, iov1, buf1, tr1)"
    by (auto simp: recv_fds_def bind_eq_Some_conv)
  show ?thesis
  proof (cases "\<exists>res. ret = Ok res")
    case False
    then obtain ev e where "tr1 = tr @ ev" "neutral L ev" "ret = Err (Os e)"
      using recvmsg_raw_other [OF raw] by blast
    with raw run show ?thesis by (auto simp: recv_fds_def)
  next
    case True
    then obtain res where ret: "ret = Ok res" by blast
    from recvmsg_raw_Ok [OF raw [unfolded ret]] have l: "ancillary_len res \<le> length buf1" by auto
    let ?ms = "messages_in L (take (ancillary_len res) buf1)"
    obtain cr tr3 where cl: "cloexec_fds L K (rights_in L ?ms) (drop_fds (pidfds_in L ?ms) tr1) = (cr, tr3)"
      by fastforce
    have "cr \<noteq> Panic" using cloexec_fds_trace [of L K "rights_in L ?ms" "drop_fds (pidfds_in L ?ms) tr1"] cl
      by auto
    with run raw ret l cl have "tr' = (case cr of Ok _ \<Rightarrow> tr3 | _ \<Rightarrow> drop_fds (rights_in L ?ms) tr3)"
      by (cases cr) (simp_all add: recv_fds_def slice_def take_fds_eq)
    with raw_contained [OF raw [unfolded ret] cl] \<open>cr \<noteq> Panic\<close> show ?thesis
      by (cases cr) (auto simp: drop_fds_def)
  qed
qed

lemma max_recv_fds_contained: "max_recv_fds L K tr = (budget, tr0) \<Longrightarrow> \<exists>ev. tr0 = tr @ ev \<and> contained L ev"
  using max_recv_fds_trace [of L K tr] contained_simps(3) by fastforce

lemma recv_core_contained:
  assumes run: "recv_core L K fd iov kind mode tr = Some (r, iov', tr')"
  shows "\<exists>ev. tr' = tr @ ev \<and> contained L ev"
  using run
proof (cases rule: recv_coreE)
  case (failed budget tr0 sz ret)
  with contained_trans [OF max_recv_fds_contained recv_fds_contained] show ?thesis by blast
next
  case (settled budget tr0 sz res fds tr1)
  from settle_cases [OF settled(3)] drop_fds_contained
  have "\<exists>ev. tr' = tr1 @ ev \<and> contained L ev" by metis
  with contained_trans [OF contained_trans [OF max_recv_fds_contained recv_fds_contained]] settled(1,2)
  show ?thesis by blast
qed (simp_all add: max_recv_fds_contained)

lemma recv_into_ancillary_contained:
  assumes run: "recv_into_ancillary L K sock iov a fl tr = Some (r, iov', a', tr')"
  shows "\<exists>ev. tr' = tr @ ev \<and> contained L ev"
proof -
  let ?tr0 = "drop_fds (anc_fds a) tr"
  from run obtain ret iov1 buf1 tr1 where
    raw: "recvmsg_raw L K sock iov (buffer a) fl ?tr0 = Some (ret, iov1, buf1, tr1)"
    by (auto simp: recv_into_ancillary_def clear_eq bind_eq_Some_conv)
  have "\<exists>ev. tr' = ?tr0 @ ev \<and> contained L ev"
  proof (cases "\<exists>res. ret = Ok res")
    case False
    then obtain ev e where "tr1 = ?tr0 @ ev" "neutral L ev" "ret = Err (Os e)"
      using recvmsg_raw_other [OF raw] by blast
    with raw run show ?thesis by (auto simp: recv_into_ancillary_def clear_eq)
  next
    case True
    then obtain res where ret: "ret = Ok res" by blast
    from recvmsg_raw_Ok [OF raw [unfolded ret]] have l: "ancillary_len res \<le> length buf1" by auto
    let ?ms = "messages_in L (take (ancillary_len res) buf1)"
    obtain cr tr3 where cl: "cloexec_fds L K (rights_in L ?ms) (drop_fds (pidfds_in L ?ms) tr1) = (cr, tr3)"
      by fastforce
    have "cr \<noteq> Panic" using cloexec_fds_trace [of L K "rights_in L ?ms" "drop_fds (pidfds_in L ?ms) tr1"] cl
      by auto
    with run raw ret l cl have "tr' = (case cr of Ok _ \<Rightarrow> tr3 | _ \<Rightarrow> drop_fds (rights_in L ?ms) tr3)"
      by (cases cr) (simp_all add: recv_into_ancillary_def clear_eq slice_def take_received_into_eq
          cloexec_received_flat drop_messages_def Let_def)
    with raw_contained [OF raw [unfolded ret] cl] \<open>cr \<noteq> Panic\<close> show ?thesis
      by (cases cr) (auto simp: drop_fds_def)
  qed
  then obtain ev where "tr' = tr @ (map SysClose (anc_fds a) @ ev)" "contained L ev"
    by (auto simp: drop_fds_def)
  then show ?thesis by (intro exI [of _ "map SysClose (anc_fds a) @ ev"]) simp
qed

section \<open>Programs using the crate\<close>

text \<open>Every step appends events that expose nothing.\<close>

lemma step_contained:
  assumes step: "session_step L K s s'" and inv: "session_inv L s"
  shows "\<exists>ev. log s' = log s @ ev \<and> contained L ev"
  using step
proof cases
  case (send_step fd iov r tr)
  moreover have "storage_ok L (storage s)" using inv by (simp add: session_inv_def)
  ultimately show ?thesis using cmsg_sendmsg_trace [of "storage s" fd iov "log s" r tr] by fastforce
next
  case (recv_step fd iov r iov' a tr)
  then show ?thesis
    using recv_into_ancillary_contained [of fd iov "storage s" 0 "log s"] by (fastforce simp: cmsg_recvmsg_def)
next
  case (peek_step fd iov r iov' a tr)
  then show ?thesis
    using recv_into_ancillary_contained [of fd iov "storage s" "MSG_PEEK L" "log s"]
    by (fastforce simp: cmsg_recvmsg_peek_def)
next
  case (receive_step mode fd iov kind r iov' tr)
  then show ?thesis using recv_core_contained [of fd iov kind mode "log s" r iov' tr] by fastforce
next
  case (post_step fds fd iov r tr)
  moreover have "sent_ok L (log s)" using inv by (simp add: session_inv_def)
  ultimately show ?thesis using post_sent [of fd iov fds "log s" r tr] by fastforce
next
  case (option_step fd b r tr)
  moreover have "sent_ok L (log s)" using inv by (simp add: session_inv_def)
  ultimately show ?thesis using option_sent [of fd b "log s" r tr] by fastforce
next
  case (transmit_step fds data fd r tr)
  moreover have "sent_ok L (log s)" using inv by (simp add: session_inv_def)
  ultimately show ?thesis using transmit_sent [of fd data fds "log s" r tr] by fastforce
qed (use drop_fds_contained in \<open>auto simp: clear_eq drop_ancillary_def drop_messages_def
    intro: exI [of _ "[]"]\<close>)

lemma reachable_unexposed: "reachable L K s \<Longrightarrow> exposed L (log s) = {}"
proof (induction rule: reachable.induct)
  case (reach_step s s')
  from step_contained [OF reach_step(2) reachable_inv [OF reach_step(1)]] reach_step(3) contained_exposed
  show ?case by fastforce
qed (simp add: start_def)

end

end
