(* ===== verification/Host.thy ===== *)
theory Host
  imports Exec_Safety Async_Props
begin

text \<open>
  Whole programs around the crate: what they ask of the standard library is answered by a
  \<open>host\<close>, a function of the history as the kernel is; the values they own are a list of
  \<open>owner\<close>s, the most recent first, which is the order in which Rust drops the locals of a function
  on every way out of it. A \<open>prog\<close> threads both; its combinators are those of \<^verbatim>\<open>?\<close>, of panics and
  of scopes.
\<close>

section \<open>Values that own descriptors\<close>

text \<open>
  Descriptors held by one value (a socket, a file, a \<^verbatim>\<open>Vec\<close>, closed front to back), a named
  temporary file (unlinked, then closed) and a temporary directory (removed).
\<close>

datatype owner = Owned "raw_fd list" | Temp string raw_fd | Dir string

fun owner_fds :: "owner \<Rightarrow> raw_fd list" where
  "owner_fds (Owned fds) = fds"
| "owner_fds (Temp path fd) = [fd]"
| "owner_fds (Dir path) = []"

fun drop_owner :: "owner \<Rightarrow> trace" where
  "drop_owner (Owned fds) = map SysClose fds"
| "drop_owner (Temp path fd) = [SysHost (HRemove path), SysClose fd]"
| "drop_owner (Dir path) = [SysHost (HRemove path)]"

definition held_fds :: "owner list \<Rightarrow> raw_fd list" where
  "held_fds own = concat (map owner_fds own)"

definition drop_owners :: "owner list \<Rightarrow> trace \<Rightarrow> trace" where
  "drop_owners own tr = tr @ concat (map drop_owner own)"

lemma held_fds_simps [simp]:
  "held_fds [] = []"
  "held_fds (x # own) = owner_fds x @ held_fds own"
  "held_fds (own @ own') = held_fds own @ held_fds own'"
  by (simp_all add: held_fds_def)

section \<open>Programs\<close>

type_synonym 'a prog =
  "owner list \<Rightarrow> trace \<Rightarrow> ((io_error, 'a) result \<times> owner list \<times> trace) option"

definition give :: "'a \<Rightarrow> 'a prog" where
  "give x own tr = Some (Ok x, own, tr)"

definition fail :: "io_error \<Rightarrow> 'a prog" where
  "fail e own tr = Some (Err e, own, tr)"

definition crash :: "'a prog" where
  "crash own tr = Some (Panic, own, tr)"

text \<open>\<^verbatim>\<open>let x = p?; f(x)\<close>.\<close>

definition chain :: "'a prog \<Rightarrow> ('a \<Rightarrow> 'b prog) \<Rightarrow> 'b prog" where
  "chain p f own tr = do {
     (ret, own, tr) \<leftarrow> p own tr;
     (case ret of Ok x \<Rightarrow> f x own tr | Err e \<Rightarrow> Some (Err e, own, tr) | Panic \<Rightarrow> Some (Panic, own, tr)) }"

text \<open>A result as a value: its error is looked at, a panic goes on.\<close>

definition attempt :: "'a prog \<Rightarrow> (io_error, 'a) result prog" where
  "attempt p own tr = do {
     (ret, own, tr) \<leftarrow> p own tr;
     Some (case ret of Panic \<Rightarrow> Panic | _ \<Rightarrow> Ok ret, own, tr) }"

definition return_result :: "(io_error, 'a) result \<Rightarrow> 'a prog" where
  "return_result ret own tr = Some (ret, own, tr)"

text \<open>A function body or closure: what it still owns is dropped however it ends.\<close>

definition scope :: "'a prog \<Rightarrow> 'a prog" where
  "scope p own tr = do { (ret, inner, tr) \<leftarrow> p [] tr; Some (ret, own, drop_owners inner tr) }"

definition run_main :: "'a prog \<Rightarrow> trace \<Rightarrow> ((io_error, 'a) result \<times> trace) option" where
  "run_main p tr = do { (ret, own, tr) \<leftarrow> p [] tr; Some (ret, drop_owners own tr) }"

text \<open>An operation of the crate, with the values that own what it hands out.\<close>

definition crate_call ::
  "('a \<Rightarrow> owner list) \<Rightarrow> (trace \<Rightarrow> ((io_error, 'a) result \<times> trace) option) \<Rightarrow> 'a prog" where
  "crate_call owners f own tr = do {
     (ret, tr) \<leftarrow> f tr;
     Some (ret, (case ret of Ok x \<Rightarrow> owners x @ own | _ \<Rightarrow> own), tr) }"

text \<open>A receive into a caller's buffer hands the buffer back with its result.\<close>

definition with_buffer ::
  "(trace \<Rightarrow> ((io_error, usize \<times> raw_fd list) result \<times> byte list \<times> trace) option)
     \<Rightarrow> trace \<Rightarrow> ((io_error, usize \<times> raw_fd list \<times> byte list) result \<times> trace) option" where
  "with_buffer f tr = do {
     (ret, buf, tr) \<leftarrow> f tr;
     Some (and_then ret (\<lambda>(n, fds). Ok (n, fds, buf)), tr) }"

definition received_owner :: "received_fds \<Rightarrow> owner list" where
  "received_owner rf = [Owned (rf_fds rf)]"

definition buffer_owner :: "usize \<times> raw_fd list \<times> byte list \<Rightarrow> owner list" where
  "buffer_owner = (\<lambda>(n, fds, buf). [Owned fds])"

text \<open>\<^verbatim>\<open>fds.into_iter().next().unwrap()\<close>: the rest of the batch is closed with the iterator.\<close>

fun take_first :: "raw_fd prog" where
  "take_first (Owned (fd # rest) # own) tr = Some (Ok fd, Owned [fd] # own, drop_fds rest tr)"
| "take_first own tr = Some (Panic, own, tr)"

text \<open>\<^verbatim>\<open>fds.pop().expect(..)\<close>: the last one, the vector keeps the others.\<close>

fun pop_last :: "raw_fd prog" where
  "pop_last (Owned (fd # rest) # own) tr =
     Some (Ok (last (fd # rest)), Owned [last (fd # rest)] # Owned (butlast (fd # rest)) # own, tr)"
| "pop_last own tr = Some (Panic, own, tr)"

fun drop_latest :: "unit prog" where
  "drop_latest (x # own) tr = Some (Ok (), own, drop_owners [x] tr)"
| "drop_latest [] tr = Some (Panic, [], tr)"

section \<open>The standard library\<close>

record host =
  on_pair :: "trace \<Rightarrow> io_error + open_fd \<times> open_fd"
  on_open :: "trace \<Rightarrow> open_call \<Rightarrow> io_error + open_fd"
  on_named_temp :: "trace \<Rightarrow> string option \<Rightarrow> io_error + string \<times> open_fd"
  on_temp_dir :: "trace \<Rightarrow> io_error + string"
  on_action :: "trace \<Rightarrow> action \<Rightarrow> io_error + unit"
  on_query :: "trace \<Rightarrow> query \<Rightarrow> io_error + byte list"
  on_exe :: "trace \<Rightarrow> io_error + string"
  on_spawn :: "trace \<Rightarrow> string \<Rightarrow> string list \<Rightarrow> io_error + nat"
  on_try_wait :: "trace \<Rightarrow> nat \<Rightarrow> io_error + bool option"
  on_wait :: "trace \<Rightarrow> nat \<Rightarrow> io_error + bool"
  clock :: "trace \<Rightarrow> nat"

fun outcome :: "io_error + 'a \<Rightarrow> (io_error, 'a) result" where
  "outcome (Inl e) = Err e"
| "outcome (Inr x) = Ok x"

definition host_call :: "(trace \<Rightarrow> io_error + 'a) \<Rightarrow> (io_error + 'a \<Rightarrow> host_event) \<Rightarrow> ('a \<Rightarrow> owner list) \<Rightarrow> 'a prog" where
  "host_call answer event owners own tr =
     (let a = answer tr in
      Some (outcome a, (case a of Inl e \<Rightarrow> own | Inr x \<Rightarrow> owners x @ own), tr @ [SysHost (event a)]))"

definition socket_pair :: "host \<Rightarrow> (raw_fd \<times> raw_fd) prog" where
  "socket_pair H = chain (host_call (on_pair H) HPair (\<lambda>(a, b). [Owned [ucast b], Owned [ucast a]]))
     (\<lambda>(a, b). give (ucast a, ucast b))"

definition open_one :: "host \<Rightarrow> open_call \<Rightarrow> raw_fd prog" where
  "open_one H x = chain (host_call (\<lambda>tr. on_open H tr x) (HOpen x) (\<lambda>a. [Owned [ucast a]]))
     (\<lambda>a. give (ucast a))"

definition named_temp :: "host \<Rightarrow> string option \<Rightarrow> (string \<times> raw_fd) prog" where
  "named_temp H dir = chain (host_call (\<lambda>tr. on_named_temp H tr dir) (HNamedTemp dir)
       (\<lambda>(path, a). [Temp path (ucast a)]))
     (\<lambda>(path, a). give (path, ucast a))"

definition temp_dir :: "host \<Rightarrow> string prog" where
  "temp_dir H = host_call (on_temp_dir H) HTempDir (\<lambda>path. [Dir path])"

definition act :: "host \<Rightarrow> action \<Rightarrow> unit prog" where
  "act H x = host_call (\<lambda>tr. on_action H tr x) (HDo x) (\<lambda>_. [])"

definition query :: "host \<Rightarrow> query \<Rightarrow> byte list prog" where
  "query H x = host_call (\<lambda>tr. on_query H tr x) (HQuery x) (\<lambda>_. [])"

definition current_exe :: "host \<Rightarrow> string prog" where
  "current_exe H = host_call (on_exe H) HExe (\<lambda>_. [])"

definition spawn :: "host \<Rightarrow> string \<Rightarrow> string list \<Rightarrow> nat prog" where
  "spawn H exe args = host_call (\<lambda>tr. on_spawn H tr exe args) (HSpawn exe args) (\<lambda>_. [])"

definition try_wait :: "host \<Rightarrow> nat \<Rightarrow> bool option prog" where
  "try_wait H child = host_call (\<lambda>tr. on_try_wait H tr child) (HTryWait child) (\<lambda>_. [])"

definition wait :: "host \<Rightarrow> nat \<Rightarrow> bool prog" where
  "wait H child = host_call (\<lambda>tr. on_wait H tr child) (HWait child) (\<lambda>_. [])"

definition now :: "host \<Rightarrow> nat prog" where
  "now H own tr = Some (Ok (clock H tr), own, tr @ [SysHost (HClock (clock H tr))])"

definition sleep :: "nat \<Rightarrow> unit prog" where
  "sleep ms own tr = Some (Ok (), own, tr @ [SysHost (HSleep ms)])"

lemmas host_op_defs = socket_pair_def open_one_def named_temp_def temp_dir_def act_def query_def
  current_exe_def spawn_def try_wait_def wait_def

section \<open>Text\<close>

definition bytes :: "string \<Rightarrow> byte list" where
  "bytes s = map of_char s"

text \<open>The UTF-8 check of \<^verbatim>\<open>str::from_utf8\<close> and \<^verbatim>\<open>read_to_string\<close>.\<close>

definition utf8_len :: "byte \<Rightarrow> nat" where
  "utf8_len b = (if b < 0x80 then 1 else if 0xC2 \<le> b \<and> b \<le> 0xDF then 2
     else if 0xE0 \<le> b \<and> b \<le> 0xEF then 3 else if 0xF0 \<le> b \<and> b \<le> 0xF4 then 4 else 0)"

fun utf8_tail :: "byte \<Rightarrow> byte list \<Rightarrow> bool" where
  "utf8_tail b [] = True"
| "utf8_tail b (c # cs) =
     ((if b = 0xE0 then 0xA0 else if b = 0xF0 then 0x90 else 0x80) \<le> c
      \<and> c \<le> (if b = 0xED then 0x9F else if b = 0xF4 then 0x8F else 0xBF)
      \<and> (\<forall>d\<in>set cs. 0x80 \<le> d \<and> d \<le> 0xBF))"

fun valid_utf8 :: "byte list \<Rightarrow> bool" where
  "valid_utf8 [] = True"
| "valid_utf8 (b # bs) =
     (utf8_len b \<noteq> 0 \<and> utf8_len b - 1 \<le> length bs \<and> utf8_tail b (take (utf8_len b - 1) bs)
      \<and> valid_utf8 (drop (utf8_len b - 1) bs))"

definition read_to_string :: "host \<Rightarrow> raw_fd \<Rightarrow> byte list prog" where
  "read_to_string H fd = chain (query H (ReadToEnd fd)) (\<lambda>content.
     if valid_utf8 content then give content
     else fail (Custom InvalidData (Text ''stream did not contain valid UTF-8'')))"

text \<open>\<^verbatim>\<open>str::from_utf8(data).unwrap()\<close>, \<^verbatim>\<open>assert!\<close> and \<^verbatim>\<open>assert_eq!\<close>.\<close>

definition utf8_unwrap :: "byte list \<Rightarrow> byte list prog" where
  "utf8_unwrap data = (if valid_utf8 data then give data else crash)"

definition assert_that :: "bool \<Rightarrow> unit prog" where
  "assert_that b = (if b then give () else crash)"

lemma valid_utf8_ascii: "\<forall>b\<in>set bs. b < 0x80 \<Longrightarrow> valid_utf8 bs"
  by (induction bs) (simp_all add: utf8_len_def)

end
