(* ===== verification/Fd_Table.thy ===== *)
theory Fd_Table
  imports Ownership
begin

text \<open>
  The process's descriptor table, rebuilt from the history: a number enters it when the kernel
  installs a descriptor and leaves it when it is closed. A kernel installs a descriptor at a number
  that is free (\<open>assigns_free\<close>); then a balance of multisets is one of sets: what the program owns are
  distinct numbers, exactly the open ones, and every close is of an open one.
\<close>

definition table_step :: "libc \<Rightarrow> syscall \<Rightarrow> raw_fd set \<Rightarrow> raw_fd set" where
  "table_step L e T = T \<union> set (delivered_by L e) - set (closed_by e)"

definition fd_table :: "libc \<Rightarrow> trace \<Rightarrow> raw_fd set" where
  "fd_table L tr = fold (table_step L) tr {}"

text \<open>Every installed number was free, and no message carries one number twice.\<close>

fun assigns_free :: "libc \<Rightarrow> raw_fd set \<Rightarrow> trace \<Rightarrow> bool" where
  "assigns_free L T [] \<longleftrightarrow> True"
| "assigns_free L T (e # tr) \<longleftrightarrow> distinct (delivered_by L e) \<and> set (delivered_by L e) \<inter> T = {}
     \<and> assigns_free L (table_step L e T) tr"

lemma closes_or_delivers: "closed_by e = [] \<or> (\<exists>fd. e = SysClose fd)"
  by (cases e) auto

lemma solvent_tl:
  assumes "solvent L own (e # ev)" "mset own + mset (delivered_by L e) = mset own' + mset (closed_by e)"
  shows "solvent L own' ev"
proof (rule solventI)
  fix pre post
  assume "ev = pre @ post"
  then have "mset (closed (e # pre)) \<subseteq># mset own + mset (delivered L (e # pre))"
    using assms(1) solventD [of L own "e # pre" post] by simp
  also have "\<dots> = mset (closed_by e) + (mset own' + mset (delivered L pre))"
    using assms(2) by (simp add: ac_simps)
  finally show "mset (closed pre) \<subseteq># mset own' + mset (delivered L pre)" by simp
qed

text \<open>What is owned after one event, as a list of distinct numbers.\<close>

lemma owned_after_event:
  assumes "distinct own" "assigns_free L (set own) (e # ev)" "solvent L own (e # ev)"
  obtains own' where "distinct own'" "set own' = table_step L e (set own)"
    "mset own + mset (delivered_by L e) = mset own' + mset (closed_by e)"
proof (cases "closed_by e = []")
  case True
  with assms(1,2) show thesis
    by (intro that [of "own @ delivered_by L e"]) (auto simp: table_step_def)
next
  case False
  with closes_or_delivers [of e] obtain fd where e: "e = SysClose fd" by blast
  have "mset (closed [e]) \<subseteq># mset own + mset (delivered L [e])"
    by (rule solventD [of _ _ _ ev]) (use assms(3) in simp)
  with e have "fd \<in> set own" by simp
  with assms(1) e show thesis
    by (intro that [of "remove1 fd own"]) (auto simp: table_step_def)
qed

lemma owned_tracks_table:
  assumes "distinct own" "assigns_free L (set own) ev" "solvent L own ev"
    and "mset own + mset (delivered L ev) = mset own' + mset (closed ev)"
  shows "distinct own' \<and> set own' = fold (table_step L) ev (set own)"
  using assms
proof (induction ev arbitrary: own)
  case Nil
  then have m: "mset own = mset own'" by simp
  show ?case using mset_eq_imp_distinct_iff [OF m] mset_eq_setD [OF m] Nil.prems(1) by simp
next
  case (Cons e ev)
  from owned_after_event [OF Cons.prems(1-3)] obtain own1 where
    o: "distinct own1" "set own1 = table_step L e (set own)"
      "mset own + mset (delivered_by L e) = mset own1 + mset (closed_by e)" .
  have "mset own1 + mset (delivered L ev) = mset own' + mset (closed ev)"
  proof -
    have "mset (closed_by e) + (mset own1 + mset (delivered L ev))
        = (mset own + mset (delivered_by L e)) + mset (delivered L ev)"
      using o(3) by (simp add: ac_simps)
    also have "\<dots> = mset (closed_by e) + (mset own' + mset (closed ev))"
      using Cons.prems(4) by (simp add: ac_simps)
    finally show ?thesis by simp
  qed
  with Cons.IH [OF o(1) _ solvent_tl [OF Cons.prems(3) o(3)]] Cons.prems(2) o(2) show ?case by simp
qed

lemma assigns_free_append: "assigns_free L T (pre @ post) \<Longrightarrow> assigns_free L T pre"
  by (induction pre arbitrary: T) auto

lemma accounted_table:
  assumes "accounted L [] [] tr own" "assigns_free L {} tr"
  shows "distinct own" and "set own = fd_table L tr"
    and "tr = pre @ SysClose fd # post \<Longrightarrow> fd \<in> fd_table L pre"
proof -
  from assms(1) have s: "solvent L [] tr"
    and b: "mset (delivered L tr) = mset own + mset (closed tr)" by (auto simp: accounted_def)
  from owned_tracks_table [of "[]" L tr own] s b assms(2) show "distinct own" "set own = fd_table L tr"
    by (simp_all add: fd_table_def)
  assume tr: "tr = pre @ SysClose fd # post"
  have c: "mset (closed (pre @ [SysClose fd])) \<subseteq># mset (delivered L pre)"
    using solventD [of L "[]" "pre @ [SysClose fd]" post] s tr by simp
  then have "mset (closed pre) \<subseteq># mset (delivered L pre)"
    by (auto intro: subset_mset.order_trans [of _ "add_mset fd (mset (closed pre))"])
  then obtain left where o: "mset (delivered L pre) = mset left + mset (closed pre)"
    by (metis subset_mset.diff_add ex_mset)
  have "solvent L [] pre" using s tr by (auto simp: solvent_def)
  moreover have "assigns_free L {} pre" using assms(2) tr assigns_free_append by blast
  ultimately have "set left = fd_table L pre"
    using owned_tracks_table [of "[]" L pre left] o by (simp add: fd_table_def)
  moreover have "fd \<in># mset left" using c o by simp
  ultimately show "fd \<in> fd_table L pre" by simp
qed

text \<open>A history that closes nothing and installs each number once is such a history.\<close>

lemma assigns_free_distinct:
  "closed tr = [] \<Longrightarrow> distinct (delivered L tr) \<Longrightarrow> set (delivered L tr) \<inter> T = {} \<Longrightarrow> assigns_free L T tr"
proof (induction tr arbitrary: T)
  case (Cons e tr)
  then have "set (delivered L tr) \<inter> table_step L e T = {}" by (auto simp: table_step_def)
  with Cons show ?case by auto
qed simp

end
