(* ===== verification/Host_Safety.thy ===== *)
theory Host_Safety
  imports Host Fd_Table
begin

text \<open>
  What whole programs keep: \<open>conserves\<close> is the balance of descriptors over a stretch of the history together
  with close-on-exec, \<open>keeps\<close> a program that conserves whatever it is run on. One rule per combinator,
  standard-library call and crate operation, in the collection \<open>program_intros\<close>.
\<close>

named_theorems program_intros \<open>pieces of program that account for every descriptor\<close>

section \<open>Conservation\<close>

definition conserves :: "libc \<Rightarrow> trace \<Rightarrow> raw_fd list \<Rightarrow> trace \<Rightarrow> raw_fd list \<Rightarrow> bool" where
  "conserves L tr own tr' own' \<longleftrightarrow> accounted L tr own tr' own' \<and> (\<exists>ev. tr' = tr @ ev \<and> contained L ev)"

lemma conserves_refl [simp]: "conserves L tr own tr own"
  by (simp add: conserves_def)

lemma conserves_trans [trans]:
  "conserves L t1 o1 t2 o2 \<Longrightarrow> conserves L t2 o2 t3 o3 \<Longrightarrow> conserves L t1 o1 t3 o3"
  unfolding conserves_def using accounted_trans contained_trans by blast

lemma conserves_frame:
  "conserves L tr own tr' own' \<Longrightarrow> conserves L tr (own @ x) tr' (own' @ x)"
  unfolding conserves_def using accounted_frame by blast

lemma conserves_cong:
  "conserves L tr own tr' own' \<Longrightarrow> mset own2 = mset own \<Longrightarrow> mset own2' = mset own' \<Longrightarrow>
     conserves L tr own2 tr' own2'"
  unfolding conserves_def using accounted_cong by blast

lemma conserves_neutral: "neutral L ev \<Longrightarrow> conserves L tr own (tr @ ev) own"
  by (simp add: conserves_def accounted_neutral)

lemma conserves_drop: "conserves L tr (xs @ ys) (drop_fds xs tr) ys"
  by (simp add: conserves_def accounted_drop drop_fds_contained)

lemma conserves_host:
  assumes "mset own' = mset own + mset (opened_by e)"
  shows "conserves L tr own (tr @ [SysHost e]) own'"
  unfolding conserves_def
proof
  show "accounted L tr own (tr @ [SysHost e]) own'"
    by (rule accounted_deliver [of _ _ "[SysHost e]"]) (simp_all add: assms)
qed (simp add: contained_def)

lemma drop_owners_simps [simp]:
  "drop_owners [] tr = tr"
  "drop_owners (x # own) tr = drop_owners own (tr @ drop_owner x)"
  by (simp_all add: drop_owners_def)

lemma conserves_drop_owner: "conserves L tr (owner_fds x @ ys) (tr @ drop_owner x) ys"
proof (cases x)
  case (Owned fds)
  with conserves_drop [of L tr fds ys] show ?thesis by (simp add: drop_fds_def)
next
  case (Temp path fd)
  have "conserves L tr (fd # ys) (tr @ [SysHost (HRemove path)]) (fd # ys)"
    by (rule conserves_host) simp
  also have "conserves L (tr @ [SysHost (HRemove path)]) (fd # ys) (drop_fds [fd] (tr @ [SysHost (HRemove path)])) ys"
    using conserves_drop [of L _ "[fd]" ys] by simp
  finally show ?thesis using Temp by (simp add: drop_fds_def)
next
  case (Dir path)
  then show ?thesis by (simp add: conserves_host)
qed

lemma conserves_drop_owners: "conserves L tr (held_fds own @ ys) (drop_owners own tr) ys"
proof (induction own arbitrary: tr)
  case (Cons x own)
  have "conserves L tr (held_fds (x # own) @ ys) (tr @ drop_owner x) (held_fds own @ ys)"
    using conserves_drop_owner [of L tr x "held_fds own @ ys"] by simp
  also note Cons
  finally show ?case by simp
qed simp

section \<open>Relations along a program\<close>

text \<open>
  A relation between the owned values and the history before and after, together with the freedom
  from panics (unless \<open>panics\<close> allows them).
\<close>

type_synonym point = "owner list \<times> trace"

definition obeys :: "(point \<Rightarrow> point \<Rightarrow> bool) \<Rightarrow> bool \<Rightarrow> 'a prog \<Rightarrow> bool" where
  "obeys R panics p \<longleftrightarrow> (\<forall>own tr r own' tr'. p own tr = Some (r, own', tr') \<longrightarrow>
     R (own, tr) (own', tr') \<and> (r = Panic \<longrightarrow> panics))"

lemma obeysI:
  "(\<And>own tr r own' tr'. p own tr = Some (r, own', tr') \<Longrightarrow>
     R (own, tr) (own', tr') \<and> (r = Panic \<longrightarrow> panics)) \<Longrightarrow> obeys R panics p"
  by (simp add: obeys_def)

lemma obeysD:
  "obeys R panics p \<Longrightarrow> p own tr = Some (r, own', tr') \<Longrightarrow>
     R (own, tr) (own', tr') \<and> (r = Panic \<longrightarrow> panics)"
  unfolding obeys_def by blast

text \<open>What is reflexive and transitive passes through every combinator that drops nothing.\<close>

locale program_relation =
  fixes R :: "point \<Rightarrow> point \<Rightarrow> bool"
  assumes refl: "R s s"
    and trans: "R s1 s2 \<Longrightarrow> R s2 s3 \<Longrightarrow> R s1 s3"
begin

lemma obeys_plain:
  "obeys R panics (give x)" "obeys R panics (fail e)"
  "ret \<noteq> Panic \<or> panics \<Longrightarrow> obeys R panics (return_result ret)"
  by (auto simp: obeys_def give_def fail_def return_result_def refl)

lemma obeys_crash: "obeys R True crash"
  by (auto simp: obeys_def crash_def refl)

lemma obeys_chain:
  assumes "obeys R panics p" "\<And>x. obeys R panics (f x)"
  shows "obeys R panics (chain p f)"
proof (rule obeysI)
  fix own tr r own' tr'
  assume "chain p f own tr = Some (r, own', tr')"
  then obtain ret own1 tr1 where p: "p own tr = Some (ret, own1, tr1)"
    and f: "(case ret of Ok x \<Rightarrow> f x own1 tr1 | Err e \<Rightarrow> Some (Err e, own1, tr1)
      | Panic \<Rightarrow> Some (Panic, own1, tr1)) = Some (r, own', tr')"
    by (auto simp: chain_def bind_eq_Some_conv)
  from obeysD [OF assms(1) p] f show "R (own, tr) (own', tr') \<and> (r = Panic \<longrightarrow> panics)"
    by (cases ret) (auto dest: obeysD [OF assms(2)] trans)
qed

text \<open>The result of an attempt is never a panic, which the continuation may use.\<close>

lemma obeys_attempt_chain:
  assumes "obeys R panics p" "\<And>x. x \<noteq> Panic \<Longrightarrow> obeys R panics (f x)"
  shows "obeys R panics (chain (attempt p) f)"
proof (rule obeysI)
  fix own tr r own' tr'
  assume run: "chain (attempt p) f own tr = Some (r, own', tr')"
  then obtain ret own1 tr1 where p: "p own tr = Some (ret, own1, tr1)"
    by (auto simp: chain_def attempt_def bind_eq_Some_conv)
  note first = obeysD [OF assms(1) p]
  show "R (own, tr) (own', tr') \<and> (r = Panic \<longrightarrow> panics)"
  proof (cases "ret = Panic")
    case True
    with run p first show ?thesis by (simp add: chain_def attempt_def)
  next
    case False
    then have "f ret own1 tr1 = Some (r, own', tr')"
      using run p by (cases ret) (simp_all add: chain_def attempt_def)
    from obeysD [OF assms(2) [OF False] this] first show ?thesis by (blast intro: trans)
  qed
qed

lemma obeys_attempt: "obeys R panics p \<Longrightarrow> obeys R panics (attempt p)"
proof (rule obeysI)
  fix own tr r own' tr'
  assume p: "obeys R panics p" and run: "attempt p own tr = Some (r, own', tr')"
  then obtain ret where "p own tr = Some (ret, own', tr')" and "r = (case ret of Panic \<Rightarrow> Panic | _ \<Rightarrow> Ok ret)"
    by (auto simp: attempt_def bind_eq_Some_conv)
  with obeysD [OF p] show "R (own, tr) (own', tr') \<and> (r = Panic \<longrightarrow> panics)" by (cases ret) auto
qed

lemma obeys_prod: "(\<And>a b. obeys R panics (f a b)) \<Longrightarrow> obeys R panics (case_prod f x)"
  by (cases x) simp

lemma obeys_if:
  "(b \<Longrightarrow> obeys R panics p) \<Longrightarrow> (\<not> b \<Longrightarrow> obeys R panics q) \<Longrightarrow> obeys R panics (if b then p else q)"
  by simp

lemma obeys_let: "obeys R panics (f x) \<Longrightarrow> obeys R panics (let y = x in f y)"
  by simp

lemma obeys_text:
  assumes "obeys R panics (query H (ReadToEnd fd))"
  shows "obeys R panics (read_to_string H fd)"
  unfolding read_to_string_def
  by (intro obeys_chain assms obeys_if) (simp_all add: obeys_plain)

lemmas obeys_intros = obeys_plain obeys_chain obeys_attempt obeys_prod obeys_if
  obeys_let obeys_text

end

section \<open>Programs that keep the balance\<close>

definition keeps :: "libc \<Rightarrow> 'a prog \<Rightarrow> bool" where
  "keeps L p \<longleftrightarrow> obeys (\<lambda>(own, tr) (own', tr'). conserves L tr (held_fds own) tr' (held_fds own')) True p"

interpretation conserving: program_relation
  "\<lambda>(own, tr) (own', tr'). conserves L tr (held_fds own) tr' (held_fds own')" for L
  by unfold_locales (auto dest: conserves_trans)

lemma keepsI:
  "(\<And>own tr r own' tr'. p own tr = Some (r, own', tr') \<Longrightarrow>
     conserves L tr (held_fds own) tr' (held_fds own')) \<Longrightarrow> keeps L p"
  by (simp add: keeps_def obeys_def)

lemma keepsD:
  "keeps L p \<Longrightarrow> p own tr = Some (r, own', tr') \<Longrightarrow> conserves L tr (held_fds own) tr' (held_fds own')"
  unfolding keeps_def by (drule (1) obeysD) simp

lemma keeps_plain [program_intros]:
  "keeps L (give x)" "keeps L (fail e)" "keeps L crash" "keeps L (return_result ret)"
  by (simp_all add: keeps_def conserving.obeys_plain conserving.obeys_crash)

lemma keeps_chain [program_intros]: "keeps L p \<Longrightarrow> (\<And>x. keeps L (f x)) \<Longrightarrow> keeps L (chain p f)"
  unfolding keeps_def by (rule conserving.obeys_chain)

lemma keeps_attempt [program_intros]: "keeps L p \<Longrightarrow> keeps L (attempt p)"
  unfolding keeps_def by (rule conserving.obeys_attempt)

lemma keeps_prod [program_intros]: "(\<And>a b. keeps L (f a b)) \<Longrightarrow> keeps L (case_prod f x)"
  unfolding keeps_def by (rule conserving.obeys_prod)

lemma keeps_if [program_intros]: "keeps L p \<Longrightarrow> keeps L q \<Longrightarrow> keeps L (if b then p else q)"
  by simp

lemma keeps_let [program_intros]: "keeps L (f x) \<Longrightarrow> keeps L (let y = x in f y)"
  by simp

lemma keeps_scope [program_intros]:
  assumes "keeps L p"
  shows "keeps L (scope p)"
proof (rule keepsI)
  fix own tr r own' tr'
  assume "scope p own tr = Some (r, own', tr')"
  then obtain inner tr1 where p: "p [] tr = Some (r, inner, tr1)"
    and o: "own' = own" "tr' = drop_owners inner tr1"
    by (auto simp: scope_def bind_eq_Some_conv)
  have "conserves L tr (held_fds own) tr1 (held_fds inner @ held_fds own)"
    using conserves_frame [OF keepsD [OF assms p], of "held_fds own"] by simp
  also note conserves_drop_owners
  finally show "conserves L tr (held_fds own) tr' (held_fds own')" using o by simp
qed

text \<open>A whole program ends owning nothing, whatever became of it.\<close>

lemma keeps_main:
  assumes "keeps L p" "run_main p tr = Some (r, tr')"
  shows "conserves L tr [] tr' []"
proof -
  from assms(2) obtain own tr1 where p: "p [] tr = Some (r, own, tr1)" and t: "tr' = drop_owners own tr1"
    by (auto simp: run_main_def bind_eq_Some_conv)
  from keepsD [OF assms(1) p] have "conserves L tr [] tr1 (held_fds own @ [])" by simp
  also note conserves_drop_owners
  finally show ?thesis using t by simp
qed

lemma keeps_take_first [program_intros]: "keeps L take_first"
proof (rule keepsI)
  fix own tr r own' tr'
  assume run: "take_first own tr = Some (r, own', tr')"
  show "conserves L tr (held_fds own) tr' (held_fds own')"
  proof (cases "(own, tr)" rule: take_first.cases)
    case (1 fd rest own1 tr1)
    have "conserves L tr (rest @ fd # held_fds own1) (drop_fds rest tr) (fd # held_fds own1)"
      by (rule conserves_drop)
    then have "conserves L tr (fd # rest @ held_fds own1) (drop_fds rest tr) (fd # held_fds own1)"
      by (rule conserves_cong) simp_all
    with 1 run show ?thesis by auto
  qed (use run in auto)
qed

lemma keeps_pop_last [program_intros]: "keeps L pop_last"
proof (rule keepsI)
  fix own tr r own' tr'
  assume run: "pop_last own tr = Some (r, own', tr')"
  show "conserves L tr (held_fds own) tr' (held_fds own')"
  proof (cases "(own, tr)" rule: pop_last.cases)
    case (1 fd rest own1 tr1)
    have "mset (fd # rest) = mset (butlast (fd # rest) @ [last (fd # rest)])"
      by (subst append_butlast_last_id) simp_all
    with 1 run conserves_cong [OF conserves_refl [of L tr "fd # rest @ held_fds own1"] refl]
    show ?thesis by auto
  qed (use run in auto)
qed

lemma keeps_drop_latest [program_intros]: "keeps L drop_latest"
proof (rule keepsI)
  fix own tr r own' tr'
  assume run: "drop_latest own tr = Some (r, own', tr')"
  show "conserves L tr (held_fds own) tr' (held_fds own')"
    by (cases "(own, tr)" rule: drop_latest.cases)
      (use run in \<open>auto simp: conserves_drop_owner\<close>)
qed

section \<open>Standard-library calls\<close>

lemma keeps_host_call:
  assumes "\<And>x. mset (held_fds (owners x)) = mset (opened_by (event (Inr x)))"
    and "\<And>e. opened_by (event (Inl e)) = []"
  shows "keeps L (host_call answer event owners)"
proof (rule keepsI)
  fix own tr r own' tr'
  assume "host_call answer event owners own tr = Some (r, own', tr')"
  then have "tr' = tr @ [SysHost (event (answer tr))]"
    and "own' = (case answer tr of Inl e \<Rightarrow> own | Inr x \<Rightarrow> owners x @ own)"
    by (simp_all add: host_call_def Let_def)
  with assms show "conserves L tr (held_fds own) tr' (held_fds own')"
    by (cases "answer tr") (simp_all add: conserves_host)
qed

lemma keeps_host [program_intros]:
  "keeps L (socket_pair H)" "keeps L (open_one H x)" "keeps L (named_temp H dir)" "keeps L (temp_dir H)"
  "keeps L (act H a)" "keeps L (query H q)" "keeps L (current_exe H)" "keeps L (spawn H exe args)"
  "keeps L (try_wait H c)" "keeps L (wait H c)"
  unfolding host_op_defs
  by (auto intro!: keeps_host_call program_intros split: prod.split)

lemma keeps_time [program_intros]: "keeps L (now H)" "keeps L (sleep ms)"
  by (auto intro!: keepsI simp: now_def sleep_def conserves_host)

lemma keeps_text [program_intros]:
  "keeps L (read_to_string H fd)" "keeps L (utf8_unwrap data)" "keeps L (assert_that b)"
  by (auto simp: read_to_string_def utf8_unwrap_def assert_that_def intro!: program_intros)

section \<open>Operations of the crate\<close>

definition op_keeps ::
  "libc \<Rightarrow> ('a \<Rightarrow> owner list) \<Rightarrow> (trace \<Rightarrow> ((io_error, 'a) result \<times> trace) option) \<Rightarrow> bool" where
  "op_keeps L owners f \<longleftrightarrow> (\<forall>tr r tr'. f tr = Some (r, tr') \<longrightarrow>
     conserves L tr [] tr' (held_fds (case r of Ok x \<Rightarrow> owners x | _ \<Rightarrow> [])))"

lemma keeps_crate_call [program_intros]:
  assumes "op_keeps L owners f"
  shows "keeps L (crate_call owners f)"
proof (rule keepsI)
  fix own tr r own' tr'
  assume "crate_call owners f own tr = Some (r, own', tr')"
  then have f: "f tr = Some (r, tr')" and o: "own' = (case r of Ok x \<Rightarrow> owners x @ own | _ \<Rightarrow> own)"
    by (auto simp: crate_call_def bind_eq_Some_conv)
  from assms f have "conserves L tr [] tr' (held_fds (case r of Ok x \<Rightarrow> owners x | _ \<Rightarrow> []))"
    by (simp add: op_keeps_def)
  from conserves_frame [OF this, of "held_fds own"] o
  show "conserves L tr (held_fds own) tr' (held_fds own')" by (cases r) simp_all
qed

lemma op_keeps_neutral:
  "(\<And>tr r tr'. f tr = Some (r, tr') \<Longrightarrow> \<exists>ev. tr' = tr @ ev \<and> neutral L ev) \<Longrightarrow> op_keeps L (\<lambda>_. []) f"
  unfolding op_keeps_def using conserves_neutral by (fastforce split: result.split)

lemma held_received: "held_fds (case r of Ok x \<Rightarrow> received_owner x | _ \<Rightarrow> []) = fds_of_received r"
  by (cases r) (simp_all add: received_owner_def)

context os_interface begin

lemma op_keeps_send [program_intros]:
  assumes "4 * length fds \<le> max_payload"
  shows "op_keeps L (\<lambda>_. []) (stream_send_fds L K sock data fds)"
proof (rule op_keeps_neutral)
  fix tr r tr'
  assume run: "stream_send_fds L K sock data fds tr = Some (r, tr')"
  show "\<exists>ev. tr' = tr @ ev \<and> neutral L ev"
    using run send_fds_sends [OF assms, of sock data tr r tr']
    by (auto simp: stream_send_fds_def validate_stream_send_def sends_def split: if_splits)
qed

lemma op_keeps_send_all [program_intros]:
  assumes "4 * length fds \<le> max_payload" "length data < 2 ^ 32"
  shows "op_keeps L (\<lambda>_. []) (stream_send_fds_all L K sock data fds)"
proof (rule op_keeps_neutral)
  fix tr r tr'
  have "length data < 2 ^ usize_bits L" using assms(2) usize_lower by linarith
  moreover assume "stream_send_fds_all L K sock data fds tr = Some (r, tr')"
  ultimately show "\<exists>ev. tr' = tr @ ev \<and> neutral L ev"
    using stream_send_fds_all_transfers assms(1) by (fastforce simp: transfers_def)
qed

lemma recv_owned_conserves:
  assumes run: "recv_owned_impl L K fd buf kind mode tr = Some (r, buf', tr')"
    and small: "4 * mode_count mode \<le> max_payload"
  shows "conserves L tr [] tr' (fds_of_received r)"
proof -
  from run obtain ret iov1 tr1 where c: "recv_core L K fd [buf] kind mode tr = Some (ret, iov1, tr1)"
    by (auto simp: recv_owned_impl_def bind_eq_Some_conv)
  with run have "tr' = tr1" by (cases ret) (auto simp: recv_owned_impl_def Let_def)
  with recv_core_contained [OF c] recv_owned_accounts [OF run small] show ?thesis
    by (simp add: conserves_def)
qed

lemma recv_into_conserves:
  assumes run: "recv_fds_into_impl L K fd buf kind mode tr = Some (r, buf', tr')"
    and small: "4 * mode_count mode \<le> max_payload"
  shows "conserves L tr [] tr' (fds_of_pair r)"
proof -
  from run obtain ret iov1 where "recv_core L K fd [buf] kind mode tr = Some (ret, iov1, tr')"
    by (auto simp: recv_fds_into_impl_def recv_fds_into_vectored_impl_def bind_eq_Some_conv)
  with recv_core_contained [OF this] recv_into_accounts [OF run small] show ?thesis
    by (simp add: conserves_def)
qed

lemma op_keeps_recv [program_intros]:
  assumes "4 * N \<le> max_payload"
  shows "op_keeps L received_owner (stream_recv_fds L K sock N)"
  unfolding op_keeps_def held_received
  using recv_owned_conserves [of sock _ Stream "UpTo N"] assms
  by (auto simp: stream_recv_fds_def bind_eq_Some_conv)

lemma op_keeps_exact_into [program_intros]:
  assumes "4 * N \<le> max_payload"
  shows "op_keeps L buffer_owner (with_buffer (stream_recv_fds_exact_into L K sock N buf))"
  unfolding op_keeps_def
proof (intro allI impI)
  fix tr r tr'
  assume "with_buffer (stream_recv_fds_exact_into L K sock N buf) tr = Some (r, tr')"
  then obtain ret buf' where run: "recv_fds_into_impl L K sock buf Stream (Exact N) tr = Some (ret, buf', tr')"
    and r: "r = and_then ret (\<lambda>(n, fds). Ok (n, fds, buf'))"
    by (auto simp: with_buffer_def stream_recv_fds_exact_into_def bind_eq_Some_conv)
  have "held_fds (case r of Ok x \<Rightarrow> buffer_owner x | _ \<Rightarrow> []) = fds_of_pair ret"
    unfolding r by (cases ret rule: fds_of_pair.cases) (simp_all add: buffer_owner_def)
  with recv_into_conserves [OF run] assms
  show "conserves L tr [] tr' (held_fds (case r of Ok x \<Rightarrow> buffer_owner x | _ \<Rightarrow> []))" by simp
qed

end

section \<open>Asynchronous operations\<close>

lemma op_keeps_async_send [program_intros]:
  assumes "os_interface L K" "tokio_io L aio" "4 * length fds \<le> max_payload"
  shows "op_keeps L (\<lambda>_. []) (async_stream_send_fds aio L K sock data fds)"
proof (rule op_keeps_neutral)
  fix tr r tr'
  assume run: "async_stream_send_fds aio L K sock data fds tr = Some (r, tr')"
  have "aio sock Writable (\<lambda>tr. send_fds_impl L K sock data fds tr) tr = Some (r, tr') \<Longrightarrow>
      sends L data (fds_control L fds) tr r tr'"
    by (erule async_sends [OF assms(2)]) (rule os_interface.send_fds_sends [OF assms(1,3)])
  with run show "\<exists>ev. tr' = tr @ ev \<and> neutral L ev"
    by (auto simp: async_stream_send_fds_def validate_stream_send_def sends_def split: if_splits)
qed

lemma op_keeps_async_send_all [program_intros]:
  assumes "os_interface L K" "tokio_io L aio" "4 * length fds \<le> max_payload" "length data < 2 ^ 32"
  shows "op_keeps L (\<lambda>_. []) (async_stream_send_fds_all aio L K sock data fds)"
proof (rule op_keeps_neutral)
  fix tr r tr'
  have "length data < 2 ^ usize_bits L"
    using assms(4) libc_abi.usize_lower [OF os_interface_abi [OF assms(1)]] by linarith
  moreover assume "async_stream_send_fds_all aio L K sock data fds tr = Some (r, tr')"
  ultimately show "\<exists>ev. tr' = tr @ ev \<and> neutral L ev"
    using attached_send.whole_transfers [OF async_send_fds_all_attached [OF assms(1-3)]]
    by (fastforce simp: transfers_def)
qed

lemma op_keeps_async_recv [program_intros]:
  assumes os: "os_interface L K" and io: "tokio_io L aio" and small: "4 * N \<le> max_payload"
  shows "op_keeps L received_owner (async_stream_recv_fds aio L K sock N)"
  unfolding op_keeps_def held_received
proof (intro allI impI)
  fix tr r tr'
  let ?op = "\<lambda>(data_buf, tr). recv_owned_impl L K sock data_buf Stream (UpTo N) tr"
  let ?R = "\<lambda>(s :: byte list \<times> trace) (s1 :: byte list \<times> trace). conserves L (snd s) [] (snd s1) []"
  assume "async_stream_recv_fds aio L K sock N tr = Some (r, tr')"
  then obtain rest where run: "aio sock Readable ?op (replicate DEFAULT_STREAM_BUF 0, tr) = Some (r, rest, tr')"
    by (auto simp: async_stream_recv_fds_def bind_eq_Some_conv)
  have op: "conserves L (snd s) [] (snd s1) (fds_of_received r)" if "?op s = Some (r, s1)" for s r s1
    using that os_interface.recv_owned_conserves [OF os, of sock _ Stream "UpTo N"] small
    by (cases s; cases s1) auto
  have step: "?R s s1" if "?op s = Some (r, s1)" "would_block L r" for s r s1
    using op [OF that(1)] would_block_Err [OF that(2)] by auto
  have "\<exists>s1. ?R (replicate DEFAULT_STREAM_BUF 0, tr) s1
      \<and> (?op s1 = Some (r, rest, tr') \<or> (\<exists>e. r = Err e) \<and> (rest, tr') = s1)"
    by (rule tokio_io.run_induct [OF io run, of ?R])
      (simp, rule step, assumption+, rule conserves_trans)
  then obtain s1 where s1: "conserves L tr [] (snd s1) []"
    "?op s1 = Some (r, rest, tr') \<or> (\<exists>e. r = Err e) \<and> (rest, tr') = s1"
    unfolding snd_conv by blast
  from s1(2) show "conserves L tr [] tr' (fds_of_received r)"
  proof
    assume "?op s1 = Some (r, rest, tr')"
    from conserves_trans [OF s1(1) op [OF this]] show ?thesis by simp
  next
    assume "(\<exists>e. r = Err e) \<and> (rest, tr') = s1"
    with s1(1) show ?thesis by auto
  qed
qed

end
