(* ===== verification/Examples.thy ===== *)
theory Examples
  imports Host_Safety
begin

text \<open>
  \<^verbatim>\<open>examples/*.rs\<close>: the programs the crate ships, as compositions of its operations with the standard
  library. Each names its locals as the source does; output to the terminal is left out.
\<close>

section \<open>examples/pass_fd.rs\<close>

definition pass_fd_main :: "libc \<Rightarrow> kernel \<Rightarrow> host \<Rightarrow> trace \<Rightarrow> ((io_error, unit) result \<times> trace) option" where
  "pass_fd_main L K H = run_main (
     chain (socket_pair H) (\<lambda>(tx, rx).
     chain (open_one H OpenTemp) (\<lambda>file.
     chain (act H (WriteAll file (bytes ''Hello from the other side!''))) (\<lambda>_.
     chain (act H (Flush file)) (\<lambda>_.
     chain (crate_call (\<lambda>_. []) (stream_send_fds L K tx (bytes ''here's a file'') [file])) (\<lambda>_.
     chain (crate_call received_owner (stream_recv_fds L K rx 1)) (\<lambda>recv.
     chain (utf8_unwrap (rf_data recv)) (\<lambda>_.
     chain take_first (\<lambda>received.
     chain (act H (SeekStart received 0)) (\<lambda>_.
     chain (read_to_string H received) (\<lambda>contents.
     give ())))))))))))"

section \<open>examples/dep_api_check.rs\<close>

text \<open>\<^verbatim>\<open>expect\<close> on a result: an error is a panic.\<close>

definition expect_ok :: "'a prog \<Rightarrow> 'a prog" where
  "expect_ok p = chain (attempt p) (\<lambda>ret. case ret of Ok x \<Rightarrow> give x | _ \<Rightarrow> crash)"

definition dep_api_check_main ::
  "libc \<Rightarrow> kernel \<Rightarrow> host \<Rightarrow> trace \<Rightarrow> ((io_error, unit) result \<times> trace) option" where
  "dep_api_check_main L K H = run_main (
     chain (socket_pair H) (\<lambda>(tx, rx).
     chain (socket_pair H) (\<lambda>(s, keep).
     chain (expect_ok (crate_call (\<lambda>_. []) (stream_send_fds L K tx (bytes ''hello'') [s]))) (\<lambda>_.
     chain (crate_call received_owner (stream_recv_fds L K rx 1)) (\<lambda>recv.
     chain (assert_that (rf_data recv = bytes ''hello'')) (\<lambda>_.
     chain (assert_that (length (rf_fds recv) = 1)) (\<lambda>_.
     give ())))))))"

section \<open>examples/privsep.rs\<close>

definition privsep_main :: "libc \<Rightarrow> kernel \<Rightarrow> host \<Rightarrow> trace \<Rightarrow> ((io_error, unit) result \<times> trace) option" where
  "privsep_main L K H = run_main (
     chain (socket_pair H) (\<lambda>(priv_side, worker_side).
     chain (open_one H (BindTcp ''127.0.0.1:0'')) (\<lambda>listener.
     chain (query H (LocalAddr listener)) (\<lambda>addr.
     chain (crate_call (\<lambda>_. []) (stream_send_fds L K priv_side (bytes ''listener'') [listener])) (\<lambda>_.
     chain drop_latest (\<lambda>_.
     chain (crate_call received_owner (stream_recv_fds L K worker_side 1)) (\<lambda>recv.
     chain (assert_that (rf_data recv = bytes ''listener'')) (\<lambda>_.
     chain take_first (\<lambda>worker_listener.
     chain (query H (LocalAddr worker_listener)) (\<lambda>_.
     give ()))))))))))"

section \<open>examples/agent_sandbox.rs\<close>

definition agent_sandbox_main ::
  "(usize, trace) async_io \<Rightarrow> (received_fds, byte list \<times> trace) async_io \<Rightarrow> libc \<Rightarrow> kernel \<Rightarrow> host
     \<Rightarrow> trace \<Rightarrow> ((io_error, unit) result \<times> trace) option" where
  "agent_sandbox_main send_io recv_io L K H = run_main (
     chain (socket_pair H) (\<lambda>(supervisor, sandbox).
     chain (named_temp H None) (\<lambda>(path, allowed).
     chain (act H (WriteAll allowed (bytes ''data the sandboxed agent is allowed to read''))) (\<lambda>_.
     chain (act H (Flush allowed)) (\<lambda>_.
     chain (open_one H (OpenRead path)) (\<lambda>read_only.
     chain (crate_call (\<lambda>_. [])
       (async_stream_send_fds_all send_io L K supervisor (bytes ''capability'') [read_only])) (\<lambda>_.
     chain (crate_call received_owner (async_stream_recv_fds recv_io L K sandbox 1)) (\<lambda>recv.
     chain (assert_that (rf_data recv = bytes ''capability'')) (\<lambda>_.
     chain take_first (\<lambda>cap.
     chain (attempt (act H (WriteAll cap (bytes ''must be denied'')))) (\<lambda>written.
     chain (assert_that (written \<noteq> Ok ())) (\<lambda>_.
     chain (act H (SeekStart cap 0)) (\<lambda>_.
     chain (read_to_string H cap) (\<lambda>contents.
     give ()))))))))))))))"

section \<open>examples/async_pass_fd.rs\<close>

definition async_pass_fd_main ::
  "(usize, trace) async_io \<Rightarrow> (received_fds, byte list \<times> trace) async_io \<Rightarrow> libc \<Rightarrow> kernel \<Rightarrow> host
     \<Rightarrow> trace \<Rightarrow> ((io_error, unit) result \<times> trace) option" where
  "async_pass_fd_main send_io recv_io L K H = run_main (
     chain (socket_pair H) (\<lambda>(tx, rx).
     chain (open_one H OpenTemp) (\<lambda>file.
     chain (act H (WriteAll file (bytes ''Hello from an async fd!''))) (\<lambda>_.
     chain (act H (Flush file)) (\<lambda>_.
     chain (crate_call (\<lambda>_. []) (async_stream_send_fds send_io L K tx (bytes ''here's a file'') [file])) (\<lambda>_.
     chain (crate_call received_owner (async_stream_recv_fds recv_io L K rx 1)) (\<lambda>recv.
     chain (utf8_unwrap (rf_data recv)) (\<lambda>_.
     chain take_first (\<lambda>received.
     chain (act H (SeekStart received 0)) (\<lambda>_.
     chain (read_to_string H received) (\<lambda>contents.
     give ())))))))))))"

section \<open>examples/multiprocess.rs\<close>

definition CONTENTS :: "byte list" where
  "CONTENTS = bytes ''read through a descriptor from the parent'' @ [0x0A]"

text \<open>Ten seconds, in milliseconds.\<close>

definition TIMEOUT :: nat where
  "TIMEOUT = 10000"

text \<open>What the child does with the descriptor, once the marker is right.\<close>

definition use_capability :: "host \<Rightarrow> raw_fd \<Rightarrow> unit prog" where
  "use_capability H socket =
     chain pop_last (\<lambda>file.
     chain (read_to_string H file) (\<lambda>contents.
     chain (if contents \<noteq> CONTENTS then give True
            else chain (attempt (act H (WriteAll file (bytes ''must be denied'')))) (\<lambda>ret.
              give (ret = Ok ()))) (\<lambda>invalid.
     if invalid
     then fail (Custom InvalidData (Text ''invalid read-only capability''))
     else
     chain (act H (WriteAll socket (bytes ''Y''))) (\<lambda>_.
     give ()))))"

definition child_main :: "libc \<Rightarrow> kernel \<Rightarrow> host \<Rightarrow> string \<Rightarrow> unit prog" where
  "child_main L K H path = scope (
     chain (open_one H (ConnectUnix path)) (\<lambda>socket.
     chain (act H (SetReadTimeout socket TIMEOUT)) (\<lambda>_.
     chain (act H (SetWriteTimeout socket TIMEOUT)) (\<lambda>_.
     chain (crate_call buffer_owner (with_buffer (stream_recv_fds_exact_into L K socket 1 [0])))
       (\<lambda>(n, fds, marker).
     if n \<noteq> 1 \<or> marker \<noteq> bytes ''F''
     then fail (Custom InvalidData (Text ''invalid file marker''))
     else use_capability H socket)))))"

text \<open>The parent polls its listener until the child connects, exits or is late.\<close>

definition gave_up :: "host \<Rightarrow> nat \<Rightarrow> nat \<Rightarrow> bool prog" where
  "gave_up H worker deadline =
     chain (try_wait H worker) (\<lambda>status.
     if status \<noteq> None then give True else chain (now H) (\<lambda>t. give (deadline \<le> t)))"

partial_function (option) accept_loop ::
  "libc \<Rightarrow> host \<Rightarrow> raw_fd \<Rightarrow> nat \<Rightarrow> nat \<Rightarrow> owner list \<Rightarrow> trace
     \<Rightarrow> ((io_error, raw_fd) result \<times> owner list \<times> trace) option" where
  "accept_loop L H listener worker deadline own tr = do {
     (ret, own, tr) \<leftarrow> open_one H (Accept listener) own tr;
     (case ret of
        Ok socket \<Rightarrow> Some (Ok socket, own, tr)
      | Panic \<Rightarrow> Some (Panic, own, tr)
      | Err e \<Rightarrow>
          if kind_of L e = WouldBlock
          then do {
            (late, own, tr) \<leftarrow> gave_up H worker deadline own tr;
            (case late of
               Err e \<Rightarrow> Some (Err e, own, tr)
             | Panic \<Rightarrow> Some (Panic, own, tr)
             | Ok late \<Rightarrow>
                 if late then Some (Err (Custom TimedOut (Text ''child did not connect'')), own, tr)
                 else do {
                   (_, own, tr) \<leftarrow> sleep 10 own tr;
                   accept_loop L H listener worker deadline own tr }) }
          else Some (Err e, own, tr)) }"

definition serve_worker :: "libc \<Rightarrow> kernel \<Rightarrow> host \<Rightarrow> raw_fd \<Rightarrow> nat \<Rightarrow> raw_fd \<Rightarrow> unit prog" where
  "serve_worker L K H listener worker read_only = scope (
     chain (now H) (\<lambda>start.
     chain (accept_loop L H listener worker (start + TIMEOUT)) (\<lambda>socket.
     chain (act H (SetNonblocking socket False)) (\<lambda>_.
     chain (act H (SetReadTimeout socket TIMEOUT)) (\<lambda>_.
     chain (act H (SetWriteTimeout socket TIMEOUT)) (\<lambda>_.
     chain (crate_call (\<lambda>_. []) (stream_send_fds_all L K socket (bytes ''F'') [read_only])) (\<lambda>_.
     chain (query H (ReadExact socket 1)) (\<lambda>ack.
     if ack \<noteq> bytes ''Y''
     then fail (Custom InvalidData (Text ''invalid acknowledgment''))
     else give ()))))))))"

text \<open>\<^verbatim>\<open>Path::join\<close> with a relative name.\<close>

definition join_path :: "string \<Rightarrow> string \<Rightarrow> string" where
  "join_path dir name = (if dir = [] \<or> last dir = CHR ''/'' then dir @ name else dir @ ''/'' @ name)"

definition parent_main :: "libc \<Rightarrow> kernel \<Rightarrow> host \<Rightarrow> unit prog" where
  "parent_main L K H =
     chain (temp_dir H) (\<lambda>directory.
     let path = join_path directory ''channel.sock'' in
     chain (open_one H (BindUnix path)) (\<lambda>listener.
     chain (act H (SetNonblocking listener True)) (\<lambda>_.
     chain (named_temp H (Some directory)) (\<lambda>(original_path, original).
     chain (act H (WriteAll original CONTENTS)) (\<lambda>_.
     chain (open_one H (OpenRead original_path)) (\<lambda>read_only.
     chain (current_exe H) (\<lambda>exe.
     chain (spawn H exe [''--child'', path]) (\<lambda>worker.
     chain (attempt (serve_worker L K H listener worker read_only)) (\<lambda>result.
     chain (if result \<noteq> Ok () then attempt (act H (Kill worker)) else give (Ok ())) (\<lambda>_.
     chain (wait H worker) (\<lambda>success.
     chain (return_result result) (\<lambda>_.
     if \<not> success then fail (Custom Other (Text ''child failed''))
     else give ()))))))))))))"

text \<open>The arguments are those after the program's name.\<close>

definition multiprocess_main ::
  "libc \<Rightarrow> kernel \<Rightarrow> host \<Rightarrow> string list \<Rightarrow> trace \<Rightarrow> ((io_error, unit) result \<times> trace) option" where
  "multiprocess_main L K H args = run_main (
     case args of
       first # rest \<Rightarrow>
         if first = ''--child''
         then (case rest of
             [] \<Rightarrow> fail (Custom InvalidInput (Text ''missing socket path''))
           | path # _ \<Rightarrow> child_main L K H path)
         else parent_main L K H
     | [] \<Rightarrow> parent_main L K H)"

end
