(* ===== verification/Example_Safety.thy ===== *)
theory Example_Safety
  imports Examples
begin

text \<open>
  The example programs close what they open and receive, on every path: the balance passes
  through their combinators, their accept loop and the crate's operations.
\<close>

section \<open>Every descriptor is accounted for\<close>

lemma length_bytes [simp]: "length (bytes s) = length s"
  by (simp add: bytes_def)

lemma keeps_expect_ok [program_intros]: "keeps L p \<Longrightarrow> keeps L (expect_ok p)"
  unfolding expect_ok_def by (auto intro!: program_intros split: result.split)

context program_relation begin

text \<open>So it passes through the accept loop, however often it goes round.\<close>

lemma obeys_gave_up:
  assumes "obeys R panics (try_wait H worker)" "obeys R panics (now H)"
  shows "obeys R panics (gave_up H worker deadline)"
  unfolding gave_up_def by (intro obeys_intros assms)

text \<open>A round of the accept loop, whatever \<open>rec\<close> goes on with: it ends there, or sleeps and goes on.\<close>

lemma accept_round:
  assumes accept: "obeys R panics (open_one H (Accept listener))"
    and wait: "obeys R panics (try_wait H worker)" and now: "obeys R panics (now H)"
    and sleep: "obeys R panics (sleep 10)"
    and eq: "(do {
      (ret, own, tr) \<leftarrow> open_one H (Accept listener) own tr;
      (case ret of
         Ok socket \<Rightarrow> Some (Ok socket, own, tr)
       | Panic \<Rightarrow> Some (Panic, own, tr)
       | Err e \<Rightarrow>
           if kind_of L e = WouldBlock
           then do {
             (late, own, tr) \<leftarrow> gave_up H worker deadline own tr;
             (case late of
                Err e \<Rightarrow> Some (Err e, own, tr)
              | Panic \<Rightarrow> Some (Panic, own, tr)
              | Ok late \<Rightarrow>
                  if late then Some (Err (Custom TimedOut (Text ''child did not connect'')), own, tr)
                  else do {
                    (_, own, tr) \<leftarrow> sleep 10 own tr;
                    rec L H listener worker deadline own tr }) }
           else Some (Err e, own, tr)) }) = Some x"
  shows "(R (own, tr) (snd x) \<and> (fst x = Panic \<longrightarrow> panics))
    \<or> (\<exists>own1 tr1. R (own, tr) (own1, tr1) \<and> rec L H listener worker deadline own1 tr1 = Some x)"
proof -
  from eq obtain ret own1 tr1 where a: "open_one H (Accept listener) own tr = Some (ret, own1, tr1)"
    by (auto simp: bind_eq_Some_conv)
  note accepted = obeysD [OF accept a]
  show ?thesis
  proof (cases "\<exists>e. ret = Err e \<and> kind_of L e = WouldBlock")
    case False
    with eq a accepted show ?thesis by (cases ret) auto
  next
    case True
    with eq a obtain late own2 tr2 where g: "gave_up H worker deadline own1 tr1 = Some (late, own2, tr2)"
      by (auto simp: bind_eq_Some_conv)
    from accepted obeysD [OF obeys_gave_up [OF wait now] g]
    have waited: "R (own, tr) (own2, tr2)" "late = Panic \<longrightarrow> panics" by (blast intro: trans)+
    show ?thesis
    proof (cases "late = Ok False")
      case False
      with eq a g True waited show ?thesis by (cases late) auto
    next
      case again: True
      obtain own3 tr3 where s: "sleep 10 own2 tr2 = Some (Ok (), own3, tr3)" by (simp add: sleep_def)
      with eq a g True again have "rec L H listener worker deadline own3 tr3 = Some x" by auto
      with waited(1) obeysD [OF sleep s] show ?thesis by (blast intro: trans)
    qed
  qed
qed

lemma obeys_accept_loop:
  assumes accept: "obeys R panics (open_one H (Accept listener))"
    and wait: "obeys R panics (try_wait H worker)" and now: "obeys R panics (now H)"
    and sleep: "obeys R panics (sleep 10)"
  shows "obeys R panics (accept_loop L H listener worker deadline)"
proof (rule obeysI)
  fix own tr r own' tr'
  assume run: "accept_loop L H listener worker deadline own tr = Some (r, own', tr')"
  let ?P = "\<lambda>L H' l w d own tr x. H' = H \<longrightarrow> l = listener \<longrightarrow> w = worker \<longrightarrow>
    R (own, tr) (snd x) \<and> (fst x = Panic \<longrightarrow> panics)"
  have "?P L H listener worker deadline own tr (r, own', tr')"
  proof (rule accept_loop.raw_induct [of ?P, OF _ run], intro impI, goal_cases)
    case (1 rec L H' l w d own tr x)
    from accept_round [where rec = rec, OF accept wait now sleep 1(2) [unfolded 1(3,4,5)]]
    show ?case
    proof
      assume "\<exists>own1 tr1. R (own, tr) (own1, tr1) \<and> rec L H listener worker d own1 tr1 = Some x"
      then obtain own1 tr1 where *: "R (own, tr) (own1, tr1)" "rec L H listener worker d own1 tr1 = Some x"
        by blast
      from 1(1) [OF *(2)] *(1) show ?case by (blast intro: trans)
    qed
  qed
  then show "R (own, tr) (own', tr') \<and> (r = Panic \<longrightarrow> panics)" by simp
qed

end

lemma keeps_accept_loop [program_intros]: "keeps L (accept_loop L' H listener worker deadline)"
  unfolding keeps_def
  by (rule conserving.obeys_accept_loop) (simp_all add: program_intros keeps_def [symmetric])

lemma keeps_use_capability [program_intros]: "keeps L (use_capability H socket)"
  unfolding use_capability_def by (intro program_intros)

context os_interface begin

lemma keeps_pass_fd:
  "pass_fd_main L K H tr = Some (r, tr') \<Longrightarrow> conserves L tr [] tr' []"
  unfolding pass_fd_main_def
  by (erule keeps_main [rotated], intro program_intros) (simp_all add: max_payload_def)

lemma keeps_dep_api_check:
  "dep_api_check_main L K H tr = Some (r, tr') \<Longrightarrow> conserves L tr [] tr' []"
  unfolding dep_api_check_main_def
  by (erule keeps_main [rotated], intro program_intros) (simp_all add: max_payload_def)

lemma keeps_privsep:
  "privsep_main L K H tr = Some (r, tr') \<Longrightarrow> conserves L tr [] tr' []"
  unfolding privsep_main_def
  by (erule keeps_main [rotated], intro program_intros) (simp_all add: max_payload_def)

lemma keeps_child [program_intros]: "keeps L (child_main L K H path)"
  unfolding child_main_def by (intro program_intros) (simp_all add: max_payload_def)

lemma keeps_serve_worker [program_intros]: "keeps L (serve_worker L K H listener worker read_only)"
  unfolding serve_worker_def by (intro program_intros) (simp_all add: max_payload_def)

lemma keeps_parent [program_intros]: "keeps L (parent_main L K H)"
  unfolding parent_main_def by (intro program_intros)

lemma keeps_multiprocess:
  "multiprocess_main L K H args tr = Some (r, tr') \<Longrightarrow> conserves L tr [] tr' []"
  unfolding multiprocess_main_def
  by (erule keeps_main [rotated]) (auto intro!: program_intros split: list.split)

end

lemma keeps_async:
  assumes "os_interface L K" "tokio_io L send_io" "tokio_io L recv_io"
  shows "agent_sandbox_main send_io recv_io L K H tr = Some (r, tr') \<Longrightarrow> conserves L tr [] tr' []"
    and "async_pass_fd_main send_io recv_io L K H tr = Some (r, tr') \<Longrightarrow> conserves L tr [] tr' []"
  unfolding agent_sandbox_main_def async_pass_fd_main_def
  by ((erule keeps_main [rotated], intro program_intros);
      simp add: max_payload_def assms)+

text \<open>
  C23: However an example program ends, on every error return and every failed assertion or unwrapping
  included, each descriptor it opened or received was closed exactly once and none it does not own was.
  Whenever it acts outside the crate, the spawn of the worker included, no descriptor it received is open
  without close-on-exec (provided none was when it began). Where the kernel installs descriptors at free
  numbers, none is open in the process's table when a program run from the start has ended.
\<close>
theorem examples_account:
  assumes "os_interface L K" and "tokio_io L send_io" and "tokio_io L recv_io"
    and "run = pass_fd_main L K H tr \<or> run = dep_api_check_main L K H tr \<or> run = privsep_main L K H tr
      \<or> run = multiprocess_main L K H args tr \<or> run = agent_sandbox_main send_io recv_io L K H tr
      \<or> run = async_pass_fd_main send_io recv_io L K H tr"
    and "run = Some (r, tr')"
  shows "accounted L tr [] tr' [] \<and> (\<exists>ev. tr' = tr @ ev \<and> mset (closed ev) = mset (delivered L ev)
    \<and> (exposed L tr = {} \<longrightarrow> exposed L tr' = {}
        \<and> (\<forall>pre e post. ev = pre @ SysHost e # post \<longrightarrow> exposed L (tr @ pre) = {})))
    \<and> (tr = [] \<longrightarrow> assigns_free L {} tr' \<longrightarrow> fd_table L tr' = {})"
proof -
  have "conserves L tr [] tr' []"
    using assms(4,5) os_interface.keeps_pass_fd [OF assms(1)] os_interface.keeps_dep_api_check [OF assms(1)]
      os_interface.keeps_privsep [OF assms(1)] os_interface.keeps_multiprocess [OF assms(1)]
      keeps_async [OF assms(1-3)]
    by metis
  then obtain ev where a: "accounted L tr [] tr' []" and ev: "tr' = tr @ ev" "contained L ev"
    by (auto simp: conserves_def)
  from a ev(1) have m: "mset (closed ev) = mset (delivered L ev)" by (auto simp: accounted_def)
  have x: "exposed L tr = {} \<longrightarrow> exposed L tr' = {}
      \<and> (\<forall>pre e post. ev = pre @ SysHost e # post \<longrightarrow> exposed L (tr @ pre) = {})"
  proof (intro impI conjI allI)
    assume tr: "exposed L tr = {}"
    then show "exposed L tr' = {}" unfolding ev(1) using ev(2) by (rule contained_exposed)
    fix pre e post
    assume at: "ev = pre @ SysHost e # post"
    have "guarded L {} (pre @ SysHost e # post)" using ev(2) unfolding at contained_def by blast
    then have "fold (expose L) pre {} = {}" by (rule guardedD)
    then show "exposed L (tr @ pre) = {}" using tr by simp
  qed
  from a have t: "tr = [] \<longrightarrow> assigns_free L {} tr' \<longrightarrow> fd_table L tr' = {}"
    using accounted_table(2) [of L tr' "[]"] by fastforce
  show ?thesis by (intro conjI exI [of _ ev] a ev(1) m x t)
qed

text \<open>A standard library for examples; nobody connects.\<close>

definition lonely_host :: host where
  "lonely_host = \<lparr> on_pair = (\<lambda>tr. Inr (5, 6)),
     on_open = (\<lambda>tr x. case x of Accept l \<Rightarrow> Inl (Os 103) | _ \<Rightarrow> Inr 7),
     on_named_temp = (\<lambda>tr d. Inr (''original'', 8)), on_temp_dir = (\<lambda>tr. Inr ''tmp''),
     on_action = (\<lambda>tr x. Inr ()), on_query = (\<lambda>tr q. Inr []), on_exe = (\<lambda>tr. Inr ''multiprocess''),
     on_spawn = (\<lambda>tr exe args. Inr 42), on_try_wait = (\<lambda>tr c. Inr None), on_wait = (\<lambda>tr c. Inr False),
     clock = (\<lambda>tr. 0) \<rparr>"

lemma lonely_parent:
  "\<exists>own tr'. parent_main linux64 (loopback linux64) lonely_host [] [] = Some (Err (Os 103), own, tr')"
  by (simp add: parent_main_def chain_def host_op_defs host_call_def lonely_host_def give_def attempt_def
      serve_worker_def scope_def now_def accept_loop.simps return_result_def fail_def Let_def
      kind_of.simps drop_owners_def linux64_def)

theorem examples_account_witness:
  "\<exists>tr' ev. multiprocess_main linux64 (loopback linux64) lonely_host [] [] = Some (Err (Os 103), tr')
     \<and> tr' = [] @ ev \<and> mset (closed ev) = mset (delivered linux64 ev)"
proof -
  obtain own tr1 where "parent_main linux64 (loopback linux64) lonely_host [] [] = Some (Err (Os 103), own, tr1)"
    using lonely_parent by blast
  then have run: "multiprocess_main linux64 (loopback linux64) lonely_host [] []
      = Some (Err (Os 103), drop_owners own tr1)"
    by (simp add: multiprocess_main_def run_main_def)
  from examples_account [where H = lonely_host and tr = "[]" and args = "[]",
      OF linux64_loopback.os_interface_axioms polling.tokio_io_axioms polling.tokio_io_axioms _ run] run
  show ?thesis by auto
qed

end
