(* ===== verification/Worker_Props.thy ===== *)
theory Worker_Props
  imports Example_Safety
begin

text \<open>
  The two sides of \<^verbatim>\<open>examples/multiprocess.rs\<close>: the parent waits for the worker it starts on every
  path, and the worker acknowledges only what it has checked.
\<close>

section \<open>The parent waits for its worker\<close>

datatype child_event = Started nat | Killed nat | Waited nat "io_error + bool"

fun life_of :: "syscall \<Rightarrow> child_event list" where
  "life_of (SysHost (HSpawn exe args (Inr c))) = [Started c]"
| "life_of (SysHost (HDo (Kill c) x)) = [Killed c]"
| "life_of (SysHost (HWait c w)) = [Waited c w]"
| "life_of _ = []"

definition life :: "trace \<Rightarrow> child_event list" where
  "life tr = concat (map life_of tr)"

lemma life_simps [simp]:
  "life [] = []" "life (e # tr) = life_of e @ life tr" "life (tr @ tr') = life tr @ life tr'"
  by (simp_all add: life_def)

lemma life_neutral: "neutral L ev \<Longrightarrow> life ev = []"
proof (induction ev)
  case (Cons e ev)
  then show ?case by (cases e) auto
qed simp

lemma life_drop_owners [simp]: "life (concat (map drop_owner own)) = []"
proof (induction own)
  case (Cons x own)
  have "life (map SysClose fds) = []" for fds by (induction fds) simp_all
  with Cons show ?case by (cases x) simp_all
qed simp

fun uneventful :: "point \<Rightarrow> point \<Rightarrow> bool" where
  "uneventful (own, tr) (own', tr') \<longleftrightarrow> (\<exists>ev. tr' = tr @ ev \<and> life ev = [])"

interpretation calm: program_relation uneventful
proof
  show "uneventful s s" for s by (cases s) simp
  show "uneventful s1 s3" if "uneventful s1 s2" "uneventful s2 s3" for s1 s2 s3
    using that by (cases s1; cases s2; cases s3) fastforce
qed

lemma calm_host_call:
  assumes "\<And>a. life_of (SysHost (event a)) = []"
  shows "obeys uneventful False (host_call answer event owners)"
proof (rule obeysI)
  fix own tr r own' tr'
  assume "host_call answer event owners own tr = Some (r, own', tr')"
  then have "r = outcome (answer tr)" "tr' = tr @ [SysHost (event (answer tr))]"
    by (simp_all add: host_call_def Let_def)
  with assms show "uneventful (own, tr) (own', tr') \<and> (r = Panic \<longrightarrow> False)"
    by (cases "answer tr") simp_all
qed

lemma calm_host:
  "obeys uneventful False (open_one H x)" "obeys uneventful False (named_temp H dir)"
  "obeys uneventful False (temp_dir H)" "obeys uneventful False (query H q)"
  "obeys uneventful False (current_exe H)" "obeys uneventful False (try_wait H c)"
  unfolding host_op_defs
  by (intro calm.obeys_chain calm.obeys_prod calm.obeys_plain calm_host_call; simp)+

lemma calm_act: "\<forall>c. a \<noteq> Kill c \<Longrightarrow> obeys uneventful False (act H a)"
  unfolding act_def by (rule calm_host_call) (cases a; simp)

lemma calm_time: "obeys uneventful False (now H)" "obeys uneventful False (sleep ms)"
  by (auto intro!: obeysI simp: now_def sleep_def)

lemma calm_scope: "obeys uneventful False p \<Longrightarrow> obeys uneventful False (scope p)"
proof (rule obeysI)
  fix own tr r own' tr'
  assume p: "obeys uneventful False p" and "scope p own tr = Some (r, own', tr')"
  then obtain inner tr1 where run: "p [] tr = Some (r, inner, tr1)" and t: "tr' = drop_owners inner tr1"
    by (auto simp: scope_def bind_eq_Some_conv)
  from obeysD [OF p run] t show "uneventful (own, tr) (own', tr') \<and> (r = Panic \<longrightarrow> False)"
    by (auto simp: drop_owners_def)
qed

lemmas calm_intros = calm_host calm_act calm_time calm_scope calm.obeys_intros calm.obeys_accept_loop

context os_interface begin

lemma calm_send_all:
  assumes "4 * length fds \<le> max_payload" "length data < 2 ^ 32"
  shows "obeys uneventful False (crate_call (\<lambda>_. []) (stream_send_fds_all L K sock data fds))"
proof (rule obeysI)
  fix own tr r own' tr'
  assume "crate_call (\<lambda>_. []) (stream_send_fds_all L K sock data fds) own tr = Some (r, own', tr')"
  then have run: "stream_send_fds_all L K sock data fds tr = Some (r, tr')"
    by (auto simp: crate_call_def bind_eq_Some_conv)
  have "length data < 2 ^ usize_bits L" using assms(2) usize_lower by linarith
  from stream_send_fds_all_transfers [OF run assms(1) this] obtain ev where
    "tr' = tr @ ev" "neutral L ev" "r \<noteq> Panic" unfolding transfers_def by blast
  with life_neutral show "uneventful (own, tr) (own', tr') \<and> (r = Panic \<longrightarrow> False)" by auto
qed

lemma calm_serve_worker: "obeys uneventful False (serve_worker L K H listener worker read_only)"
  unfolding serve_worker_def by (intro calm_intros calm_send_all) (simp_all add: max_payload_def)

end

text \<open>What a program does to its children, with a rule for sequencing.\<close>

definition yields :: "'a prog \<Rightarrow> ((io_error, 'a) result \<Rightarrow> child_event list \<Rightarrow> bool) \<Rightarrow> bool" where
  "yields p Q \<longleftrightarrow> (\<forall>own tr r own' tr'. p own tr = Some (r, own', tr') \<longrightarrow>
     (\<exists>ev. tr' = tr @ ev \<and> Q r (life ev)))"

lemma yieldsI:
  "(\<And>own tr r own' tr'. p own tr = Some (r, own', tr') \<Longrightarrow> \<exists>ev. tr' = tr @ ev \<and> Q r (life ev)) \<Longrightarrow> yields p Q"
  by (simp add: yields_def)

lemma yieldsD: "yields p Q \<Longrightarrow> p own tr = Some (r, own', tr') \<Longrightarrow> \<exists>ev. tr' = tr @ ev \<and> Q r (life ev)"
  unfolding yields_def by blast

lemma yields_mono: "yields p P \<Longrightarrow> (\<And>r l. P r l \<Longrightarrow> Q r l) \<Longrightarrow> yields p Q"
  unfolding yields_def by blast

lemma yields_calm: "obeys uneventful False p \<Longrightarrow> yields p (\<lambda>r l. r \<noteq> Panic \<and> l = [])"
  by (rule yieldsI) (drule (1) obeysD, auto)

lemma yields_attempt: "obeys uneventful False p \<Longrightarrow> yields (attempt p) (\<lambda>r l. (\<exists>x. r = Ok x \<and> x \<noteq> Panic) \<and> l = [])"
proof (rule yieldsI)
  fix own tr r own' tr'
  assume p: "obeys uneventful False p" and "attempt p own tr = Some (r, own', tr')"
  then obtain ret where run: "p own tr = Some (ret, own', tr')"
    and "r = (case ret of Panic \<Rightarrow> Panic | _ \<Rightarrow> Ok ret)"
    by (auto simp: attempt_def bind_eq_Some_conv)
  with obeysD [OF p run] show "\<exists>ev. tr' = tr @ ev \<and> (\<exists>x. r = Ok x \<and> x \<noteq> Panic) \<and> life ev = []"
    by (cases ret) auto
qed

lemma yields_chain:
  assumes p: "yields p P"
    and f: "\<And>x l. P (Ok x) l \<Longrightarrow> yields (f x) (\<lambda>r l'. Q r (l @ l'))"
    and err: "\<And>e l. P (Err e) l \<Longrightarrow> Q (Err e) l" and panic: "\<And>l. P Panic l \<Longrightarrow> Q Panic l"
  shows "yields (chain p f) Q"
proof (rule yieldsI)
  fix own tr r own' tr'
  assume "chain p f own tr = Some (r, own', tr')"
  then obtain ret own1 tr1 where run: "p own tr = Some (ret, own1, tr1)"
    and rest: "(case ret of Ok x \<Rightarrow> f x own1 tr1 | Err e \<Rightarrow> Some (Err e, own1, tr1)
      | Panic \<Rightarrow> Some (Panic, own1, tr1)) = Some (r, own', tr')"
    by (auto simp: chain_def bind_eq_Some_conv)
  from yieldsD [OF p run] obtain ev where ev: "tr1 = tr @ ev" "P ret (life ev)" by blast
  show "\<exists>ev. tr' = tr @ ev \<and> Q r (life ev)"
  proof (cases ret)
    case (Ok x)
    with rest have "f x own1 tr1 = Some (r, own', tr')" by simp
    from yieldsD [OF f this] ev Ok obtain ev' where "tr' = tr1 @ ev'" "Q r (life ev @ life ev')" by blast
    with ev(1) show ?thesis by (intro exI [of _ "ev @ ev'"]) simp
  qed (use rest ev err panic in auto)
qed

lemma yields_chain_calm:
  "obeys uneventful False p \<Longrightarrow> (\<And>x. yields (f x) Q) \<Longrightarrow> (\<And>e. Q (Err e) []) \<Longrightarrow> yields (chain p f) Q"
  by (rule yields_chain [OF yields_calm]) auto

lemma yields_prod: "(\<And>a b. yields (f a b) Q) \<Longrightarrow> yields (case_prod f x) Q"
  by (cases x) simp

lemma yields_children:
  "yields (spawn H exe args) (\<lambda>r l. (\<exists>c. r = Ok c \<and> l = [Started c]) \<or> (\<exists>e. r = Err e) \<and> l = [])"
  "yields (wait H c) (\<lambda>r l. \<exists>w. r = outcome w \<and> l = [Waited c w])"
  "yields (attempt (act H (Kill c))) (\<lambda>r l. (\<exists>x. r = Ok x) \<and> l = [Killed c])"
proof -
  show "yields (spawn H exe args) (\<lambda>r l. (\<exists>c. r = Ok c \<and> l = [Started c]) \<or> (\<exists>e. r = Err e) \<and> l = [])"
  proof (rule yieldsI)
    fix own tr r own' tr'
    assume "spawn H exe args own tr = Some (r, own', tr')"
    then show "\<exists>ev. tr' = tr @ ev \<and> ((\<exists>c. r = Ok c \<and> life ev = [Started c]) \<or> (\<exists>e. r = Err e) \<and> life ev = [])"
      by (cases "on_spawn H tr exe args") (auto simp: spawn_def host_call_def Let_def)
  qed
  show "yields (wait H c) (\<lambda>r l. \<exists>w. r = outcome w \<and> l = [Waited c w])"
    by (rule yieldsI) (auto simp: wait_def host_call_def Let_def)
  show "yields (attempt (act H (Kill c))) (\<lambda>r l. (\<exists>x. r = Ok x) \<and> l = [Killed c])"
  proof (rule yieldsI)
    fix own tr r own' tr'
    assume "attempt (act H (Kill c)) own tr = Some (r, own', tr')"
    then show "\<exists>ev. tr' = tr @ ev \<and> (\<exists>x. r = Ok x) \<and> life ev = [Killed c]"
      by (cases "on_action H tr (Kill c)") (auto simp: attempt_def act_def host_call_def Let_def)
  qed
qed

lemma failed_unit: "r \<noteq> Panic \<Longrightarrow> r \<noteq> Ok () \<Longrightarrow> \<exists>e. r = Err e"
  by (cases r) auto

text \<open>
  The life of the worker: never started and an error; or started and waited for, with success
  exactly when it exited successfully; or killed, waited for and an error.
\<close>

definition reaped :: "(io_error, unit) result \<Rightarrow> child_event list \<Rightarrow> bool" where
  "reaped r l \<longleftrightarrow> (\<exists>e. r = Err e) \<and> l = []
     \<or> (\<exists>c w. l = [Started c, Waited c w] \<and> (r = Ok () \<longleftrightarrow> w = Inr True) \<and> r \<noteq> Panic)
     \<or> (\<exists>c w e. l = [Started c, Killed c, Waited c w] \<and> r = Err e)"

text \<open>The end of \<open>parent_main\<close>, once the worker was served.\<close>

abbreviation reap :: "host \<Rightarrow> nat \<Rightarrow> (io_error, unit) result \<Rightarrow> unit prog" where
  "reap H c result \<equiv> chain (wait H c) (\<lambda>success. chain (return_result result) (\<lambda>_.
     if \<not> success then fail (Custom Other (Text ''child failed'')) else give ()))"

abbreviation settle_worker :: "host \<Rightarrow> nat \<Rightarrow> (io_error, unit) result \<Rightarrow> unit prog" where
  "settle_worker H c result \<equiv>
     chain (if result \<noteq> Ok () then attempt (act H (Kill c)) else give (Ok ())) (\<lambda>_. reap H c result)"

lemma yields_reap:
  assumes "result \<noteq> Panic"
  shows "yields (reap H c result)
    (\<lambda>r l. \<exists>w. l = [Waited c w] \<and> r \<noteq> Panic \<and> (r = Ok () \<longleftrightarrow> w = Inr True \<and> result = Ok ()))"
proof (rule yields_chain [OF yields_children(2)], goal_cases)
  case (1 success l)
  then obtain w where w: "w = Inr success" "l = [Waited c w]"
    by (metis outcome.elims result.inject(1) result.distinct(1))
  show ?case
    by (rule yieldsI)
      (use w assms in \<open>cases result; auto simp: chain_def return_result_def fail_def give_def
        split: if_splits intro!: exI [of _ "[]"]\<close>)
next
  case (2 e l)
  then show ?case by (metis outcome.simps(2) result.distinct(1,5))
next
  case (3 l)
  then show ?case by (metis outcome.elims result.distinct(3,5))
qed

lemma yields_settle:
  assumes ok: "result \<noteq> Panic"
  shows "yields (settle_worker H c result) (\<lambda>r l. reaped r (Started c # l))"
proof (cases "result = Ok ()")
  case True
  have g: "yields (give (Ok ())) (\<lambda>r l. (\<exists>x. r = Ok x) \<and> l = [])"
    by (rule yieldsI) (simp add: give_def)
  show ?thesis
    unfolding True by simp (rule yields_chain [OF g], rule yields_mono [OF yields_reap], auto simp: reaped_def)
next
  case False
  then obtain e where e: "result = Err e" using ok by (cases result) auto
  show ?thesis
    unfolding if_P [OF False]
    by (rule yields_chain [OF yields_children(3)], rule yields_mono [OF yields_reap [OF ok]])
      (use e failed_unit in \<open>auto simp: reaped_def\<close>)
qed

context os_interface begin

lemma parent_reaps: "yields (parent_main L K H) reaped"
proof -
  have none: "reaped (Err e) []" for e by (simp add: reaped_def)
  have served: "yields (chain (attempt (serve_worker L K H listener c read_only)) (settle_worker H c))
      (\<lambda>r l. reaped r (Started c # l))" for listener c read_only
    by (rule yields_chain [OF yields_attempt [OF calm_serve_worker]]) (use yields_settle in auto)
  have spawned: "yields (chain (spawn H exe args) (\<lambda>worker.
      chain (attempt (serve_worker L K H listener worker read_only)) (settle_worker H worker))) reaped"
    for exe args listener read_only
    by (rule yields_chain [OF yields_children(1)]) (use served none in auto)
  show ?thesis
    unfolding parent_main_def Let_def
    by (intro yields_chain_calm yields_prod spawned none calm_host calm_act) simp_all
qed

end

text \<open>
  C25: The parent of \<^verbatim>\<open>multiprocess\<close> leaves no child behind: it does not panic, and once the worker is
  started it is waited for on every path, killed first when the exchange failed; the parent
  reports success exactly when the exchange and the worker succeeded.
\<close>
theorem parent_reaps_worker:
  assumes "os_interface L K" and "args = [] \<or> hd args \<noteq> ''--child''"
    and "multiprocess_main L K H args tr = Some (r, tr')"
  shows "\<exists>ev. tr' = tr @ ev \<and> reaped r (life ev)"
proof -
  from assms(2,3) obtain own tr1 where run: "parent_main L K H [] tr = Some (r, own, tr1)"
    and t: "tr' = drop_owners own tr1"
    by (auto simp: multiprocess_main_def run_main_def bind_eq_Some_conv split: list.splits)
  from yieldsD [OF os_interface.parent_reaps [OF assms(1)] run] t show ?thesis
    by (auto simp: drop_owners_def)
qed

theorem parent_reaps_worker_witness:
  "\<exists>tr'. multiprocess_main linux64 (loopback linux64) lonely_host [] [] = Some (Err (Os 103), tr')
     \<and> reaped (Err (Os 103)) (life tr')"
proof -
  obtain own tr1 where "parent_main linux64 (loopback linux64) lonely_host [] [] = Some (Err (Os 103), own, tr1)"
    using lonely_parent by blast
  then have run: "multiprocess_main linux64 (loopback linux64) lonely_host [] []
      = Some (Err (Os 103), drop_owners own tr1)"
    by (simp add: multiprocess_main_def run_main_def)
  from parent_reaps_worker [OF linux64_loopback.os_interface_axioms _ run] run show ?thesis by auto
qed

section \<open>The worker acknowledges what it checked\<close>

text \<open>Successful runs, step by step.\<close>

lemma chain_OkE:
  assumes "chain p f own tr = Some (Ok y, own', tr')"
  obtains x own1 tr1 where "p own tr = Some (Ok x, own1, tr1)" "f x own1 tr1 = Some (Ok y, own', tr')"
proof -
  from assms obtain ret own1 tr1 where p: "p own tr = Some (ret, own1, tr1)"
    by (auto simp: chain_def bind_eq_Some_conv)
  with assms that show ?thesis by (cases ret) (simp_all add: chain_def)
qed

lemma scope_OkE:
  assumes "scope p own tr = Some (Ok y, own', tr')"
  obtains inner tr1 where "p [] tr = Some (Ok y, inner, tr1)" "own' = own" "tr' = drop_owners inner tr1"
  using assms by (auto simp: scope_def bind_eq_Some_conv)

lemma host_call_OkD:
  assumes "host_call answer event owners own tr = Some (Ok x, own', tr')"
  shows "answer tr = Inr x \<and> own' = owners x @ own \<and> tr' = tr @ [SysHost (event (Inr x))]"
  using assms by (cases "answer tr") (simp_all add: host_call_def Let_def)

lemma give_OkD: "give x own tr = Some (Ok y, own', tr') \<Longrightarrow> y = x \<and> own' = own \<and> tr' = tr"
  by (simp add: give_def)

lemma act_OkD:
  "act H a own tr = Some (Ok u, own', tr') \<Longrightarrow> own' = own \<and> tr' = tr @ [SysHost (HDo a (Inr ()))]"
  unfolding act_def by (drule host_call_OkD) simp

lemma open_one_OkD:
  "open_one H x own tr = Some (Ok fd, own', tr') \<Longrightarrow> \<exists>a. fd = ucast a \<and> own' = Owned [fd] # own
     \<and> tr' = tr @ [SysHost (HOpen x (Inr a))]"
  unfolding open_one_def by (elim chain_OkE, drule host_call_OkD, drule give_OkD) auto

lemma read_to_string_OkD:
  "read_to_string H fd own tr = Some (Ok text, own', tr') \<Longrightarrow>
     own' = own \<and> tr' = tr @ [SysHost (HQuery (ReadToEnd fd) (Inr text))]"
  unfolding read_to_string_def query_def
  by (elim chain_OkE, drule host_call_OkD) (auto simp: give_def fail_def split: if_splits)

lemma write_refusedD:
  assumes "chain (attempt (act H (WriteAll fd data))) (\<lambda>ret. give (ret = Ok ())) own tr = Some (Ok False, own', tr')"
  shows "\<exists>e. own' = own \<and> tr' = tr @ [SysHost (HDo (WriteAll fd data) (Inl e))]"
  using assms by (cases "on_action H tr (WriteAll fd data)")
    (auto simp: chain_def attempt_def act_def host_call_def give_def)

text \<open>The events after the descriptor arrived, up to the end of the worker.\<close>

definition checked_transfer :: "raw_fd \<Rightarrow> raw_fd \<Rightarrow> io_error \<Rightarrow> trace" where
  "checked_transfer sock cap e =
     [SysHost (HQuery (ReadToEnd cap) (Inr CONTENTS)),
      SysHost (HDo (WriteAll cap (bytes ''must be denied'')) (Inl e)),
      SysHost (HDo (WriteAll sock (bytes ''Y'')) (Inr ())), SysClose cap, SysClose sock]"

lemma use_capability_OkD:
  assumes "use_capability H sock (Owned [cap] # own) tr = Some (Ok (), own', tr')"
  shows "\<exists>e. own' = Owned [cap] # Owned [] # own
    \<and> tr' @ [SysClose cap, SysClose sock] = tr @ checked_transfer sock cap e"
  using assms unfolding use_capability_def
  by (auto elim!: chain_OkE dest!: read_to_string_OkD act_OkD give_OkD write_refusedD
      simp: checked_transfer_def fail_def split: if_splits)

context os_interface begin

text \<open>What a successful exact receive of one descriptor into one byte got.\<close>

lemma exact_one_OkD:
  assumes "crate_call buffer_owner (with_buffer (stream_recv_fds_exact_into L K sock 1 [0])) own tr
      = Some (Ok (n, fds, marker), own', tr')"
  shows "\<exists>cap h reply pre post. fds = [cap] \<and> own' = Owned [cap] # own
    \<and> tr' = tr @ pre @ SysRecvmsg sock h (RECV_FLAGS L) (Inr reply) # post
    \<and> (n = 1 \<longrightarrow> marker = rr_data reply) \<and> rights_in L (messages_in L (rr_control reply)) = [cap]"
proof -
  from assms obtain ret buf' where w: "stream_recv_fds_exact_into L K sock 1 [0] tr = Some (ret, buf', tr')"
    and r: "and_then ret (\<lambda>(n, fds). Ok (n, fds, buf')) = Ok (n, fds, marker)"
    and own: "own' = Owned fds # own"
    by (auto simp: crate_call_def with_buffer_def bind_eq_Some_conv buffer_owner_def)
  from r have ret: "ret = Ok (n, fds)" "buf' = marker" by (auto simp: outcome_simps)
  from w obtain iov' where v: "recv_fds_into_vectored_impl L K sock [[0]] Stream (Exact 1) tr
      = Some (Ok (n, fds), iov', tr')" and m: "marker = concat iov'"
    unfolding ret by (auto simp: stream_recv_fds_exact_into_def recv_fds_into_impl_def bind_eq_Some_conv)
  from recv_vectored_OkD [OF v] obtain surplus where
    c: "recv_core L K sock [[0]] Stream (Exact 1) tr = Some (Ok (n, fds, surplus), iov', tr')" by blast
  from recv_core_OkD [OF c] obtain h reply pre post where
    t: "tr' = tr @ pre @ SysRecvmsg sock h (RECV_FLAGS L) (Inr reply) # post"
    and p: "recv_policy L Stream (Exact 1) reply = Ok (n, fds, surplus)" "iov' = scatter [[0]] (rr_data reply)"
    by blast
  from recv_core_Ok [OF c] obtain cap where fds: "fds = [cap]" and "surplus = 0"
    by (auto simp: count_ok_def length_Suc_conv)
  with recv_policy_Ok [OF p(1)] obtain rest where
    "n = length (rr_data reply)" "rights_in L (messages_in L (rr_control reply)) = cap # rest" "rest = []"
    by (cases "rights_in L (messages_in L (rr_control reply))") auto
  with t fds own m p(2) show ?thesis by (auto simp: overwrite_def)
qed

lemma child_OkD:
  assumes "child_main L K H path own tr = Some (Ok (), own', tr')"
  shows "\<exists>sock cap e h reply pre post. own' = own
    \<and> tr' = tr @ pre @ SysRecvmsg sock h (RECV_FLAGS L) (Inr reply) # post @ checked_transfer sock cap e
    \<and> rr_data reply = bytes ''F'' \<and> rights_in L (messages_in L (rr_control reply)) = [cap]"
  using assms unfolding child_main_def
proof (elim scope_OkE chain_OkE, goal_cases)
  case run: (1 inner tr9 sock own1 tr1 u2 own2 tr2 u3 own3 tr3 x own4 tr4)
  obtain n fds marker where x: "x = (n, fds, marker)" by (cases x)
  from open_one_OkD [OF run(3)] act_OkD [OF run(4)] act_OkD [OF run(5)] obtain ev where
    s: "own3 = [Owned [sock]]" "tr3 = tr @ ev" by auto
  from exact_one_OkD [OF run(6) [unfolded x]] s obtain cap h reply pre post where
    r: "own4 = [Owned [cap], Owned [sock]]"
      "tr4 = tr @ (ev @ pre) @ SysRecvmsg sock h (RECV_FLAGS L) (Inr reply) # post"
      "n = 1 \<longrightarrow> marker = rr_data reply" "rights_in L (messages_in L (rr_control reply)) = [cap]"
    by auto
  from run(7) x have "marker = bytes ''F''" "n = 1"
    and use: "use_capability H sock own4 tr4 = Some (Ok (), inner, tr9)"
    by (auto simp: fail_def split: if_splits)
  moreover from use_capability_OkD [OF use [unfolded r(1)]] obtain e where
    "inner = [Owned [cap], Owned [], Owned [sock]]"
    "tr9 @ [SysClose cap, SysClose sock] = tr4 @ checked_transfer sock cap e" by auto
  ultimately show ?case
    using run(1,2) r
    by (intro exI [of _ sock] exI [of _ cap] exI [of _ e] exI [of _ h] exI [of _ reply]
        exI [of _ "ev @ pre"] exI [of _ post]) simp
qed

end

end
