(* ===== verification/Descriptions.thy ===== *)
theory Descriptions
  imports Transfers Host_Safety
begin

unbundle bit_operations_syntax

text \<open>
  Open file descriptions. A descriptor that comes with a message has a number of the receiver's own; what
  it shares with the one that was sent is the open file. \<open>descriptions\<close> follows each open file through the
  descriptor table and through the messages under way, and \<open>assigning\<close> is a reference kernel that, as
  documented, refuses to send a number that is not open, installs what arrives at numbers that are free,
  and answers \<^verbatim>\<open>fcntl\<close> from the table.
\<close>

section \<open>Which file a descriptor stands for\<close>

text \<open>
  A file is named by the event that opened it and the number it got then; a descriptor stands for a file,
  either opened under that number or (\<open>True\<close>) passed in a message.
\<close>

type_synonym opening_event = "nat \<times> raw_fd"

type_synonym files = "raw_fd \<Rightarrow> (bool \<times> opening_event) option"

fun install :: "raw_fd list \<Rightarrow> (bool \<times> opening_event) option list \<Rightarrow> files \<Rightarrow> files" where
  "install (fd # fds) (x # xs) T = install fds xs (T(fd := x))"
| "install (fd # fds) [] T = install fds [] (T(fd := None))"
| "install [] xs T = T"

text \<open>The second component are the files in the messages that were sent and not yet taken.\<close>

fun describe ::
  "libc \<Rightarrow> nat \<Rightarrow> syscall \<Rightarrow> files \<times> opening_event option list list \<Rightarrow> files \<times> opening_event option list list" where
  "describe L i (SysSendmsg s h fl (Inr n)) (T, Q) =
     (T, Q @ [map (\<lambda>fd. map_option snd (T fd)) (rights_in L (messages_in L (control_bytes h)))])"
| "describe L i (SysRecvmsg s h fl (Inr r)) (T, Q) =
     (install (delivered_by L (SysRecvmsg s h fl (Inr r)))
        (case Q of [] \<Rightarrow> [] | xs # _ \<Rightarrow> map (map_option (Pair True)) xs) T,
      if fl AND MSG_PEEK L = 0 then tl Q else Q)"
| "describe L i (SysHost e) (T, Q) =
     (install (opened_by e) (map (\<lambda>fd. Some (False, i, fd)) (opened_by e)) T, Q)"
| "describe L i (SysClose fd) (T, Q) = (T(fd := None), Q)"
| "describe L i _ (T, Q) = (T, Q)"

fun follow ::
  "libc \<Rightarrow> nat \<Rightarrow> files \<times> opening_event option list list \<Rightarrow> trace \<Rightarrow> files \<times> opening_event option list list" where
  "follow L i s [] = s"
| "follow L i s (e # tr) = follow L (Suc i) (describe L i e s) tr"

definition descriptions :: "libc \<Rightarrow> trace \<Rightarrow> files \<times> opening_event option list list" where
  "descriptions L tr = follow L 0 (\<lambda>fd. None, []) tr"

definition file_of :: "libc \<Rightarrow> trace \<Rightarrow> raw_fd \<Rightarrow> (bool \<times> opening_event) option" where
  "file_of L tr fd = fst (descriptions L tr) fd"

lemma follow_append [simp]: "follow L i s (tr @ tr') = follow L (i + length tr) (follow L i s tr) tr'"
  by (induction tr arbitrary: i s) simp_all

text \<open>The descriptor came in a message and stands for what \<open>x\<close> opened.\<close>

definition received_file :: "libc \<Rightarrow> open_call \<Rightarrow> trace \<Rightarrow> raw_fd \<Rightarrow> bool" where
  "received_file L x tr fd \<longleftrightarrow> (\<exists>i a. file_of L tr fd = Some (True, i, ucast a) \<and> i < length tr
     \<and> tr ! i = SysHost (HOpen x (Inr a)))"

section \<open>A kernel with a descriptor table\<close>

text \<open>Linux delivers the descriptors of a message in one control message.\<close>

definition renumbered :: "libc \<Rightarrow> (trace \<Rightarrow> nat \<Rightarrow> raw_fd list) \<Rightarrow> trace \<Rightarrow> byte list \<Rightarrow> byte list" where
  "renumbered L num tr c = (case rights_in L (messages_in L c) of
     [] \<Rightarrow> c | fds \<Rightarrow> encode_cmsg L (rights_message L (num tr (length fds))))"

definition assigning :: "libc \<Rightarrow> (trace \<Rightarrow> nat \<Rightarrow> raw_fd list) \<Rightarrow> kernel" where
  "assigning L num = (loopback L)\<lparr>
     sys_sendmsg := (\<lambda>tr fd h fl.
       if set (rights_in L (messages_in L (control_bytes h))) \<subseteq> fd_table L tr
       then Inr (length (concat (s_iov h))) else Inl 9),
     sys_recvmsg := (\<lambda>tr fd h fl. case queue L tr of
       [] \<Rightarrow> Inl (EAGAIN L) | (p, c) # _ \<Rightarrow> Inr (deliver L (p, renumbered L num tr c) h)),
     sys_getfd := (\<lambda>tr fd. if fd \<in> fd_table L tr
       then Inr (if fd \<in> exposed L tr then 0 else FD_CLOEXEC L) else Inl 9),
     sys_setfd := (\<lambda>tr fd fl. if fd \<in> fd_table L tr then Inr () else Inl 9)\<rparr>"

lemma assigning_simps [simp]:
  "sys_sendmsg (assigning L num) tr fd h fl =
     (if set (rights_in L (messages_in L (control_bytes h))) \<subseteq> fd_table L tr
      then Inr (length (concat (s_iov h))) else Inl 9)"
  "sys_getfd (assigning L num) tr fd = (if fd \<in> fd_table L tr
     then Inr (if fd \<in> exposed L tr then 0 else FD_CLOEXEC L) else Inl 9)"
  "sys_setfd (assigning L num) tr fd k = (if fd \<in> fd_table L tr then Inr () else Inl 9)"
  "sys_setsockopt (assigning L num) tr fd level opt val = Inr ()"
  by (simp_all add: assigning_def)

text \<open>
  The numbers are free ones, at least as long as fewer than 1024 are in use, the number of open files the
  kernel allows the process.
\<close>

definition free_numbers :: "libc \<Rightarrow> (trace \<Rightarrow> nat \<Rightarrow> raw_fd list) \<Rightarrow> bool" where
  "free_numbers L num \<longleftrightarrow> (\<forall>tr k. card (fd_table L tr) + k \<le> 1024 \<longrightarrow>
     length (num tr k) = k \<and> distinct (num tr k) \<and> list_all (\<lambda>fd. 0 \<le> sint fd) (num tr k)
     \<and> set (num tr k) \<inter> fd_table L tr = {})"

text \<open>The lowest free numbers, as POSIX has it.\<close>

definition number :: "nat \<Rightarrow> raw_fd" where
  "number i = ucast (word_of_nat i :: open_fd)"

definition lowest_free :: "libc \<Rightarrow> trace \<Rightarrow> nat \<Rightarrow> raw_fd list" where
  "lowest_free L tr k = take k (filter (\<lambda>fd. fd \<notin> fd_table L tr) (map number [0..<1024]))"

lemma fd_table_snoc [simp]: "fd_table L (tr @ [e]) = table_step L e (fd_table L tr)"
  by (simp add: fd_table_def)

lemma fd_table_card: "finite (fd_table L tr) \<and> card (fd_table L tr) \<le> length (delivered L tr)"
proof (induction tr rule: rev_induct)
  case (snoc e tr)
  have "card (table_step L e (fd_table L tr)) \<le> card (fd_table L tr \<union> set (delivered_by L e))"
    using snoc by (intro card_mono) (auto simp: table_step_def)
  also have "\<dots> \<le> card (fd_table L tr) + card (set (delivered_by L e))" by (rule card_Un_le)
  also have "\<dots> \<le> length (delivered L tr) + length (delivered_by L e)"
    using snoc card_length [of "delivered_by L e"] by linarith
  finally show ?case using snoc by (simp add: table_step_def)
qed (simp add: fd_table_def)

lemma inj_number: "inj_on number {0..<1024}"
proof (rule inj_on_inverseI)
  fix i :: nat
  assume "i \<in> {0..<1024}"
  then show "unat (number i) = i" by (simp add: number_def unsigned_ucast_eq unsigned_of_nat take_bit_nat_eq_self)
qed

lemma free_numbers_lowest: "free_numbers L (lowest_free L)"
  unfolding free_numbers_def
proof (intro allI impI)
  fix tr k
  assume room: "card (fd_table L tr) + k \<le> 1024"
  let ?all = "map number [0..<1024]"
  let ?free = "filter (\<lambda>fd. fd \<notin> fd_table L tr) ?all"
  have d: "distinct ?all" using inj_number by (simp add: distinct_map)
  have "1024 = card (set ?all)" using d distinct_card [of ?all] by simp
  also have "\<dots> \<le> card (set ?free \<union> fd_table L tr)"
    using fd_table_card [of L tr] by (intro card_mono) auto
  also have "\<dots> \<le> card (set ?free) + card (fd_table L tr)" by (rule card_Un_le)
  also have "card (set ?free) = length ?free" using d by (intro distinct_card) simp
  finally have "k \<le> length ?free" using room by linarith
  moreover have "list_all (\<lambda>fd. 0 \<le> sint fd) ?all"
    by (simp add: list_all_iff number_def del: upt_conv_Cons)
  moreover have "set (take k ?free) \<subseteq> set ?free" by (rule set_take_subset)
  ultimately show "length (lowest_free L tr k) = k \<and> distinct (lowest_free L tr k)
      \<and> list_all (\<lambda>fd. 0 \<le> sint fd) (lowest_free L tr k) \<and> set (lowest_free L tr k) \<inter> fd_table L tr = {}"
    using d unfolding lowest_free_def by (auto simp: list_all_iff)
qed

lemma free_number:
  assumes "free_numbers L num" "length (delivered L tr) < 1024"
  obtains g where "num tr 1 = [g]" "0 \<le> sint g" "g \<notin> fd_table L tr"
proof -
  have "card (fd_table L tr) + 1 \<le> 1024" using fd_table_card [of L tr] assms(2) by linarith
  then have "length (num tr 1) = 1" "list_all (\<lambda>fd. 0 \<le> sint fd) (num tr 1)" "set (num tr 1) \<inter> fd_table L tr = {}"
    using assms(1) unfolding free_numbers_def by blast+
  then show thesis by (cases "num tr 1") (auto intro: that)
qed

section \<open>One descriptor over this kernel\<close>

text \<open>One message is waiting, with one descriptor.\<close>

definition waiting :: "libc \<Rightarrow> trace \<Rightarrow> byte list \<Rightarrow> raw_fd \<Rightarrow> bool" where
  "waiting L tr data fd \<longleftrightarrow> queue L tr = [(data, encode_cmsg L (rights_message L [fd]))]"

lemma one_right:
  assumes "libc_abi L" "0 \<le> sint fd"
  shows "messages_in L (encode_cmsg L (rights_message L [fd])) = [rights_message L [fd]]"
    and "rights_in L (messages_in L (encode_cmsg L (rights_message L [fd]))) = [fd]"
    and "pidfds_in L (messages_in L (encode_cmsg L (rights_message L [fd]))) = []"
    and "delivered_in L (encode_cmsg L (rights_message L [fd])) = [fd]"
    and "is_rights L (rights_message L [fd])" "rights L (rights_message L [fd]) = [fd]"
  using libc_abi.parse_encode [OF assms(1), of "[rights_message L [fd]]"] libc_abi.message_kinds [OF assms(1)]
    rights_of_rights_message [of L "[fd]"] assms(2)
  by (simp_all add: max_payload_def delivered_in_def)

lemma renumbered_one:
  "libc_abi L \<Longrightarrow> 0 \<le> sint fd \<Longrightarrow> num tr 1 = [g] \<Longrightarrow>
     renumbered L num tr (encode_cmsg L (rights_message L [fd])) = encode_cmsg L (rights_message L [g])"
  by (simp add: renumbered_def one_right)

lemma assigning_send:
  assumes "libc_abi L" "cfg_cloexec L" "fd \<in> fd_table L tr" "0 \<le> sint fd"
  shows "send_fds_impl L (assigning L num) a data [fd] tr = Some (Ok (length data), tr @ sent_once L a data [fd])"
  by (rule accepted_send_impl [OF assms(1,2)]) (simp_all add: assms one_right max_payload_def)

text \<open>The event of a receive of one descriptor, at the number \<open>g\<close>.\<close>

definition received_once :: "libc \<Rightarrow> raw_fd \<Rightarrow> recv_hdr \<Rightarrow> byte list \<Rightarrow> raw_fd \<Rightarrow> syscall" where
  "received_once L b h data g =
     SysRecvmsg b h (RECV_FLAGS L) (Inr (whole_reply data (encode_cmsg L (rights_message L [g]))))"

lemma assigning_owned:
  assumes linux: "linux_abi L" and "waiting L tr data fd" "0 \<le> sint fd" "num tr 1 = [g]" "0 \<le> sint g"
    and "length data \<le> DEFAULT_STREAM_BUF"
  shows "\<exists>rest h. recv_owned_impl L (assigning L num) b (replicate DEFAULT_STREAM_BUF 0) Stream (UpTo 1) tr
    = Some (Ok \<lparr> rf_data = data, rf_fds = [g], rf_surplus_closed = 0 \<rparr>, rest, tr @ [received_once L b h data g])"
proof -
  let ?buf = "replicate DEFAULT_STREAM_BUF 0" and ?c = "encode_cmsg L (rights_message L [g])"
  have abi: "libc_abi L" and native: "cfg_cloexec L"
    using linux cfg_linux_cloexec by (simp_all add: linux_abi_def linux_abi_axioms_def)
  have offer: "offers L (assigning L num) b [?buf] data ?c tr"
    using assms(2) native renumbered_one [where num = num, OF abi assms(3,4)]
    by (simp add: offers_def assigning_def waiting_def)
  obtain sz where "control_size L 253 = Ok sz" "sz \<le> STACK_CONTROL" "length ?c \<le> sz"
    using linux_control_room [OF linux, of "[g]"] by fastforce
  from offered_core [OF linux _ _ _ offer one_right(2,3) [OF abi assms(5)] this, of "UpTo 1"] assms(6)
  show ?thesis by (auto simp: recv_owned_impl_def take_overwrite received_once_def)
qed

lemma follow_passing [simp]:
  assumes "libc_abi L"
  shows "0 \<le> sint fd \<Longrightarrow> follow L i (T, Q) (sent_once L a data [fd]) = (T, Q @ [[map_option snd (T fd)]])"
    and "0 \<le> sint g \<Longrightarrow> describe L i (received_once L b h data g) (T, [f] # Q)
      = (T(g := map_option (Pair True) f), if RECV_FLAGS L AND MSG_PEEK L = 0 then Q else [f] # Q)"
  using sent_control [OF assms, of "[fd]"] one_right [OF assms]
  by (simp_all add: sent_once_def received_once_def whole_reply_def Let_def max_payload_def)

lemma passing_table [simp]:
  "delivered L (sent_once L a data fds) = []" "length (sent_once L a data fds) = 1"
  "fold (table_step L) (sent_once L a data fds) T = T"
  by (simp_all add: sent_once_def table_step_def Let_def)

end
