(* ===== verification/Example_Runs.thy ===== *)
theory Example_Runs
  imports Worker_Props Descriptions
begin

text \<open>
  The example programs at work: over a kernel with a descriptor table and a standard library that does
  what it is asked they succeed and use, under the number it has for the receiver, the very file that was
  sent; and they return, the accept loop of \<^verbatim>\<open>multiprocess\<close> included.
\<close>

section \<open>They return\<close>

definition returns :: "'a prog \<Rightarrow> bool" where
  "returns p \<longleftrightarrow> (\<forall>own tr. \<exists>r own' tr'. p own tr = Some (r, own', tr'))"

named_theorems return_intros \<open>pieces of program that return\<close>

lemma returnsI: "(\<And>own tr. \<exists>r own' tr'. p own tr = Some (r, own', tr')) \<Longrightarrow> returns p"
  by (simp add: returns_def)

lemma returnsD: "returns p \<Longrightarrow> \<exists>r own' tr'. p own tr = Some (r, own', tr')"
  unfolding returns_def by blast

lemma returns_plain [return_intros]:
  "returns (give x)" "returns (fail e)" "returns crash" "returns (return_result ret)"
  by (simp_all add: returns_def give_def fail_def crash_def return_result_def)

lemma returns_chain [return_intros]:
  assumes "returns p" "\<And>x. returns (f x)"
  shows "returns (chain p f)"
proof (rule returnsI)
  fix own tr
  obtain r own1 tr1 where "p own tr = Some (r, own1, tr1)" using returnsD [OF assms(1)] by blast
  then show "\<exists>r own' tr'. chain p f own tr = Some (r, own', tr')"
    using returnsD [OF assms(2)] by (cases r) (auto simp: chain_def)
qed

lemma returns_attempt [return_intros]: "returns p \<Longrightarrow> returns (attempt p)"
proof (rule returnsI)
  fix own tr
  assume "returns p"
  then show "\<exists>r own' tr'. attempt p own tr = Some (r, own', tr')"
    using returnsD [of p own tr] by (auto simp: attempt_def)
qed

lemma returns_scope [return_intros]: "returns p \<Longrightarrow> returns (scope p)"
proof (rule returnsI)
  fix own tr
  assume "returns p"
  then show "\<exists>r own' tr'. scope p own tr = Some (r, own', tr')"
    using returnsD [of p "[]" tr] by (auto simp: scope_def)
qed

lemma returns_main:
  assumes "returns p"
  shows "\<exists>r tr'. run_main p tr = Some (r, tr')"
  using returnsD [OF assms, of "[]" tr] by (auto simp: run_main_def)

lemma returns_prod [return_intros]: "(\<And>a b. returns (f a b)) \<Longrightarrow> returns (case_prod f x)"
  by (cases x) simp

lemma returns_if [return_intros]: "returns p \<Longrightarrow> returns q \<Longrightarrow> returns (if b then p else q)"
  by simp

lemma returns_host_call [return_intros]: "returns (host_call answer event owners)"
  by (rule returnsI) (simp add: host_call_def Let_def)

lemma returns_host [return_intros]:
  "returns (socket_pair H)" "returns (open_one H x)" "returns (named_temp H dir)" "returns (temp_dir H)"
  "returns (act H a)" "returns (query H q)" "returns (current_exe H)" "returns (spawn H exe args)"
  "returns (try_wait H c)" "returns (wait H c)" "returns (read_to_string H fd)"
  "returns (utf8_unwrap data)" "returns (assert_that b)" "returns (now H)" "returns (sleep ms)"
  unfolding host_op_defs read_to_string_def utf8_unwrap_def assert_that_def now_def sleep_def
  by (intro return_intros | rule returnsI, simp)+

lemma returns_owners [return_intros]: "returns take_first" "returns pop_last" "returns drop_latest"
proof -
  show "returns take_first"
  proof (rule returnsI)
    fix own tr
    show "\<exists>r own' tr'. take_first own tr = Some (r, own', tr')"
      by (cases "(own, tr)" rule: take_first.cases) auto
  qed
  show "returns pop_last"
  proof (rule returnsI)
    fix own tr
    show "\<exists>r own' tr'. pop_last own tr = Some (r, own', tr')"
      by (cases "(own, tr)" rule: pop_last.cases) auto
  qed
  show "returns drop_latest"
  proof (rule returnsI)
    fix own tr
    show "\<exists>r own' tr'. drop_latest own tr = Some (r, own', tr')"
      by (cases "(own, tr)" rule: drop_latest.cases) auto
  qed
qed

text \<open>Time passes: the clock never goes back, and a sleep takes at least what it was asked for.\<close>

definition ticking :: "host \<Rightarrow> bool" where
  "ticking H \<longleftrightarrow> (\<forall>tr ev. clock H tr \<le> clock H (tr @ ev))
     \<and> (\<forall>tr ms. clock H tr + ms \<le> clock H (tr @ [SysHost (HSleep ms)]))"

lemma returns_gave_up [return_intros]: "returns (gave_up H worker deadline)"
  unfolding gave_up_def by (intro return_intros)

lemma gave_up_False:
  assumes "gave_up H worker deadline own tr = Some (Ok False, own', tr')"
  shows "\<exists>ev. tr' = tr @ ev \<and> clock H (tr @ [SysHost (HTryWait worker (Inr None))]) < deadline"
  using assms unfolding gave_up_def
  by (cases "on_try_wait H tr worker")
    (auto simp: chain_def try_wait_def host_call_def give_def now_def split: if_splits)

text \<open>Each round sleeps ten milliseconds nearer to the deadline.\<close>

lemma accept_loop_returns:
  assumes tick: "ticking H"
  shows "\<exists>r own' tr'. accept_loop L H listener worker deadline own tr = Some (r, own', tr')"
proof (induction "deadline - clock H tr" arbitrary: own tr rule: less_induct)
  case less
  obtain ret own1 tr1 where a: "open_one H (Accept listener) own tr = Some (ret, own1, tr1)"
    using returnsD [OF returns_host(2)] by blast
  obtain late own2 tr2 where g: "gave_up H worker deadline own1 tr1 = Some (late, own2, tr2)"
    using returnsD [OF returns_gave_up] by blast
  show ?case
  proof (cases "\<exists>e. ret = Err e \<and> kind_of L e = WouldBlock \<and> late = Ok False")
    case False
    with a g show ?thesis
      by (subst accept_loop.simps) (cases ret; cases late; auto)
  next
    case True
    then obtain e where e: "ret = Err e" "kind_of L e = WouldBlock" "late = Ok False" by blast
    let ?tr3 = "tr2 @ [SysHost (HSleep 10)]"
    from a obtain ev1 where t1: "tr1 = tr @ ev1"
      by (auto simp: open_one_def chain_def host_call_def give_def Let_def split: sum.splits)
    from gave_up_False [OF g [unfolded e]] obtain ev2 where
      t2: "tr2 = tr1 @ ev2" "clock H (tr1 @ [SysHost (HTryWait worker (Inr None))]) < deadline" by blast
    have "clock H tr \<le> clock H tr1" "clock H tr1 \<le> clock H tr2" "clock H tr2 + 10 \<le> clock H ?tr3"
      "clock H tr1 \<le> clock H (tr1 @ [SysHost (HTryWait worker (Inr None))])"
      using tick t1 t2(1) unfolding ticking_def by blast+
    with t2(2) have "deadline - clock H ?tr3 < deadline - clock H tr" by linarith
    from less [OF this] obtain r own' tr' where
      "accept_loop L H listener worker deadline own2 ?tr3 = Some (r, own', tr')" by blast
    with a g e show ?thesis by (subst accept_loop.simps) (simp add: sleep_def)
  qed
qed

lemma returns_accept_loop [return_intros]: "ticking H \<Longrightarrow> returns (accept_loop L H listener worker deadline)"
  by (rule returnsI) (rule accept_loop_returns)

lemma returns_crate_call:
  assumes "\<And>tr. \<exists>r tr'. f tr = Some (r, tr')"
  shows "returns (crate_call owners f)"
proof (rule returnsI)
  fix own tr
  show "\<exists>r own' tr'. crate_call owners f own tr = Some (r, own', tr')"
    using assms [of tr] by (auto simp: crate_call_def)
qed

lemma returns_expect_ok [return_intros]: "returns p \<Longrightarrow> returns (expect_ok p)"
  unfolding expect_ok_def by (intro return_intros) (auto intro: return_intros split: result.split)

lemma returns_use_capability [return_intros]: "returns (use_capability H socket)"
  unfolding use_capability_def by (intro return_intros)

context os_interface begin

lemma returns_sends [return_intros]:
  assumes "send_progress L K" "4 * length fds \<le> max_payload"
  shows "returns (crate_call (\<lambda>_. []) (stream_send_fds L K sock data fds))"
    and "length data < 2 ^ 32 \<Longrightarrow> returns (crate_call (\<lambda>_. []) (stream_send_fds_all L K sock data fds))"
proof -
  show "returns (crate_call (\<lambda>_. []) (stream_send_fds L K sock data fds))"
    by (rule returns_crate_call)
      (use send_fds_impl_returns [OF assms] in \<open>auto simp: stream_send_fds_def validate_stream_send_def\<close>)
  assume "length data < 2 ^ 32"
  then have "length data < 2 ^ usize_bits L" using usize_lower by linarith
  from stream_send_fds_all_returns [OF assms this]
  show "returns (crate_call (\<lambda>_. []) (stream_send_fds_all L K sock data fds))"
    by (rule returns_crate_call)
qed

lemma returns_receives [return_intros]:
  assumes "recv_progress L K"
  shows "returns (crate_call received_owner (stream_recv_fds L K sock N))"
    and "returns (crate_call buffer_owner (with_buffer (stream_recv_fds_exact_into L K sock N buf)))"
proof -
  show "returns (crate_call received_owner (stream_recv_fds L K sock N))"
  proof (rule returns_crate_call)
    fix tr
    from recv_core_returns [OF assms, of sock "[replicate DEFAULT_STREAM_BUF 0]" Stream "UpTo N" tr]
    obtain r iov' tr' where
      "recv_core L K sock [replicate DEFAULT_STREAM_BUF 0] Stream (UpTo N) tr = Some (r, iov', tr')" by blast
    then show "\<exists>r tr'. stream_recv_fds L K sock N tr = Some (r, tr')"
      by (cases r) (auto simp: stream_recv_fds_def recv_owned_impl_def Let_def)
  qed
  show "returns (crate_call buffer_owner (with_buffer (stream_recv_fds_exact_into L K sock N buf)))"
  proof (rule returns_crate_call)
    fix tr
    from recv_core_returns [OF assms, of sock "[buf]" Stream "Exact N" tr]
    show "\<exists>r tr'. with_buffer (stream_recv_fds_exact_into L K sock N buf) tr = Some (r, tr')"
      by (auto simp: with_buffer_def stream_recv_fds_exact_into_def recv_fds_into_impl_def
          recv_fds_into_vectored_impl_def)
  qed
qed

lemma returns_child [return_intros]: "recv_progress L K \<Longrightarrow> returns (child_main L K H path)"
  unfolding child_main_def by (intro return_intros)

lemma returns_serve_worker [return_intros]:
  "send_progress L K \<Longrightarrow> ticking H \<Longrightarrow> returns (serve_worker L K H listener worker read_only)"
  unfolding serve_worker_def by (intro return_intros) (simp_all add: max_payload_def)

lemma returns_parent [return_intros]: "send_progress L K \<Longrightarrow> ticking H \<Longrightarrow> returns (parent_main L K H)"
  unfolding parent_main_def Let_def by (intro return_intros)

end

text \<open>
  C27: The blocking example programs return, however the calls they make fare: the accept loop of
  \<^verbatim>\<open>multiprocess\<close> ends because every round sleeps ten milliseconds nearer to its deadline. Assumed
  are only that the kernel does not interrupt one call for ever and that the clock ticks.
\<close>
theorem examples_return:
  assumes "os_interface L K" and "send_progress L K" and "recv_progress L K" and "ticking H"
  shows "(\<exists>r tr'. multiprocess_main L K H args tr = Some (r, tr'))
    \<and> (\<exists>r tr'. pass_fd_main L K H tr = Some (r, tr'))
    \<and> (\<exists>r tr'. dep_api_check_main L K H tr = Some (r, tr'))
    \<and> (\<exists>r tr'. privsep_main L K H tr = Some (r, tr'))"
proof (intro conjI)
  note intros = return_intros os_interface.returns_sends [OF assms(1,2)]
    os_interface.returns_receives [OF assms(1,3)]
  show "\<exists>r tr'. multiprocess_main L K H args tr = Some (r, tr')"
    unfolding multiprocess_main_def
    by (rule returns_main) (auto split: list.split intro: return_intros
        os_interface.returns_child [OF assms(1,3)] os_interface.returns_parent [OF assms(1,2,4)])
  show "\<exists>r tr'. pass_fd_main L K H tr = Some (r, tr')"
    unfolding pass_fd_main_def by (rule returns_main, intro intros) (simp add: max_payload_def)
  show "\<exists>r tr'. dep_api_check_main L K H tr = Some (r, tr')"
    unfolding dep_api_check_main_def by (rule returns_main, intro intros) (simp add: max_payload_def)
  show "\<exists>r tr'. privsep_main L K H tr = Some (r, tr')"
    unfolding privsep_main_def by (rule returns_main, intro intros) (simp add: max_payload_def)
qed

text \<open>Nobody connects and nothing fails; the clock shows the time slept.\<close>

fun slept :: "syscall \<Rightarrow> nat" where
  "slept (SysHost (HSleep ms)) = ms"
| "slept _ = 0"

definition patient_host :: host where
  "patient_host = lonely_host\<lparr> on_open := (\<lambda>tr x. case x of Accept l \<Rightarrow> Inl (Os 11) | _ \<Rightarrow> Inr 7),
     clock := (\<lambda>tr. sum_list (map slept tr)) \<rparr>"

lemma ticking_patient: "ticking patient_host"
  by (simp add: ticking_def patient_host_def)

theorem examples_return_witness:
  "\<exists>r tr'. multiprocess_main linux64 (loopback linux64) patient_host [] [] = Some (r, tr')"
  using examples_return [OF linux64_loopback.os_interface_axioms loopback_progress ticking_patient] by blast

section \<open>They succeed\<close>

text \<open>
  A program reaches success in a state that satisfies \<open>Q\<close>; one rule per step, for a standard library
  that does what it is asked and the reference socket.
\<close>

definition achieves :: "'a prog \<Rightarrow> owner list \<Rightarrow> trace \<Rightarrow> ('a \<Rightarrow> owner list \<Rightarrow> trace \<Rightarrow> bool) \<Rightarrow> bool" where
  "achieves p own tr Q \<longleftrightarrow> (\<exists>x own' tr'. p own tr = Some (Ok x, own', tr') \<and> Q x own' tr')"

lemma achieves_plain:
  "Q x own tr \<Longrightarrow> achieves (give x) own tr Q"
  "valid_utf8 data \<Longrightarrow> Q1 data own tr \<Longrightarrow> achieves (utf8_unwrap data) own tr Q1"
  "b \<Longrightarrow> Q2 () own tr \<Longrightarrow> achieves (assert_that b) own tr Q2"
  "Q3 fd (Owned [fd] # own) tr \<Longrightarrow> achieves take_first (Owned [fd] # own) tr Q3"
  "Q2 () own (drop_owners [y] tr) \<Longrightarrow> achieves drop_latest (y # own) tr Q2"
  by (simp_all add: achieves_def give_def utf8_unwrap_def assert_that_def)

lemma achieves_chain:
  "achieves p own tr (\<lambda>x own1 tr1. achieves (f x) own1 tr1 Q) \<Longrightarrow> achieves (chain p f) own tr Q"
  by (auto simp: achieves_def chain_def)

lemma achieves_prod: "achieves (f a b) own tr Q \<Longrightarrow> achieves (case_prod f (a, b)) own tr Q"
  by simp

lemma achieves_attempt:
  "p own tr = Some (r, own', tr') \<Longrightarrow> r \<noteq> Panic \<Longrightarrow> Q r own' tr' \<Longrightarrow> achieves (attempt p) own tr Q"
  by (cases r) (simp_all add: achieves_def attempt_def)

lemma achieves_expect_ok: "achieves p own tr Q \<Longrightarrow> achieves (expect_ok p) own tr Q"
  by (auto simp: achieves_def expect_ok_def chain_def attempt_def give_def)

lemma achieves_main:
  "achieves p [] tr (\<lambda>x own tr'. x = y \<and> Q (drop_owners own tr')) \<Longrightarrow>
     \<exists>tr'. run_main p tr = Some (Ok y, tr') \<and> Q tr'"
  by (auto simp: achieves_def run_main_def)

subsection \<open>An obliging standard library\<close>

text \<open>
  Opening succeeds, and through an open descriptor so does what is asked of it (what is read is text),
  except writing when the file behind it was opened for reading only.
\<close>

fun action_fd :: "action \<Rightarrow> raw_fd option" where
  "action_fd (WriteAll fd data) = Some fd"
| "action_fd (Flush fd) = Some fd"
| "action_fd (SeekStart fd n) = Some fd"
| "action_fd (SetNonblocking fd b) = Some fd"
| "action_fd (SetReadTimeout fd ms) = Some fd"
| "action_fd (SetWriteTimeout fd ms) = Some fd"
| "action_fd (Kill pid) = None"

fun query_fd :: "query \<Rightarrow> raw_fd" where
  "query_fd (ReadToEnd fd) = fd"
| "query_fd (ReadExact fd n) = fd"
| "query_fd (LocalAddr fd) = fd"

fun is_write :: "action \<Rightarrow> bool" where
  "is_write (WriteAll fd data) = True"
| "is_write _ = False"

fun opened_read_only :: "syscall \<Rightarrow> bool" where
  "opened_read_only (SysHost (HOpen (OpenRead path) a)) = True"
| "opened_read_only _ = False"

definition refused :: "libc \<Rightarrow> trace \<Rightarrow> action \<Rightarrow> bool" where
  "refused L tr x = (case action_fd x of None \<Rightarrow> False
     | Some fd \<Rightarrow> (case file_of L tr fd of None \<Rightarrow> True
         | Some (passed, i, a) \<Rightarrow> is_write x \<and> opened_read_only (tr ! i)))"

definition obliging :: "libc \<Rightarrow> host \<Rightarrow> bool" where
  "obliging L H \<longleftrightarrow> (\<forall>tr. \<exists>a b. on_pair H tr = Inr (a, b)) \<and> (\<forall>tr x. \<exists>a. on_open H tr x = Inr a)
     \<and> (\<forall>tr d. \<exists>p a. on_named_temp H tr d = Inr (p, a))
     \<and> (\<forall>tr x. on_action H tr x = (if refused L tr x then Inl (Os 9) else Inr ()))
     \<and> (\<forall>tr q. file_of L tr (query_fd q) \<noteq> None \<longrightarrow> (\<exists>d. on_query H tr q = Inr d \<and> valid_utf8 d))"

lemma achieves_pair:
  assumes ok: "obliging L H" and step: "\<And>a b. Q (ucast a, ucast b) (Owned [ucast b] # Owned [ucast a] # own) (tr @ [SysHost (HPair (Inr (a, b)))])"
  shows "achieves (socket_pair H) own tr Q"
proof -
  obtain a b where "on_pair H tr = Inr (a, b)" using ok unfolding obliging_def by blast
  with step [of a b] show ?thesis
    by (simp add: achieves_def socket_pair_def chain_def host_call_def give_def)
qed

lemma achieves_open:
  assumes ok: "obliging L H" and step: "\<And>a. Q (ucast a) (Owned [ucast a] # own) (tr @ [SysHost (HOpen x (Inr a))])"
  shows "achieves (open_one H x) own tr Q"
proof -
  obtain a where "on_open H tr x = Inr a" using ok unfolding obliging_def by blast
  with step [of a] show ?thesis
    by (simp add: achieves_def open_one_def chain_def host_call_def give_def)
qed

lemma achieves_named_temp:
  assumes ok: "obliging L H" and step: "\<And>p a. Q (p, ucast a) (Temp p (ucast a) # own) (tr @ [SysHost (HNamedTemp d (Inr (p, a)))])"
  shows "achieves (named_temp H d) own tr Q"
proof -
  obtain p a where "on_named_temp H tr d = Inr (p, a)" using ok unfolding obliging_def by blast
  with step [of p a] show ?thesis
    by (simp add: achieves_def named_temp_def chain_def host_call_def give_def)
qed

lemma act_obliging:
  "obliging L H \<Longrightarrow> act H x own tr = Some (if refused L tr x then Err (Os 9) else Ok (), own,
     tr @ [SysHost (HDo x (if refused L tr x then Inl (Os 9) else Inr ()))])"
  by (simp add: obliging_def act_def host_call_def)

lemma achieves_act:
  "obliging L H \<Longrightarrow> \<not> refused L tr x \<Longrightarrow> Q () own (tr @ [SysHost (HDo x (Inr ()))]) \<Longrightarrow> achieves (act H x) own tr Q"
  by (simp add: achieves_def act_obliging)

lemma achieves_refused:
  "obliging L H \<Longrightarrow> refused L tr x \<Longrightarrow> Q (Err (Os 9)) own (tr @ [SysHost (HDo x (Inl (Os 9)))]) \<Longrightarrow>
     achieves (attempt (act H x)) own tr Q"
  by (rule achieves_attempt, erule act_obliging) simp_all

lemma achieves_query:
  assumes ok: "obliging L H" and is_open: "file_of L tr (query_fd q) \<noteq> None"
    and step: "\<And>d. valid_utf8 d \<Longrightarrow> Q d own (tr @ [SysHost (HQuery q (Inr d))])"
  shows "achieves (query H q) own tr Q"
proof -
  obtain d where "on_query H tr q = Inr d" "valid_utf8 d" using ok is_open unfolding obliging_def by blast
  with step [of d] show ?thesis by (simp add: achieves_def query_def host_call_def)
qed

lemma achieves_read:
  assumes ok: "obliging L H" and is_open: "file_of L tr fd \<noteq> None"
    and step: "\<And>d. valid_utf8 d \<Longrightarrow> Q d own (tr @ [SysHost (HQuery (ReadToEnd fd) (Inr d))])"
  shows "achieves (read_to_string H fd) own tr Q"
  unfolding read_to_string_def
  by (intro achieves_chain achieves_query [OF ok]) (simp_all add: is_open achieves_plain step)

lemmas achieves_host = achieves_pair achieves_open achieves_named_temp achieves_act achieves_refused
  achieves_query achieves_read

subsection \<open>An exchange over the reference socket\<close>

text \<open>What the program does beside the socket keeps the message that is waiting.\<close>

lemma queue_quiet:
  "queue L (tr @ [SysHost e]) = queue L tr" "queue L (tr @ [SysClose fd]) = queue L tr"
  "idle L (tr @ [SysHost e]) = idle L tr" "idle L []"
  by (simp_all add: queue_def idle_def)

lemma waiting_intros:
  "waiting L tr data fd \<Longrightarrow> waiting L (tr @ [SysHost e]) data fd"
  "waiting L tr data fd \<Longrightarrow> waiting L (drop_owners [Owned [fd']] tr) data fd"
  "libc_abi L \<Longrightarrow> idle L tr \<Longrightarrow> waiting L (tr @ sent_once L a data [fd]) data fd"
  using queue_sent_once [of L "[fd]" tr a data]
  by (simp_all add: waiting_def queue_quiet drop_owners_def max_payload_def)

lemma idle_intros: "idle L []" "idle L tr \<Longrightarrow> idle L (tr @ [SysHost e])"
  by (simp_all add: queue_quiet)

lemma achieves_receive:
  assumes "waiting L tr data fd" "linux_abi L" "free_numbers L num" "0 \<le> sint fd"
    and "length (delivered L tr) < 1024" "length data \<le> DEFAULT_STREAM_BUF"
    and Q: "\<And>g h. 0 \<le> sint g \<Longrightarrow>
      Q \<lparr> rf_data = data, rf_fds = [g], rf_surplus_closed = 0 \<rparr> (Owned [g] # own) (tr @ [received_once L b h data g])"
  shows "achieves (crate_call received_owner (stream_recv_fds L (assigning L num) b 1)) own tr Q"
    and "achieves (crate_call received_owner (async_stream_recv_fds (\<lambda>fd i. poll L) L (assigning L num) b 1)) own tr Q"
proof -
  obtain g where g: "num tr 1 = [g]" "0 \<le> sint g" by (rule free_number [OF assms(3,5)])
  from assigning_owned [where b = b and num = num, OF assms(2,1,4) g assms(6)] obtain rest h where
    run: "recv_owned_impl L (assigning L num) b (replicate DEFAULT_STREAM_BUF 0) Stream (UpTo 1) tr
      = Some (Ok \<lparr> rf_data = data, rf_fds = [g], rf_surplus_closed = 0 \<rparr>, rest, tr @ [received_once L b h data g])"
    by blast
  with Q [OF g(2), of h]
  show "achieves (crate_call received_owner (stream_recv_fds L (assigning L num) b 1)) own tr Q"
    by (simp add: achieves_def crate_call_def stream_recv_fds_def received_owner_def)
  from run Q [OF g(2), of h]
  show "achieves (crate_call received_owner (async_stream_recv_fds (\<lambda>fd i. poll L) L (assigning L num) b 1)) own tr Q"
    by (simp add: achieves_def crate_call_def async_stream_recv_fds_def poll_Ok received_owner_def)
qed

lemma achieves_send:
  assumes "linux_abi L" "fd \<in> fd_table L tr" "0 \<le> sint fd" "data \<noteq> []"
    and Q: "\<And>x. Q x own (tr @ sent_once L a data [fd])"
  shows "achieves (crate_call (\<lambda>_. []) (stream_send_fds L (assigning L num) a data [fd])) own tr Q"
    and "achieves (crate_call (\<lambda>_. []) (async_stream_send_fds (\<lambda>fd i. poll L) L (assigning L num) a data [fd])) own tr Q"
proof -
  have "libc_abi L" "cfg_cloexec L"
    using assms(1) cfg_linux_cloexec by (simp_all add: linux_abi_def linux_abi_axioms_def)
  from assigning_send [OF this assms(2,3), of num a data] assms(4) Q
  show "achieves (crate_call (\<lambda>_. []) (stream_send_fds L (assigning L num) a data [fd])) own tr Q"
    and "achieves (crate_call (\<lambda>_. []) (async_stream_send_fds (\<lambda>fd i. poll L) L (assigning L num) a data [fd])) own tr Q"
    by (simp_all add: achieves_def crate_call_def stream_send_fds_def async_stream_send_fds_def
        validate_stream_send_def poll_Ok)
qed

lemma achieves_async_send_all:
  assumes "linux_abi L" "fd \<in> fd_table L tr" "0 \<le> sint fd" "data \<noteq> []"
    and Q: "\<And>x. Q x own (tr @ sent_once L a data [fd])"
  shows "achieves (crate_call (\<lambda>_. []) (async_stream_send_fds_all (\<lambda>fd i. poll L) L (assigning L num) a data [fd])) own tr Q"
proof -
  have "libc_abi L" "cfg_cloexec L"
    using assms(1) cfg_linux_cloexec by (simp_all add: linux_abi_def linux_abi_axioms_def)
  from assigning_send [OF this assms(2,3), of num a data] assms(4) Q show ?thesis
    by (simp add: achieves_def crate_call_def async_stream_send_fds_all_def validate_stream_send_def
        poll_Ok async_send_rest.simps)
qed

text \<open>
  The program asked \<open>q\<close> through a descriptor that came in a message and stands for the file \<open>x\<close> opened,
  and got an answer; or tried to write through such a descriptor and was refused.
\<close>

definition asked_received :: "libc \<Rightarrow> (raw_fd \<Rightarrow> query) \<Rightarrow> open_call \<Rightarrow> trace \<Rightarrow> bool" where
  "asked_received L q x tr \<longleftrightarrow> (\<exists>pre fd d post. tr = pre @ SysHost (HQuery (q fd) (Inr d)) # post
     \<and> received_file L x pre fd)"

definition denied_received :: "libc \<Rightarrow> open_call \<Rightarrow> trace \<Rightarrow> bool" where
  "denied_received L x tr \<longleftrightarrow> (\<exists>pre fd data e post. tr = pre @ SysHost (HDo (WriteAll fd data) (Inl e)) # post
     \<and> received_file L x pre fd)"

lemma asked_receivedI:
  "received_file L x tr fd \<Longrightarrow> asked_received L q x (drop_owners own (tr @ [SysHost (HQuery (q fd) (Inr d))]))"
  unfolding asked_received_def drop_owners_def
  by (rule exI [of _ tr], rule exI [of _ fd], rule exI [of _ d], rule exI) simp

lemma denied_receivedI:
  "received_file L x tr fd \<Longrightarrow> denied_received L x (tr @ [SysHost (HDo (WriteAll fd data) (Inl e))])"
  "denied_received L x tr \<Longrightarrow> denied_received L x (tr @ [y])"
  "denied_received L x tr \<Longrightarrow> denied_received L x (drop_owners own tr)"
  unfolding denied_received_def drop_owners_def by (blast, fastforce, fastforce)

lemma utf8_text: "list_all (\<lambda>c. (of_char c :: byte) < 0x80) text \<Longrightarrow> valid_utf8 (bytes text)"
  by (rule valid_utf8_ascii) (auto simp: bytes_def list_all_iff)

lemma linux_libc: "linux_abi L \<Longrightarrow> libc_abi L"
  by (simp add: linux_abi_def)

lemma bytes_nonempty [simp]: "bytes (c # cs) \<noteq> []"
  by (simp add: bytes_def)

lemmas achieves_intros = achieves_main achieves_chain achieves_prod achieves_plain achieves_expect_ok
  linux_libc idle_intros achieves_send achieves_async_send_all conjI refl asked_receivedI denied_receivedI

lemmas history_simps = DEFAULT_STREAM_BUF_def utf8_text linux_libc drop_owners_def refused_def received_file_def
  file_of_def descriptions_def fd_table_def table_step_def nth_append

lemma pass_fd_succeeds:
  assumes L: "linux_abi L" and H: "obliging L H" and N: "free_numbers L num"
  shows "\<exists>tr'. pass_fd_main L (assigning L num) H [] = Some (Ok (), tr') \<and> asked_received L ReadToEnd OpenTemp tr'"
  unfolding pass_fd_main_def
  by (intro achieves_intros achieves_host [OF H] L achieves_receive [OF waiting_intros(3) L N])
    (auto simp: history_simps L)

lemma dep_api_check_succeeds:
  assumes L: "linux_abi L" and H: "obliging L H" and N: "free_numbers L num"
  shows "\<exists>tr'. dep_api_check_main L (assigning L num) H [] = Some (Ok (), tr') \<and> True"
  unfolding dep_api_check_main_def
  by (intro achieves_intros achieves_host [OF H] L achieves_receive [OF waiting_intros(3) L N])
    (auto simp: history_simps L)

lemma privsep_succeeds:
  assumes L: "linux_abi L" and H: "obliging L H" and N: "free_numbers L num"
  shows "\<exists>tr'. privsep_main L (assigning L num) H [] = Some (Ok (), tr')
    \<and> asked_received L LocalAddr (BindTcp ''127.0.0.1:0'') tr'"
  unfolding privsep_main_def
  by (intro achieves_intros achieves_host [OF H] L achieves_receive [OF waiting_intros(2) [OF waiting_intros(3)] L N])
    (auto simp: history_simps L)

lemma async_pass_fd_succeeds:
  assumes L: "linux_abi L" and H: "obliging L H" and N: "free_numbers L num"
  shows "\<exists>tr'. async_pass_fd_main (\<lambda>fd i. poll L) (\<lambda>fd i. poll L) L (assigning L num) H [] = Some (Ok (), tr')
    \<and> asked_received L ReadToEnd OpenTemp tr'"
  unfolding async_pass_fd_main_def
  by (intro achieves_intros achieves_host [OF H] L achieves_receive [OF waiting_intros(3) L N])
    (auto simp: history_simps L)

lemma agent_sandbox_succeeds:
  assumes L: "linux_abi L" and H: "obliging L H" and N: "free_numbers L num"
  shows "\<exists>tr'. agent_sandbox_main (\<lambda>fd i. poll L) (\<lambda>fd i. poll L) L (assigning L num) H [] = Some (Ok (), tr')
    \<and> (\<exists>path. asked_received L ReadToEnd (OpenRead path) tr' \<and> denied_received L (OpenRead path) tr')"
  unfolding agent_sandbox_main_def
  by (intro achieves_intros achieves_host [OF H] L achieves_receive [OF waiting_intros(3) L N] exI)
    (auto simp: history_simps L)

text \<open>
  C24: Over a socket that delivers what it is sent, on a Linux kernel that installs what arrives at numbers of
  its own choosing, and with a standard library that does what it is asked through descriptors that are
  open, the single-process example programs, run from the start, succeed (the asynchronous ones on a runtime that polls the
  operation at once): no assertion or unwrapping of theirs fails, and what they read from, or serve from,
  in the end is a descriptor that came in the message and stands for the very file they opened and sent;
  in \<^verbatim>\<open>agent_sandbox\<close> one that was opened for reading only, and writing through the received descriptor
  was refused.
\<close>
theorem examples_succeed:
  assumes "linux_abi L" and "obliging L H" and "free_numbers L num"
  shows "(\<exists>tr'. pass_fd_main L (assigning L num) H [] = Some (Ok (), tr')
        \<and> asked_received L ReadToEnd OpenTemp tr')
    \<and> (\<exists>tr'. async_pass_fd_main (\<lambda>fd i. poll L) (\<lambda>fd i. poll L) L (assigning L num) H [] = Some (Ok (), tr')
        \<and> asked_received L ReadToEnd OpenTemp tr')
    \<and> (\<exists>tr'. agent_sandbox_main (\<lambda>fd i. poll L) (\<lambda>fd i. poll L) L (assigning L num) H [] = Some (Ok (), tr')
        \<and> (\<exists>path. asked_received L ReadToEnd (OpenRead path) tr' \<and> denied_received L (OpenRead path) tr'))
    \<and> (\<exists>tr'. dep_api_check_main L (assigning L num) H [] = Some (Ok (), tr'))
    \<and> (\<exists>tr'. privsep_main L (assigning L num) H [] = Some (Ok (), tr')
        \<and> asked_received L LocalAddr (BindTcp ''127.0.0.1:0'') tr')"
  using pass_fd_succeeds [OF assms] async_pass_fd_succeeds [OF assms] agent_sandbox_succeeds [OF assms]
    dep_api_check_succeeds [OF assms] privsep_succeeds [OF assms]
  by blast

text \<open>An obliging standard library with empty files.\<close>

definition obliging_host :: "libc \<Rightarrow> host" where
  "obliging_host L = lonely_host\<lparr> on_open := (\<lambda>tr x. Inr 7),
     on_action := (\<lambda>tr x. if refused L tr x then Inl (Os 9) else Inr ()) \<rparr>"

lemma obliging_host: "obliging L (obliging_host L)"
  by (simp add: obliging_def obliging_host_def lonely_host_def)

theorem examples_succeed_witness:
  "\<exists>tr'. pass_fd_main linux32be (assigning linux32be (lowest_free linux32be)) (obliging_host linux32be) []
     = Some (Ok (), tr') \<and> asked_received linux32be ReadToEnd OpenTemp tr'"
  using examples_succeed [OF linux32be.linux_abi_axioms obliging_host free_numbers_lowest] by blast

section \<open>A worker that succeeds\<close>

lemma loopback_exact_one:
  assumes "waiting linux64 tr (bytes ''F'') 7"
  shows "\<exists>tr'. with_buffer (stream_recv_fds_exact_into linux64 (loopback linux64) b 1 [0]) tr
    = Some (Ok (1, [7], bytes ''F''), tr')"
proof -
  from loopback_core_rights [OF linux64.linux_abi_axioms, of "[7]" "Exact 1" "bytes ''F''" "[0]" tr "[]" b] assms
  obtain tr' where "recv_core linux64 (loopback linux64) b [[0]] Stream (Exact 1) tr
      = Some (Ok (1, [7], 0), [overwrite [0] (bytes ''F'')], tr')"
    by (auto simp: waiting_def)
  then show ?thesis
    by (simp add: with_buffer_def stream_recv_fds_exact_into_def recv_fds_into_impl_def
        recv_fds_into_vectored_impl_def overwrite_def bytes_def)
qed

text \<open>A file with the expected text, open as descriptor 7 for reading only, has been sent.\<close>

definition granted :: trace where
  "granted = [] @ sent_once linux64 5 (bytes ''F'') [7]"

definition reader_host :: host where
  "reader_host = lonely_host\<lparr> on_open := (\<lambda>tr x. Inr 9),
     on_action := (\<lambda>tr x. case x of WriteAll fd data \<Rightarrow> if fd = 7 then Inl (Os 9) else Inr () | _ \<Rightarrow> Inr ()),
     on_query := (\<lambda>tr q. Inr CONTENTS) \<rparr>"

lemma utf8_CONTENTS: "valid_utf8 CONTENTS"
  by (rule valid_utf8_ascii) (simp add: CONTENTS_def bytes_def)

lemma child_succeeds:
  "\<exists>tr'. multiprocess_main linux64 (loopback linux64) reader_host [''--child'', ''channel.sock''] granted
     = Some (Ok (), tr')"
proof -
  let ?tr = "((granted @ [SysHost (HOpen (ConnectUnix ''channel.sock'') (Inr 9))])
    @ [SysHost (HDo (SetReadTimeout 9 TIMEOUT) (Inr ()))]) @ [SysHost (HDo (SetWriteTimeout 9 TIMEOUT) (Inr ()))]"
  have "waiting linux64 ?tr (bytes ''F'') 7"
    unfolding granted_def
    by (intro waiting_intros idle_intros linux64.libc_abi_axioms)
  from loopback_exact_one [OF this, of 9] obtain tr' where
    recv: "with_buffer (stream_recv_fds_exact_into linux64 (loopback linux64) 9 1 [0]) ?tr
      = Some (Ok (1, [7], bytes ''F''), tr')" by blast
  show ?thesis
    unfolding multiprocess_main_def run_main_def child_main_def use_capability_def open_one_def act_def query_def
      read_to_string_def
    using recv
    by (simp add: scope_def chain_def host_call_def give_def crate_call_def reader_host_def lonely_host_def
        buffer_owner_def utf8_CONTENTS attempt_def granted_def Let_def)
qed

text \<open>
  C26: A worker of \<^verbatim>\<open>multiprocess\<close> that reports success has checked everything it acknowledges: it took
  one message holding the marker byte and exactly one descriptor, read the expected text through
  that descriptor, was refused to write to it, and only then acknowledged; then it closed the
  descriptor and its socket.
\<close>
theorem child_acknowledges_checked:
  assumes "os_interface L K"
    and "multiprocess_main L K H [''--child'', path] tr = Some (Ok (), tr')"
  shows "\<exists>sock cap e h reply pre post.
    tr' = tr @ pre @ SysRecvmsg sock h (RECV_FLAGS L) (Inr reply) # post @ checked_transfer sock cap e
    \<and> rr_data reply = bytes ''F'' \<and> rights_in L (messages_in L (rr_control reply)) = [cap]"
proof -
  from assms(2) obtain own tr1 where run: "child_main L K H path [] tr = Some (Ok (), own, tr1)"
    and t: "tr' = drop_owners own tr1"
    by (auto simp: multiprocess_main_def run_main_def bind_eq_Some_conv)
  from os_interface.child_OkD [OF assms(1) run] t show ?thesis by auto
qed

theorem child_acknowledges_checked_witness:
  "\<exists>tr' sock cap e ev. multiprocess_main linux64 (loopback linux64) reader_host
       [''--child'', ''channel.sock''] granted = Some (Ok (), tr')
     \<and> tr' = granted @ ev @ checked_transfer sock cap e"
proof -
  obtain tr' where run: "multiprocess_main linux64 (loopback linux64) reader_host
      [''--child'', ''channel.sock''] granted = Some (Ok (), tr')"
    using child_succeeds by blast
  from child_acknowledges_checked [OF linux64_loopback.os_interface_axioms run] obtain sock cap e h reply pre post where
    "tr' = granted @ (pre @ SysRecvmsg sock h (RECV_FLAGS linux64) (Inr reply) # post) @ checked_transfer sock cap e"
    by auto
  with run show ?thesis by blast
qed

end
