(* ===== verification/Unit_Tests.thy ===== *)
theory Unit_Tests
  imports Example_Runs
begin

unbundle bit_operations_syntax

text \<open>
  The unit tests inside \<^verbatim>\<open>src/ancillary.rs\<close> and \<^verbatim>\<open>src/platform.rs\<close>, as programs on the model: a failed
  assertion is a panic. They pass on every target, over the kernel with a descriptor table of
  \<open>Descriptions\<close>.
\<close>

section \<open>Pieces of the tests\<close>

text \<open>\<^verbatim>\<open>take_received\<close>, compiled for the tests only. A panic would drop the messages.\<close>

definition take_received ::
  "libc \<Rightarrow> byte list \<Rightarrow> trace \<Rightarrow> ((io_error, received_message list) result \<times> trace) option" where
  "take_received L bs tr = do {
     (ret, messages, tr) \<leftarrow> take_received_into L bs [] tr;
     Some (case ret of
         Ok _ \<Rightarrow> (Ok messages, tr)
       | Err e \<Rightarrow> (Err e, drop_messages messages tr)
       | Panic \<Rightarrow> (Panic, drop_messages messages tr)) }"

definition messages_owner :: "received_message list \<Rightarrow> owner list" where
  "messages_owner ms = [Owned (owned_fds ms)]"

text \<open>\<^verbatim>\<open>unwrap\<close> of a value, \<^verbatim>\<open>into_raw_fd\<close> of the value made last, and a bare system call.\<close>

definition unwrap :: "('e, 'a) result \<Rightarrow> 'a prog" where
  "unwrap ret = (case ret of Ok x \<Rightarrow> give x | _ \<Rightarrow> crash)"

fun into_raw_fd :: "unit prog" where
  "into_raw_fd (x # own) tr = Some (Ok (), own, tr)"
| "into_raw_fd [] tr = Some (Panic, [], tr)"

definition system :: "(trace \<Rightarrow> 'a \<times> trace) \<Rightarrow> 'a prog" where
  "system f own tr = (let (ret, tr) = f tr in Some (Ok ret, own, tr))"

text \<open>The C functions return \<open>-1\<close> for an error.\<close>

fun c_int :: "errno + i32 \<Rightarrow> i32" where
  "c_int (Inl e) = -1"
| "c_int (Inr x) = x"

fun raw_os_error :: "io_error \<Rightarrow> errno option" where
  "raw_os_error (Os e) = Some e"
| "raw_os_error (Custom kind msg) = None"

section \<open>The tests of src/ancillary.rs\<close>

definition oversized_cmsg_len_owns_the_descriptors_that_fit ::
  "libc \<Rightarrow> kernel \<Rightarrow> host \<Rightarrow> trace \<Rightarrow> ((io_error, unit) result \<times> trace) option" where
  "oversized_cmsg_len_owns_the_descriptors_that_fit L K H = run_main (
     chain (expect_ok (open_one H OpenTemp)) (\<lambda>raw.
     chain into_raw_fd (\<lambda>_.
     chain (return_result (buffer_size_for_rights L 3)) (\<lambda>size.
     let (added, ancillary) = add_fds L [raw, raw, raw] (new_ancillary (replicate size 0)) in
     chain (unwrap added) (\<lambda>_.
     let fits = header_len L + 4 in
     chain (return_result (slice (buffer ancillary) 0 fits)) (\<lambda>bytes.
     chain (crate_call messages_owner (take_received L bytes)) (\<lambda>messages.
     chain (assert_that (length messages = 1)) (\<lambda>_.
     let fds = msg_fds (messages ! 0) in
     chain (assert_that (length fds = 1)) (\<lambda>_.
     chain (assert_that (fds ! 0 = raw)) (\<lambda>_.
     chain drop_latest (\<lambda>_.
     chain (system (fcntl_getfd K raw)) (\<lambda>ret.
     assert_that (c_int ret = -1)))))))))))))"

definition partial_descriptor_bytes_are_ignored ::
  "libc \<Rightarrow> trace \<Rightarrow> ((io_error, unit) result \<times> trace) option" where
  "partial_descriptor_bytes_are_ignored L = run_main (
     chain (return_result (buffer_size_for_rights L 2)) (\<lambda>size.
     let (added, ancillary) = add_fds L [0, 0] (new_ancillary (replicate size 0)) in
     chain (unwrap added) (\<lambda>_.
     let cut = header_len L + 4 - 1 in
     chain (return_result (slice (buffer ancillary) 0 cut)) (\<lambda>bytes.
     chain (crate_call messages_owner (take_received L bytes)) (\<lambda>messages.
     assert_that (list_all (\<lambda>message. msg_fds message = []) messages))))))"

definition adding_no_descriptors_writes_no_header :: "libc \<Rightarrow> bool" where
  "adding_no_descriptors_writes_no_header L =
     (let (added, ancillary) = add_fds L [] (new_ancillary (replicate 64 0))
      in added = Ok () \<and> anc_length ancillary = 0)"

definition cmsg_space_matches_libc :: "libc \<Rightarrow> bool" where
  "cmsg_space_matches_libc L =
     list_all (\<lambda>payload. let expected = unat (CMSG_SPACE L (word_of_nat payload))
       in cmsg_space L payload = Some expected) [0, 1, 4, 8, 12, 253 * 4]"

section \<open>The tests of src/platform.rs\<close>

text \<open>\<open>all_ones\<close> is \<^verbatim>\<open>u64::MAX as rlim_t\<close>, whose width and sign are the target's.\<close>

definition clamp_nofile_maps_special_and_out_of_range_values :: "libc \<Rightarrow> int \<Rightarrow> bool" where
  "clamp_nofile_maps_special_and_out_of_range_values L all_ones \<longleftrightarrow>
     clamp_nofile L 0 = HARD_FLOOR \<and> clamp_nofile L 10 = HARD_FLOOR \<and> clamp_nofile L 1024 = 1024
     \<and> clamp_nofile L (RLIM_INFINITY L) = HARD_CEILING \<and> clamp_nofile L all_ones = HARD_CEILING"

definition nosigpipe_einval_becomes_broken_pipe :: "libc \<Rightarrow> errno \<Rightarrow> bool" where
  "nosigpipe_einval_becomes_broken_pipe L ENOTSOCK =
     (let mapped = nosigpipe_error L (Os (EINVAL L)); other = nosigpipe_error L (Os ENOTSOCK)
      in kind_of L mapped = BrokenPipe \<and> raw_os_error other = Some ENOTSOCK)"

definition cloexec_received_sets_flag_via_fcntl ::
  "libc \<Rightarrow> kernel \<Rightarrow> host \<Rightarrow> trace \<Rightarrow> ((io_error, unit) result \<times> trace) option" where
  "cloexec_received_sets_flag_via_fcntl L K H = run_main (
     chain (expect_ok (socket_pair H)) (\<lambda>(tx, rx).
     chain (expect_ok (open_one H OpenTemp)) (\<lambda>file.
     chain (return_result (buffer_size_for_rights L 1)) (\<lambda>size.
     let (added, anc) = add_fds L [file] (new_ancillary (replicate size 0)) in
     chain (unwrap added) (\<lambda>_.
     chain (expect_ok (crate_call (\<lambda>_. [])
       (sendmsg_vectored L K tx [bytes ''x''] (buffer anc) (anc_length anc)))) (\<lambda>_.
     chain (return_result (buffer_size_for_rights L 1)) (\<lambda>size.
     let anc_buf = replicate size 0; msg = recv_header L [replicate 8 0] anc_buf in
     chain (system (recvmsg K rx msg 0)) (\<lambda>ret. case ret of
       Inl e \<Rightarrow> crash
     | Inr reply \<Rightarrow>
       let anc_buf = overwrite anc_buf (rr_control reply); anc_len = rr_controllen reply in
       chain (return_result (slice anc_buf 0 anc_len)) (\<lambda>bytes.
       chain (crate_call messages_owner (take_received L bytes)) (\<lambda>received.
       let fds = concat (map msg_fds received) in
       chain (assert_that (length fds = 1)) (\<lambda>_.
       let fd = fds ! 0 in
       chain (system (fcntl_getfd K fd)) (\<lambda>before.
       chain (assert_that (c_int before AND FD_CLOEXEC L = 0)) (\<lambda>_.
       chain (expect_ok (crate_call (\<lambda>_. [])
         (\<lambda>tr. Some (fallback_cloexec_received L K received tr)))) (\<lambda>_.
       chain (system (fcntl_getfd K fd)) (\<lambda>after.
       assert_that (c_int after AND FD_CLOEXEC L = FD_CLOEXEC L))))))))))))))))"

section \<open>They pass\<close>

text \<open>One rule per piece of a test.\<close>

lemma achieves_test:
  "Q x own tr \<Longrightarrow> achieves (return_result (Ok x)) own tr Q"
  "Q x own tr \<Longrightarrow> achieves (unwrap (Ok x)) own tr Q"
  "Q1 () own tr \<Longrightarrow> achieves into_raw_fd (y # own) tr Q1"
  "f tr = (r, tr') \<Longrightarrow> Q2 r own tr' \<Longrightarrow> achieves (system f) own tr Q2"
  "g tr = Some (Ok x, tr') \<Longrightarrow> Q x (owners x @ own) tr' \<Longrightarrow> achieves (crate_call owners g) own tr Q"
  by (simp_all add: achieves_def return_result_def unwrap_def give_def system_def crate_call_def)

lemma take_received_Ok:
  assumes "(take_received_into L bs [] tr :: ((io_error, unit) result \<times> _) option) = Some (Ok (), ms, tr')"
  shows "take_received L bs tr = Some (Ok ms, tr')"
  by (simp add: take_received_def assms)

lemmas test_simps = achieves_def chain_def return_result_def unwrap_def give_def system_def crate_call_def
  add_fds_def assert_that_def messages_owner_def drop_owners_def Let_def

lemma slice_prefix: "n \<le> length xs \<Longrightarrow> slice xs 0 n = Ok (take n xs)"
  by (simp add: slice_def)

lemma oversized_passes:
  assumes abi: "libc_abi L" and H: "obliging L H"
  shows "\<exists>tr'. oversized_cmsg_len_owns_the_descriptors_that_fit L (assigning L num) H tr = Some (Ok (), tr') \<and> True"
  unfolding oversized_cmsg_len_owns_the_descriptors_that_fit_def
proof (rule achieves_main, rule achieves_chain, rule achieves_expect_ok, rule achieves_open [OF H], goal_cases)
  case (1 a)
  let ?raw = "ucast a :: raw_fd" and ?tr = "tr @ [SysHost (HOpen OpenTemp (Inr a))]"
  let ?fds = "[?raw, ?raw, ?raw]"
  let ?e = "encode_cmsg L (rights_message L ?fds)"
  obtain s where built: "(buffer_size_for_rights L (length ?fds) :: (io_error, usize) result) = Ok s"
    "add_rights L ?fds (new_ancillary (replicate s 0)) = (Ok (), \<lparr> buffer = ?e,
       anc_length = s, truncated = False, received = [], receive_mode = False \<rparr>)"
    and room: "header_len L + 4 * length ?fds \<le> s" "length ?e = s"
    by (rule libc_abi.exact_storage [OF abi, of ?fds]) (simp_all add: max_payload_def)
  have slice: "(slice ?e 0 (header_len L + 4) :: (io_error, byte list) result) = Ok (take (header_len L + 4) ?e)"
    by (rule slice_prefix) (use room in simp)
  have taken: "take_received L (take (header_len L + 4) ?e) ?tr = Some (Ok [Rights [?raw]], ?tr)"
    by (rule take_received_Ok, subst libc_abi.parse_cut(2) [OF abi]) (simp_all add: max_payload_def)
  have "?raw \<notin> fd_table L (?tr @ [SysClose ?raw])" by (simp add: fd_table_def table_step_def)
  then have getfd: "fcntl_getfd (assigning L num) ?raw (?tr @ [SysClose ?raw])
      = (Inl 9, ?tr @ [SysClose ?raw] @ [SysGetfd ?raw (Inl 9)])"
    by (simp add: fcntl_getfd_def Let_def)
  show ?case
    using built slice taken getfd by (simp add: test_simps numeral_3_eq_3)
qed

lemma partial_passes:
  assumes abi: "libc_abi L"
  shows "\<exists>tr'. partial_descriptor_bytes_are_ignored L tr = Some (Ok (), tr') \<and> True"
  unfolding partial_descriptor_bytes_are_ignored_def
proof (rule achieves_main, goal_cases)
  case 1
  let ?e = "encode_cmsg L (rights_message L [0, 0])"
  obtain s where built: "(buffer_size_for_rights L (length [0, 0 :: raw_fd]) :: (io_error, usize) result) = Ok s"
    "add_rights L [0, 0] (new_ancillary (replicate s 0)) = (Ok (), \<lparr> buffer = ?e,
       anc_length = s, truncated = False, received = [], receive_mode = False \<rparr>)"
    and room: "header_len L + 4 * length [0, 0 :: raw_fd] \<le> s" "length ?e = s"
    by (rule libc_abi.exact_storage [OF abi, of "[0, 0]"]) (simp_all add: max_payload_def)
  have slice: "(slice ?e 0 (header_len L + 3) :: (io_error, byte list) result) = Ok (take (header_len L + 3) ?e)"
    by (rule slice_prefix) (use room in simp)
  have taken: "take_received L (take (header_len L + 3) ?e) tr = Some (Ok [Rights []], tr)"
    by (rule take_received_Ok, subst libc_abi.parse_cut(2) [OF abi]) (simp_all add: max_payload_def)
  show ?case
    using built slice taken by (simp add: test_simps numeral_2_eq_2 add.commute [of 3])
qed

lemma adding_none_passes: "adding_no_descriptors_writes_no_header L"
  by (simp add: adding_no_descriptors_writes_no_header_def add_fds_def add_rights_def new_ancillary_def)

lemma cmsg_space_passes: "cmsg_space_matches_libc L"
  by (simp add: cmsg_space_matches_libc_def cmsg_space_eq max_payload_def Let_def)

lemma clamp_passes:
  assumes "libc_abi L" "RLIM_INFINITY L \<notin> {0, 10, 1024}" "all_ones < 0 \<or> 2 ^ 20 \<le> all_ones"
  shows "clamp_nofile_maps_special_and_out_of_range_values L all_ones"
proof -
  have u: "(2 :: int) ^ 32 \<le> 2 ^ usize_bits L"
    using libc_abi.usize_width [OF assms(1)] by auto
  show ?thesis
    using assms(2,3) u
    by (auto simp: clamp_nofile_maps_special_and_out_of_range_values_def clamp_nofile_def
        HARD_FLOOR_def HARD_CEILING_def Let_def)
qed

lemma nosigpipe_passes:
  assumes "EPIPE L \<notin> {EINTR L, EAGAIN L, EINVAL L}" "ENOTSOCK \<noteq> EINVAL L"
  shows "nosigpipe_einval_becomes_broken_pipe L ENOTSOCK"
  using assms by (simp add: nosigpipe_einval_becomes_broken_pipe_def nosigpipe_error_def)

text \<open>The byte and its descriptor go out, on the systems too where the send first sets an option.\<close>

lemma assigning_sendmsg:
  assumes abi: "libc_abi L" and "idle L tr" "fd \<in> fd_table L tr" "0 \<le> sint fd"
  shows "\<exists>n tr1. sendmsg_vectored L (assigning L num) s [data] (encode_cmsg L (rights_message L [fd]))
      (length (encode_cmsg L (rights_message L [fd]))) tr = Some (Ok n, tr1)
    \<and> waiting L tr1 data fd \<and> delivered L tr1 = delivered L tr"
proof -
  let ?e = "encode_cmsg L (rights_message L [fd])"
  let ?h = "send_header L [data] ?e (length ?e)"
  have c: "control_bytes ?h = ?e" by (rule sent_control [OF abi]) (simp add: max_payload_def)
  have send: "send_loop L (assigning L num) s ?h t
      = Some (Ok (length data), t @ [SysSendmsg s ?h (SEND_FLAGS L) (Inr (length data))])"
    if "fd_table L t = fd_table L tr" for t
    using that assms(3) one_right [OF abi assms(4)]
    by (subst send_loop.simps) (simp add: sendmsg_def c Let_def)
  have waits: "waiting L (t @ [SysSendmsg s ?h (SEND_FLAGS L) (Inr (length data))]) data fd" if "idle L t" for t
    using that by (simp add: waiting_def queue_def idle_def c)
  let ?o = "SysSetsockopt s (SOL_SOCKET L) (SO_NOSIGPIPE L) 1 (Inr ())"
  have "fd_table L (tr @ [?o]) = fd_table L tr" "idle L (tr @ [?o])"
    using assms(2) by (simp_all add: table_step_def idle_def)
  then show ?thesis
    using send [of tr] send [of "tr @ [?o]"] waits [of tr] waits [of "tr @ [?o]"] assms(2)
    by (auto simp: sendmsg_vectored_def prepare_send_def apple_prepare_send_def setsockopt_def Let_def)
qed

text \<open>A bare \<^verbatim>\<open>recvmsg\<close> without \<^verbatim>\<open>MSG_CMSG_CLOEXEC\<close> delivers a descriptor an exec would leak; the fallback mends it.\<close>

lemma fallback_mends:
  assumes fd: "fd \<in> fd_table L tr" "fd \<in> exposed L tr"
  shows "\<exists>ev. fcntl_getfd (assigning L num) fd tr = (Inr 0, tr @ [SysGetfd fd (Inr 0)])
    \<and> fallback_cloexec_received L (assigning L num) [Rights [fd]] (tr @ [SysGetfd fd (Inr 0)]) = (Ok (), tr @ ev)
    \<and> fst (fcntl_getfd (assigning L num) fd (tr @ ev)) = Inr (FD_CLOEXEC L)"
proof -
  let ?get = "SysGetfd fd (Inr 0)" and ?set = "SysSetfd fd (0 OR FD_CLOEXEC L) (Inr ())"
  have in_table: "fd \<in> fd_table L (tr @ [?get])" "fd \<in> fd_table L (tr @ [?get, ?get])"
      "fd \<in> fd_table L (tr @ [?get, ?get, ?set])"
    using fd(1) by (simp_all add: fd_table_def table_step_def)
  have flag: "fd \<in> exposed L (tr @ [?get])" "fd \<notin> exposed L (tr @ [?get, ?get, ?set])"
    using fd(2) by simp_all
  show ?thesis
    using fd in_table flag
    by (intro exI [of _ "[?get, ?get, ?set]"])
      (simp add: fcntl_getfd_def fcntl_setfd_def set_cloexec_def Let_def del: exposed_simps fd_table_snoc)
qed

lemma cloexec_passes:
  assumes abi: "libc_abi L" and H: "obliging L H" and N: "free_numbers L num"
    and start: "idle L tr" "length (delivered L tr) \<le> 1000"
    and flag: "cfg_cloexec L \<Longrightarrow> MSG_CMSG_CLOEXEC L \<noteq> 0"
  shows "\<exists>tr'. cloexec_received_sets_flag_via_fcntl L (assigning L num) H tr = Some (Ok (), tr') \<and> True"
  unfolding cloexec_received_sets_flag_via_fcntl_def
proof (rule achieves_main, rule achieves_chain, rule achieves_expect_ok, rule achieves_pair [OF H],
    rule achieves_prod, rule achieves_chain, rule achieves_expect_ok, rule achieves_open [OF H], goal_cases)
  case (1 a b f)
  let ?K = "assigning L num"
  let ?tx = "ucast a :: raw_fd" and ?rx = "ucast b :: raw_fd" and ?file = "ucast f :: raw_fd"
  let ?tr = "(tr @ [SysHost (HPair (Inr (a, b)))]) @ [SysHost (HOpen OpenTemp (Inr f))]"
  let ?e = "\<lambda>fd. encode_cmsg L (rights_message L [fd])"
  obtain s where size: "(buffer_size_for_rights L (length [?file]) :: (io_error, usize) result) = Ok s"
    and added: "add_rights L [?file] (new_ancillary (replicate s 0)) = (Ok (), \<lparr> buffer = ?e ?file,
       anc_length = s, truncated = False, received = [], receive_mode = False \<rparr>)"
    and sl: "length (?e ?file) = s"
    by (rule libc_abi.exact_storage [OF abi, of "[?file]"]) (simp_all add: max_payload_def)
  have "idle L ?tr" using start(1) by (simp add: idle_def)
  moreover have "?file \<in> fd_table L ?tr" unfolding fd_table_snoc by (simp add: table_step_def)
  ultimately obtain n tr1 where
    sent: "sendmsg_vectored L ?K ?tx [bytes ''x''] (?e ?file) s ?tr = Some (Ok n, tr1)"
    and tr1: "waiting L tr1 (bytes ''x'') ?file" "delivered L tr1 = delivered L ?tr"
    using assigning_sendmsg [OF abi, of ?tr ?file num ?tx "bytes ''x''"] sl by auto
  have "length (delivered L tr1) < 1024" using start(2) tr1(2) by simp
  from free_number [OF N this] obtain d where num: "num tr1 1 = [d]" and d: "0 \<le> sint d" by blast
  obtain s' where size': "(buffer_size_for_rights L (length [d]) :: (io_error, usize) result) = Ok s'"
    and len: "s' < 2 ^ 32" "length (?e d) = s'"
    by (rule libc_abi.exact_storage [OF abi, of "[d]"]) (simp_all add: max_payload_def)
  have s': "length (?e d) = s" "s < 2 ^ controllen_bits L"
    using size size' len libc_abi.controllen_lower [OF abi] by simp_all
  let ?msg = "recv_header L [replicate 8 0] (replicate s 0)"
  let ?reply = "deliver L (bytes ''x'', ?e d) ?msg"
  let ?tr2 = "tr1 @ [SysRecvmsg ?rx ?msg 0 (Inr ?reply)]"
  have recv: "sys_recvmsg ?K tr1 ?rx ?msg 0 = Inr ?reply"
    using tr1(1) renumbered_one [where num = num and tr = tr1, OF abi open_fd_nonneg num, of f] by (simp add: assigning_def waiting_def)
  have control: "rr_control ?reply = ?e d" "rr_controllen ?reply = s"
    using s' by (simp_all add: deliver_def recv_header_def)
  note one = one_right [OF abi d]
  have taken: "take_received L (?e d) ?tr2 = Some (Ok [Rights [d]], ?tr2)"
    by (rule take_received_Ok)
      (use d libc_abi.message_kinds [OF abi] in \<open>simp add: libc_abi.take_received_into_eq [OF abi] one(1) libc_abi.received_rights_message [OF abi]\<close>)
  have "d \<in> fd_table L ?tr2" "d \<in> exposed L ?tr2"
    using one(4) s' flag by (simp_all add: fd_table_def table_step_def control Let_def del: fd_table_snoc)
  from fallback_mends [OF this] obtain ev where mended:
    "fcntl_getfd ?K d ?tr2 = (Inr 0, ?tr2 @ [SysGetfd d (Inr 0)])"
    "fallback_cloexec_received L ?K [Rights [d]] (?tr2 @ [SysGetfd d (Inr 0)]) = (Ok (), ?tr2 @ ev)"
    "fst (fcntl_getfd ?K d (?tr2 @ ev)) = Inr (FD_CLOEXEC L)" by blast
  show ?case
    using size added sent recv control s' taken mended
    by (simp add: test_simps expect_ok_def attempt_def recvmsg_def slice_def take_overwrite overwrite_def split_def)
qed

text \<open>
  C34: The unit tests of the crate pass on the model of any target (whose error numbers, flags and limits
  are as distinct as the tests take them to be), over a socket on which nothing waits, on a kernel that
  refuses to send a number that is not open, installs the descriptors of a message at free numbers and
  answers \<^verbatim>\<open>fcntl\<close> from its descriptor table, with any standard library that can open a socket pair and a
  temporary file: no assertion fails and none of them panics or hangs. The sizes and limits they check are
  those of the target; a descriptor message longer than its bytes owns the descriptors that fit and no
  more, and closing them closes the file; and a descriptor that arrives without close-on-exec has it after
  the fallback.
\<close>
theorem unit_tests_pass:
  assumes "libc_abi L" and "obliging L H" and "free_numbers L num"
    and "idle L tr" and "length (delivered L tr) \<le> 1000"
    and "cfg_cloexec L \<Longrightarrow> MSG_CMSG_CLOEXEC L \<noteq> 0"
    and "RLIM_INFINITY L \<notin> {0, 10, 1024}" and "all_ones < 0 \<or> 2 ^ 20 \<le> all_ones"
    and "EPIPE L \<notin> {EINTR L, EAGAIN L, EINVAL L}" and "ENOTSOCK \<noteq> EINVAL L"
  shows "(\<exists>tr'. oversized_cmsg_len_owns_the_descriptors_that_fit L (assigning L num) H tr = Some (Ok (), tr'))
    \<and> (\<exists>tr'. partial_descriptor_bytes_are_ignored L tr = Some (Ok (), tr'))
    \<and> adding_no_descriptors_writes_no_header L
    \<and> cmsg_space_matches_libc L
    \<and> clamp_nofile_maps_special_and_out_of_range_values L all_ones
    \<and> nosigpipe_einval_becomes_broken_pipe L ENOTSOCK
    \<and> (\<exists>tr'. cloexec_received_sets_flag_via_fcntl L (assigning L num) H tr = Some (Ok (), tr'))"
  using oversized_passes [OF assms(1,2)] partial_passes [OF assms(1)] adding_none_passes cmsg_space_passes
    clamp_passes [OF assms(1,7,8)] nosigpipe_passes [OF assms(9,10)] cloexec_passes [OF assms(1-6)]
  by simp

theorem unit_tests_pass_witness:
  "(\<exists>tr'. oversized_cmsg_len_owns_the_descriptors_that_fit darwin64 (assigning darwin64 (lowest_free darwin64))
      (obliging_host darwin64) [] = Some (Ok (), tr'))
   \<and> (\<exists>tr'. cloexec_received_sets_flag_via_fcntl darwin64 (assigning darwin64 (lowest_free darwin64))
      (obliging_host darwin64) [] = Some (Ok (), tr'))"
proof -
  have t: "cfg_cloexec darwin64 \<Longrightarrow> MSG_CMSG_CLOEXEC darwin64 \<noteq> 0" "RLIM_INFINITY darwin64 \<notin> {0, 10, 1024}"
    "(2 ^ 64 - 1 :: int) < 0 \<or> 2 ^ 20 \<le> (2 ^ 64 - 1 :: int)"
    "EPIPE darwin64 \<notin> {EINTR darwin64, EAGAIN darwin64, EINVAL darwin64}" "38 \<noteq> EINVAL darwin64"
    by (simp_all add: darwin64_def cfg_cloexec_def)
  show ?thesis
    using unit_tests_pass [OF darwin64.libc_abi_axioms obliging_host free_numbers_lowest _ _ t, of "[]"]
    by (simp add: idle_def)
qed

end
