(* ===== verification/Spec2Isabelle.thy ===== *)
theory Spec2Isabelle
  imports Storage_Spec Streams Traits Unit_Tests Descriptions
begin

text \<open>
  A verification of the Rust crate \<^verbatim>\<open>unix-ancillary\<close>: passing file descriptors and credentials
  over Unix sockets. This header says how the program is modelled, what is proved and what is
  left out; each theory opens with its own summary.

  \<^bold>\<open>The program.\<close> A caller either builds control data in a \<^verbatim>\<open>SocketAncillary\<close> and uses the
  low-level calls of \<^verbatim>\<open>src/lib.rs\<close>, or uses the extension traits of \<^verbatim>\<open>src/ext.rs\<close>, the functions of
  \<^verbatim>\<open>src/seqpacket.rs\<close> or, with tokio, those of \<^verbatim>\<open>src/asyncio.rs\<close>. All of them go through the
  system-call layer \<^verbatim>\<open>src/cmsg.rs\<close>, which retries interrupted calls and asks \<^verbatim>\<open>src/platform.rs\<close> for
  the flags and fallbacks of the target. Received control bytes are parsed, and the descriptors in
  them owned, by \<^verbatim>\<open>src/ancillary.rs\<close>; \<^verbatim>\<open>src/credentials.rs\<close> converts \<^verbatim>\<open>ucred\<close>. The programs of
  \<^verbatim>\<open>examples/\<close> use these interfaces together with the standard library.

  \<^bold>\<open>Conventions.\<close> \<open>result\<close> is \<^verbatim>\<open>Result\<close> with a third outcome \<open>Panic\<close>, so that every slice access,
  checked addition and \<^verbatim>\<open>expect\<close> of the code is a branch (\<open>Prelude\<close>); a raw read beyond the bytes
  it is given is a \<open>Panic\<close> too (\<open>read_raw\<close>), so that its guard is part of what is proved. An operation that reaches
  the system takes the trace of this process's system calls and returns it extended; \<open>None\<close> is a
  run that never returns. Descriptors and \<^verbatim>\<open>c_int\<close>s are \<open>32 word\<close>, bytes \<open>8 word\<close>, \<^verbatim>\<open>usize\<close> values
  natural numbers with the checks and casts of the code written out. Descriptors leave ownership
  only through \<open>drop_fds\<close>, which records a \<^verbatim>\<open>close\<close>. \<^verbatim>\<open>&mut\<close> arguments are returned updated.

  \<^bold>\<open>Parameters and their laws.\<close> \<open>L :: libc\<close> (\<open>Libc\<close>) is the target: system, word sizes, \<^verbatim>\<open>cmsghdr\<close>
  layout, constants and the macros \<^verbatim>\<open>CMSG_LEN\<close> and \<^verbatim>\<open>CMSG_SPACE\<close>; the locale \<open>libc_abi\<close> states what the
  crate relies on and is interpreted on 64-bit Linux, big-endian 32-bit Linux and 64-bit macOS.
  \<^verbatim>\<open>cfg\<close> attributes are conditions on \<open>L\<close>. \<open>K :: kernel\<close> (\<open>Kernel\<close>) answers system calls, any answer
  at any time; \<open>os_interface\<close> (\<open>Cmsg\<close>) adds the documented contracts: \<^verbatim>\<open>sendmsg\<close> accepts no more
  than it was given, \<^verbatim>\<open>recvmsg\<close> fills no more than the buffers it was given. \<open>Loopback\<close> has the
  reference kernels (faithful, interrupting, short-writing) on which it is interpreted; \<open>attesting\<close>
  (\<open>Transfers\<close>) is one that puts the sender's credentials in front of what it delivers, \<open>byte_stream\<close>
  (\<open>Streams\<close>) one that keeps no boundaries between sends, and \<open>assigning\<close> (\<open>Descriptions\<close>) one with a
  descriptor table, which installs what it delivers at free numbers (\<open>free_numbers\<close>, with POSIX's lowest
  free ones as instance). \<open>aio\<close>
  (\<open>Asyncio\<close>) is tokio's \<^verbatim>\<open>async_io\<close>; \<open>tokio_io\<close> (\<open>Async_Props\<close>) is its retry contract, interpreted on
  a polling runtime, and \<open>prompt\<close> (\<open>Traits\<close>) says that a closure that does not block is called once.
  \<open>H :: host\<close> (\<open>Host\<close>) answers what the example programs ask of the standard
  library, any answer at any time, except that a descriptor it opens is not negative; \<open>ticking\<close> and
  \<open>obliging\<close> (\<open>Example_Runs\<close>) state that its clock advances and that it does what it is asked through
  descriptors that are open, writing through one open for reading excepted, each with an instance.

  \<^bold>\<open>What models what.\<close>
  \<^item> \<open>Credentials\<close>: \<^verbatim>\<open>src/credentials.rs\<close> (record \<open>scm_credentials\<close>, \<open>set_passcred\<close>, \<open>passcred\<close>).
  \<^item> \<open>Ancillary\<close>: \<^verbatim>\<open>src/ancillary.rs\<close> (record \<open>socket_ancillary\<close>; \<open>raw_next\<close> and \<open>for_messages\<close> are the
    iterator \<^verbatim>\<open>RawMessages\<close>; \<open>take_fds\<close>, \<open>take_received_into\<close>, \<open>reserve_cmsg\<close>, \<open>add_rights\<close>,
    \<open>add_credentials\<close>, \<open>messages\<close>, \<open>clear\<close>, \<open>with_control\<close>) and the fuzz target.
  \<^item> \<open>Platform\<close>: \<^verbatim>\<open>src/platform.rs\<close>, the native and the fallback module selected by \<open>L\<close>.
  \<^item> \<open>Cmsg\<close>: \<^verbatim>\<open>src/cmsg.rs\<close> (\<open>sendmsg_vectored\<close>, \<open>recvmsg_raw\<close>, \<open>recv_fds\<close>).
  \<^item> \<open>Lowlevel\<close>: the functions of \<^verbatim>\<open>src/lib.rs\<close>; \<open>Ext\<close> and \<open>Seqpacket\<close>: \<^verbatim>\<open>src/ext.rs\<close> and
    \<^verbatim>\<open>src/seqpacket.rs\<close>; \<open>Asyncio\<close>: \<^verbatim>\<open>src/asyncio.rs\<close> and \<^verbatim>\<open>seqpacket::tokio\<close>. \<open>Traits\<close>: the four extension
    traits as records of their methods, and their impls.
  \<^item> \<open>Session\<close>: a program using the crate, one transition per operation of one storage, its
    iterators, the descriptors held, and the convenience calls, in any order. An asynchronous call
    is a repetition of the step of its blocking form.
  \<^item> \<open>Host\<close>: values with a destructor and the order they are dropped in, \<^verbatim>\<open>?\<close> and the scopes of a
    function body, the operations of the standard library the examples call. \<open>Examples\<close>: every
    \<^verbatim>\<open>main\<close> of \<^verbatim>\<open>examples/*.rs\<close>, with \<^verbatim>\<open>child\<close> and the accept loop of \<^verbatim>\<open>multiprocess.rs\<close>.
  \<^item> \<open>Unit_Tests\<close>: the test modules of \<^verbatim>\<open>src/ancillary.rs\<close> and \<^verbatim>\<open>src/platform.rs\<close>, with \<^verbatim>\<open>take_received\<close>.

  \<^bold>\<open>What is proved.\<close>
  \<^item> \<open>Wire\<close>, \<open>Builder\<close>, \<open>Roundtrip\<close>: the parser is total on any bytes and recovers the messages of
    every well-formed or cut buffer; building is atomic, bounded and inverted by parsing.
  \<^item> \<open>Storage_Spec\<close>: the byte-level storage refines an abstract data type of message lists.
  \<^item> \<open>Ownership\<close> and every layer above: \<open>accounted\<close>, the balance of delivered, owned and closed
    descriptors with solvency at every prefix, per operation on every outcome; \<open>Session\<close> lifts it to
    an invariant of all programs, whence no leak and no double close. \<open>Fd_Table\<close>: the descriptor table
    a history describes; what is owned is what is open there.
  \<^item> \<open>Syscalls\<close>, \<open>Exec_Safety\<close>: retries, \<^verbatim>\<open>SIGPIPE\<close>, the receive budget; no operation leaves a received
    descriptor without close-on-exec, and none is without it whenever a program acts outside the crate.
  \<^item> \<open>Convenience\<close>, \<open>Transfer_Props\<close>: a receive is the policy \<open>recv_policy\<close> of one reply; sends
    attach descriptors once and complete the payload (locales \<open>completion_loop\<close>, \<open>attached_send\<close>,
    shared with the asynchronous form); sizes, limits and termination.
  \<^item> \<open>Async_Props\<close>: the same for the asynchronous forms, for any number of blocked attempts, and for
    futures dropped while suspended.
  \<^item> \<open>Host_Safety\<close>, \<open>Example_Safety\<close>: each example closes what it opens and receives, however it
    ends (locale \<open>program_relation\<close>: what a program keeps if its parts do). \<open>Worker_Props\<close>: the parent
    of \<^verbatim>\<open>multiprocess\<close> waits for its worker on every path, the worker acknowledges only a descriptor
    it has checked. \<open>Descriptions\<close>: which open file a descriptor stands for, through the table and
    the messages under way. \<open>Example_Runs\<close>: the examples return, and on a faithful system they succeed
    and use, under its new number, the file that was sent.
  \<^item> \<open>Transfers\<close>, \<open>Streams\<close>: from sender to receiver: control data built by hand, a receive after a
    peek, credentials from the kernel, and a byte stream that splits and joins sends. \<open>Traits\<close>: the
    asynchronous methods do what the blocking ones do.
  \<^item> \<open>Unit_Tests\<close>: the crate's unit tests pass on the model, on every target.
  \<^item> This theory: one whole convenience transfer, and the invariants over all reachable states.

  \<^bold>\<open>Bounds and loops.\<close> No fuel is used. Loops over a slice recurse on it; the loops that may run for
  ever (\<open>send_loop\<close>, \<open>recv_loop\<close>, \<open>send_rest\<close>, \<open>async_send_rest\<close>, \<open>for_messages\<close>) are
  \<open>partial_function (option)\<close>, with theorems on exactly when they return; so is \<open>accept_loop\<close>, which
  returns on any host whose clock advances while it sleeps. \<open>max_payload\<close> is
  \<open>2 ^ 31 - 1\<close>, the code's own limit on a control payload; the hypothesis \<open>4 * n \<le> max_payload\<close>
  excludes only requests for \<open>2 ^ 29\<close> or more descriptors, on which the code panics
  (\<open>rights_size_limit\<close>). Storage buffers in \<open>Session\<close> are shorter than \<open>2 ^ 32\<close> bytes, so that the
  kernel's length fields hold their length on every target.

  \<^bold>\<open>Simplifications.\<close> A retried system call is given the same header: the kernel is assumed not to
  change it on an error. \<open>iov_len\<close> adds lengths without overflow, slices in memory being shorter than
  the address space. \<open>close\<close> cannot fail. A kernel may deliver any number, also one that is
  open, so the balances count multiplicities; the descriptor table is read off the history, and the
  theorems on it assume that descriptors are installed at free numbers (\<open>assigns_free\<close>).
  In the examples what is printed is left out; a call of the standard library is one event, and \<^verbatim>\<open>wait\<close> is taken to return; dropping a temporary
  file or directory is a removal event besides the close; descriptors the standard library opens are
  close-on-exec, as it documents; times are milliseconds.

  \<^bold>\<open>Not modelled.\<close> The \<^verbatim>\<open>Display\<close> and \<^verbatim>\<open>Error\<close> impls of \<^verbatim>\<open>AncillaryError\<close>, which only print; the
  integration tests under \<^verbatim>\<open>tests/\<close>; the audit program under \<^verbatim>\<open>docs/audits\<close>, written against an earlier
  interface of the crate, with which it no longer compiles. The calls in \<^verbatim>\<open>__fuzz_parse\<close> are made and their
  values, only hidden from the optimiser by \<^verbatim>\<open>black_box\<close>, dropped.
\<close>

section \<open>End to end\<close>

text \<open>
  Over a socket that delivers what it is sent and holds nothing else, whatever happened on it
  before, \<^verbatim>\<open>send_fds_all\<close> followed by an exact receive gives the peer the same payload and the same
  descriptors in the same order, nothing surplus, on every Linux target, for any payload of one to
  4096 bytes and up to 253 descriptors.
\<close>
theorem end_to_end:
  assumes "linux_abi L" and "fds \<noteq> []" "length fds \<le> 253" "list_all (\<lambda>fd. 0 \<le> sint fd) fds"
    and "data \<noteq> []" "length data \<le> DEFAULT_STREAM_BUF" and "idle L tr"
  shows "\<exists>tr1 tr2. stream_send_fds_all L (loopback L) a data fds tr = Some (Ok (), tr1)
    \<and> stream_recv_fds_exact L (loopback L) b (length fds) tr1
      = Some (Ok \<lparr> rf_data = data, rf_fds = fds, rf_surplus_closed = 0 \<rparr>, tr2)"
proof -
  have abi: "libc_abi L" and native: "cfg_cloexec L"
    using assms(1) cfg_linux_cloexec by (simp_all add: linux_abi_def linux_abi_axioms_def)
  have small: "4 * length fds \<le> max_payload" using assms(3) by (simp add: max_payload_def)
  from loopback_receive [OF assms(1,3,4,6) queue_sent_once [OF abi small assms(7)]]
    loopback_send [OF abi native assms(2,5) small] show ?thesis by blast
qed

theorem end_to_end_witness:
  "\<exists>tr1 tr2. stream_send_fds_all linux32be (loopback linux32be) 3 [1, 2] [7, 8] [] = Some (Ok (), tr1)
    \<and> stream_recv_fds_exact linux32be (loopback linux32be) 4 2 tr1
      = Some (Ok \<lparr> rf_data = [1, 2], rf_fds = [7, 8], rf_surplus_closed = 0 \<rparr>, tr2)"
  using end_to_end [OF linux32be.linux_abi_axioms, of "[7, 8]" "[1, 2]" "[]" 3 4]
  by (simp add: DEFAULT_STREAM_BUF_def numeral_2_eq_2 idle_def)

section \<open>Programs using the crate\<close>

lemma reachable_balanced:
  assumes "os_interface L K" "reachable L K s"
  shows "accounted L [] [] (log s) (live_fds s)"
  using os_interface.reachable_inv [OF assms] by (simp add: session_inv_def balanced_def)

text \<open>A program that has sent itself descriptor 7, received it and closed it.\<close>

definition received_seven :: "trace \<Rightarrow> session" where
  "received_seven tr = \<lparr> storage = new_ancillary [], draining = None, batches = [], held = [7], log = tr \<rparr>"

lemma reachable_seven:
  "\<exists>tr. reachable linux64 (loopback linux64) (received_seven tr)
     \<and> sent tr = [([9], encode_cmsg linux64 (rights_message linux64 [7]))]
     \<and> delivered linux64 tr = [7] \<and> closed tr = []"
proof -
  let ?K = "loopback linux64" let ?tr1 = "sent_once linux64 3 [9] [7]"
  have q: "queue linux64 ?tr1 = [([9], encode_cmsg linux64 (rights_message linux64 [7]))]"
    using queue_sent_once [OF linux64.libc_abi_axioms, of "[7]" "[]" 3 "[9]"]
    by (simp add: max_payload_def idle_def)
  have "reachable linux64 ?K (start [])" by (rule reach_start) simp
  moreover have "session_step linux64 ?K (start []) ((start [])\<lparr>log := ?tr1\<rparr>)"
    by (rule transmit_step [of "[7]" "[9]" _ _ 3])
      (simp_all add: max_payload_def start_def loopback_send linux64.libc_abi_axioms)
  ultimately have r1: "reachable linux64 ?K ((start [])\<lparr>log := ?tr1\<rparr>)" by (rule reach_step)
  let ?buf = "replicate DEFAULT_STREAM_BUF 0"
  have "\<exists>tr'. recv_core linux64 ?K 4 [?buf] Stream (Exact 1) ?tr1
      = Some (Ok (length [9 :: byte], [7], 0), [overwrite ?buf [9]], tr') \<and> closed tr' = closed ?tr1"
    by (rule loopback_core_rights [OF linux64.linux_abi_axioms, of "[7]" _ _ _ _ "[]"])
      (use q in \<open>simp_all add: DEFAULT_STREAM_BUF_def\<close>)
  then obtain n iov' tr2 where run: "recv_core linux64 ?K 4 [?buf] Stream (Exact 1) ?tr1
      = Some (Ok (n, [7], 0), iov', tr2)" and closes: "closed tr2 = []"
    by (auto simp: sent_once_def Let_def)
  have "session_step linux64 ?K ((start [])\<lparr>log := ?tr1\<rparr>)
      (((start [])\<lparr>log := ?tr1\<rparr>)\<lparr>held := kept (Ok (n, [7], 0)) @ held ((start [])\<lparr>log := ?tr1\<rparr>), log := tr2\<rparr>)"
    by (rule receive_step [of "Exact 1" _ _ 4 "[replicate DEFAULT_STREAM_BUF 0]" Stream _ _ iov'])
      (use run in \<open>simp_all add: max_payload_def start_def\<close>)
  from reach_step [OF r1 this] have r2: "reachable linux64 ?K (received_seven tr2)"
    by (simp add: start_def received_seven_def)
  moreover from reachable_balanced [OF linux64_loopback.os_interface_axioms r2] closes
  have "delivered linux64 tr2 = [7]"
    by (auto simp: accounted_def received_seven_def live_fds_def drained_fds_def anc_fds_def new_ancillary_def)
  moreover have "sent tr2 = sent ?tr1" by (rule linux64.sent_recv_core [OF run])
  moreover have "sent ?tr1 = [([9], encode_cmsg linux64 (rights_message linux64 [7]))]"
    using q by (simp add: queue_def sent_once_def Let_def)
  ultimately show ?thesis using closes by auto
qed

text \<open>
  C1: Whatever a program does with the crate, in any order and with any answers of a kernel
  that keeps its contracts, every descriptor delivered to it is either owned by exactly one of
  its values or has been closed: as multisets, what was delivered is what it owns and what was
  closed. In particular a program that has dropped everything has leaked nothing.
\<close>
theorem no_descriptor_lost:
  assumes "os_interface L K" and "reachable L K s"
  shows "mset (delivered L (log s)) = mset (live_fds s) + mset (closed (log s))"
  using reachable_balanced [OF assms] by (auto simp: accounted_def)

theorem no_descriptor_lost_witness:
  "\<exists>tr. reachable linux64 (loopback linux64) (received_seven tr)
     \<and> mset (delivered linux64 tr) = {#7#} + mset (closed tr)"
proof -
  obtain tr where r: "reachable linux64 (loopback linux64) (received_seven tr)"
    using reachable_seven by blast
  from no_descriptor_lost [OF linux64_loopback.os_interface_axioms r] r show ?thesis
    by (auto simp: received_seven_def live_fds_def drained_fds_def anc_fds_def new_ancillary_def)
qed

text \<open>
  C2: No descriptor is closed that is not owned at that moment: at every close in the history
  of such a program, the descriptor had been delivered more often than it had been closed. So
  none is closed twice, even where the kernel reuses its number.
\<close>
theorem no_double_close:
  assumes "os_interface L K" and "reachable L K s" and "log s = pre @ SysClose fd # post"
  shows "count (mset (closed pre)) fd < count (mset (delivered L pre)) fd"
proof -
  have "solvent L [] ((pre @ [SysClose fd]) @ post)"
    using reachable_balanced [OF assms(1,2)] assms(3) by (auto simp: accounted_def)
  from mset_subset_eq_count [OF solventD [OF this], of fd] show ?thesis by simp
qed

theorem no_double_close_witness:
  "\<exists>s pre. reachable linux64 (loopback linux64) s \<and> log s = pre @ [SysClose 7]
     \<and> count (mset (closed pre)) 7 < count (mset (delivered linux64 pre)) 7"
proof -
  obtain tr where r: "reachable linux64 (loopback linux64) (received_seven tr)"
    using reachable_seven by blast
  let ?s = "(received_seven tr)\<lparr>held := [] @ [], log := drop_fds [7] (log (received_seven tr))\<rparr>"
  have "session_step linux64 (loopback linux64) (received_seven tr) ?s"
    by (rule close_step [of _ "[]" 7 "[]"]) (simp add: received_seven_def)
  with r have s: "reachable linux64 (loopback linux64) ?s" by (rule reach_step)
  moreover have l: "log ?s = tr @ SysClose 7 # []" by (simp add: received_seven_def drop_fds_def)
  ultimately show ?thesis
    using no_double_close [OF linux64_loopback.os_interface_axioms s l] by blast
qed

text \<open>
  C3: On a kernel that installs descriptors at free numbers, what such a program owns is exactly what
  is open: its values hold each open descriptor of the process once, no two of them the same number,
  and every close in its history was of a number open at that moment, so none ever hits a descriptor
  that was closed or handed out anew.
\<close>
theorem owned_is_open:
  assumes "os_interface L K" and "reachable L K s" and "assigns_free L {} (log s)"
  shows "distinct (live_fds s) \<and> set (live_fds s) = fd_table L (log s)
    \<and> (\<forall>pre fd post. log s = pre @ SysClose fd # post \<longrightarrow> fd \<in> fd_table L pre)"
  using accounted_table [OF reachable_balanced [OF assms(1,2)] assms(3)] by blast

theorem owned_is_open_witness:
  "\<exists>s. reachable linux64 (loopback linux64) s \<and> live_fds s = [7] \<and> fd_table linux64 (log s) = {7}"
proof -
  obtain tr where r: "reachable linux64 (loopback linux64) (received_seven tr)"
    and t: "delivered linux64 tr = [7]" "closed tr = []" using reachable_seven by blast
  have "assigns_free linux64 {} (log (received_seven tr))"
    by (rule assigns_free_distinct) (simp_all add: received_seven_def t)
  moreover have "live_fds (received_seven tr) = [7]"
    by (simp add: received_seven_def live_fds_def drained_fds_def anc_fds_def new_ancillary_def)
  ultimately show ?thesis using owned_is_open [OF linux64_loopback.os_interface_axioms r] r
    by (intro exI [of _ "received_seven tr"]) auto
qed

text \<open>
  C4: At every point between two operations of such a program, no descriptor it received is open
  without its close-on-exec flag: where the kernel can set the flag atomically it was asked to,
  and elsewhere the crate has set it on every descriptor it kept and closed every other one, also
  after setting it failed half way. An \<^verbatim>\<open>exec\<close> leaks none.
\<close>
theorem nothing_exposed_to_exec:
  assumes "os_interface L K" and "reachable L K s"
  shows "exposed L (log s) = {}"
  by (rule os_interface.reachable_unexposed [OF assms])

theorem nothing_exposed_to_exec_witness:
  "\<exists>tr. reachable linux64 (loopback linux64) (received_seven tr) \<and> exposed linux64 tr = {}"
proof -
  obtain tr where r: "reachable linux64 (loopback linux64) (received_seven tr)"
    using reachable_seven by blast
  from nothing_exposed_to_exec [OF linux64_loopback.os_interface_axioms r] r show ?thesis
    by (auto simp: received_seven_def)
qed

text \<open>
  A storage in build mode owns no descriptor and yields no message, at every reachable
  state: bytes a program is about to send are never handed out as received descriptors.
\<close>
theorem build_mode_yields_nothing:
  assumes "os_interface L K" and "reachable L K s" and "\<not> receive_mode (storage s)"
  shows "fst (messages (storage s)) = [] \<and> anc_fds (storage s) = []
    \<and> anc_length (storage s) \<le> length (buffer (storage s))"
  using os_interface.reachable_inv [OF assms(1,2)] assms(3)
  by (simp add: session_inv_def storage_ok_def messages_def anc_fds_def)

theorem build_mode_yields_nothing_witness:
  "fst (messages (storage (start [1, 2]))) = [] \<and> anc_fds (storage (start [1, 2])) = []"
proof -
  have "reachable linux64 (loopback linux64) (start [1, 2])" by (rule reach_start) simp
  from build_mode_yields_nothing [OF linux64_loopback.os_interface_axioms this] show ?thesis
    by (simp add: start_def new_ancillary_def)
qed

text \<open>
  C28: The types of the program's values hold at every reachable state: a descriptor it owns or
  closes is never negative (the niche \<^verbatim>\<open>OwnedFd\<close> reserves), the used length of the storage is a
  valid index of its buffer, lengths are \<^verbatim>\<open>usize\<close> values, and neither while a \<^verbatim>\<open>Messages\<close> iterator
  lives nor in build mode does the storage itself own a descriptor or yield a message, so
  bytes a program is about to send are never handed out as received descriptors.
\<close>
theorem session_well_typed:
  assumes "os_interface L K" and "reachable L K s"
  shows "list_all (\<lambda>fd. 0 \<le> sint fd) (live_fds s) \<and> list_all (\<lambda>fd. 0 \<le> sint fd) (closed (log s))
    \<and> anc_length (storage s) \<le> length (buffer (storage s))
    \<and> length (buffer (storage s)) < 2 ^ usize_bits L
    \<and> (draining s \<noteq> None \<longrightarrow> fst (messages (storage s)) = [] \<and> anc_fds (storage s) = [])
    \<and> (\<not> receive_mode (storage s) \<longrightarrow> fst (messages (storage s)) = [] \<and> anc_fds (storage s) = [])"
proof -
  have b: "mset (delivered L (log s)) = mset (live_fds s) + mset (closed (log s))"
    using reachable_balanced [OF assms] by (auto simp: accounted_def)
  have "set (live_fds s) \<union> set (closed (log s)) = set (delivered L (log s))"
    using arg_cong [OF b, of set_mset] by simp
  then have "\<forall>fd \<in> set (live_fds s) \<union> set (closed (log s)). 0 \<le> sint fd"
    using delivered_nonneg by blast
  moreover have "(2 :: nat) ^ 32 \<le> 2 ^ usize_bits L"
    using libc_abi.usize_lower [OF os_interface_abi [OF assms(1)]] by simp
  ultimately show ?thesis
    using os_interface.reachable_inv [OF assms] drained_empty [OF assms(2)]
    by (auto simp: session_inv_def storage_ok_def messages_def anc_fds_def list_all_iff)
qed

theorem session_well_typed_witness:
  "list_all (\<lambda>fd. 0 \<le> sint fd) [7 :: raw_fd] \<and> (\<exists>tr. reachable linux64 (loopback linux64) (received_seven tr))"
proof -
  obtain tr where r: "reachable linux64 (loopback linux64) (received_seven tr)"
    using reachable_seven by blast
  from session_well_typed [OF linux64_loopback.os_interface_axioms r] r show ?thesis
    by (auto simp: received_seven_def live_fds_def drained_fds_def anc_fds_def new_ancillary_def)
qed

text \<open>
  C30: Every message such a program puts on the wire carries well-formed control data: a
  sequence of whole messages that a receiver parses back one by one.
\<close>
theorem wire_always_well_formed:
  assumes "os_interface L K" and "reachable L K s" and "(p, c) \<in> set (sent (log s))"
  shows "c = concat (map (encode_cmsg L) (messages_in L c))
    \<and> fuzz_parse L c = Some (Ok (), length (messages_in L c))"
proof -
  have abi: "libc_abi L" by (rule os_interface_abi [OF assms(1)])
  from os_interface.reachable_inv [OF assms(1,2)] assms(3) obtain ms where
    "\<forall>m\<in>set ms. length (m_data m) \<le> max_payload" "c = concat (map (encode_cmsg L) ms)"
    by (auto simp: session_inv_def sent_ok_def encoded_def)
  then show ?thesis
    by (simp add: libc_abi.parse_encode [OF abi] libc_abi.fuzz_parse_eq [OF abi])
qed

theorem wire_always_well_formed_witness:
  "let c = encode_cmsg linux64 (rights_message linux64 [7]) in
     c = concat (map (encode_cmsg linux64) (messages_in linux64 c))"
proof -
  obtain tr where r: "reachable linux64 (loopback linux64) (received_seven tr)"
    and t: "sent tr = [([9], encode_cmsg linux64 (rights_message linux64 [7]))]"
    using reachable_seven by blast
  have "([9], encode_cmsg linux64 (rights_message linux64 [7])) \<in> set (sent (log (received_seven tr)))"
    using t by (simp add: received_seven_def)
  from wire_always_well_formed [OF linux64_loopback.os_interface_axioms r this] show ?thesis
    unfolding Let_def by blast
qed

end
